(* ===== verification/Prelude.thy ===== *)
theory Prelude
  imports Main "HOL-Library.AList" "HOL-Library.Sublist" "HOL-Library.Word"
begin

text \<open>
  Shared vocabulary of the development: Go's 64-bit integers and durations, Go maps as
  association lists (the list order stands for one iteration order of the map), and the
  generic lemmas the component theories use.
\<close>

named_theorems go_map_simps \<open>rewriting of lookups, updates and deletions on Go maps\<close>
named_theorems go_defs \<open>definitions of library functions that concrete evaluations unfold\<close>

section \<open>Machine integers and durations\<close>

text \<open>
  Go's \<open>int\<close> and \<open>int64\<close> are 64-bit two's complement on every platform the service is
  built for. Values that only travel are modelled by \<open>int\<close>; where the code computes with
  them the result is reduced by \<open>wrap64\<close>, so an overflow wraps as it does in Go.
\<close>

definition wrap64 :: "int \<Rightarrow> int" where
  "wrap64 x = signed_take_bit 63 x"

definition int64_range :: "int \<Rightarrow> bool" where
  "int64_range x \<longleftrightarrow> - (2 ^ 63) \<le> x \<and> x < 2 ^ 63"

lemma wrap64_id: "int64_range x \<Longrightarrow> wrap64 x = x"
  by (simp add: wrap64_def int64_range_def signed_take_bit_int_eq_self)

lemma int64_range_wrap64: "int64_range (wrap64 x)"
  using signed_take_bit_int_greater_eq_minus_exp [of 63 x] signed_take_bit_int_less_exp [of 63 x]
  by (simp add: wrap64_def int64_range_def)

text \<open>Integer division of Go truncates towards zero.\<close>

definition go_div :: "int \<Rightarrow> int \<Rightarrow> int" where
  "go_div a b = sgn a * sgn b * (\<bar>a\<bar> div \<bar>b\<bar>)"

lemma go_div_nonneg: "0 \<le> a \<Longrightarrow> 0 < b \<Longrightarrow> go_div a b = a div b"
  by (cases "a = 0") (auto simp: go_div_def sgn_if)

type_synonym u64 = "64 word"
type_synonym duration = int
type_synonym gotime = int

lemma unat_u64_less: "unat (w :: u64) < 2 ^ 64"
  using unsigned_less [of w] by simp

lemma unat_u64_max: "unat (- 1 :: u64) = 2 ^ 64 - 1"
  by (simp add: unsigned_minus_1_eq_mask mask_eq_exp_minus_1)

lemma unat_u64_add: "unat a + unat b < 2 ^ 64 \<Longrightarrow> unat (a + b :: u64) = unat a + unat b"
  by (simp add: unat_word_ariths)

text \<open>Durations and instants count nanoseconds, as \<^verbatim>\<open>time.Duration\<close> does.\<close>

definition second :: duration where
  "second = 1000000000"

definition minute :: duration where
  "minute = 60 * second"

definition hour :: duration where
  "hour = 60 * minute"

lemma duration_pos [simp]: "0 < second" "0 < minute" "0 < hour"
  by (simp_all add: second_def minute_def hour_def)

section \<open>Optional values\<close>

text \<open>A Go pointer to a scalar is an option; the comparison guards of the code read it so.\<close>

fun exceeds :: "int option \<Rightarrow> int option \<Rightarrow> bool" where
  "exceeds (Some v) (Some bound) = (bound < v)"
| "exceeds _ _ = False"

lemma exceeds_iff: "exceeds v b \<longleftrightarrow> (\<exists>x y. v = Some x \<and> b = Some y \<and> y < x)"
  by (cases "(v, b)" rule: exceeds.cases) auto

lemma exceeds_None [simp]: "\<not> exceeds None b" "\<not> exceeds v None"
  by (simp_all add: exceeds_iff)

section \<open>Go maps\<close>

text \<open>
  A Go map whose size or iteration matters is an association list with distinct keys:
  \<open>map_of\<close> reads it, \<open>AList.update\<close> stores, \<open>AList.delete\<close> deletes and \<open>length\<close> is
  \<^verbatim>\<open>len\<close>. Every list order stands for an iteration order, so a lemma about all lists
  covers every order Go may choose.
\<close>

definition wf_map :: "('k \<times> 'v) list \<Rightarrow> bool" where
  "wf_map m \<longleftrightarrow> distinct (map fst m)"

lemma wf_map_Nil [simp, intro]: "wf_map []"
  by (simp add: wf_map_def)

lemma wf_map_update [simp, intro]: "wf_map m \<Longrightarrow> wf_map (AList.update k v m)"
  by (simp add: wf_map_def distinct_update)

lemma wf_map_delete [simp, intro]: "wf_map m \<Longrightarrow> wf_map (AList.delete k m)"
  by (simp add: wf_map_def distinct_delete)

lemma wf_map_filter [simp, intro]: "wf_map m \<Longrightarrow> wf_map (filter P m)"
  by (simp add: wf_map_def distinct_map_filter)

lemma wf_map_Cons: "wf_map ((k, v) # m) \<longleftrightarrow> k \<notin> fst ` set m \<and> wf_map m"
  by (simp add: wf_map_def)

lemma map_of_update [go_map_simps]:
  "map_of (AList.update k v m) k' = (if k' = k then Some v else map_of m k')"
  by (simp add: update_conv)

lemma map_of_delete [go_map_simps]:
  "map_of (AList.delete k m) k' = (if k' = k then None else map_of m k')"
  by (simp add: delete_conv)

lemma map_of_filter_key [go_map_simps]:
  "map_of (filter (\<lambda>(k, v). P k) m) k' = (if P k' then map_of m k' else None)"
  by (induction m) auto

lemma map_of_filter_wf:
  "wf_map m \<Longrightarrow> map_of (filter P m) k = (case map_of m k of None \<Rightarrow> None
     | Some v \<Rightarrow> if P (k, v) then Some v else None)"
proof (induction m)
  case (Cons kv m)
  obtain k' v' where kv: "kv = (k', v')" by (cases kv)
  with Cons.prems have "map_of m k' = None" and "wf_map m"
    by (auto simp: wf_map_Cons map_of_eq_None_iff)
  with Cons.IH kv show ?case by auto
qed simp

lemma map_of_in_set: "wf_map m \<Longrightarrow> map_of m k = Some v \<longleftrightarrow> (k, v) \<in> set m"
  by (simp add: wf_map_def map_of_eq_Some_iff)

lemma length_update:
  "length (AList.update k v m) = (if k \<in> fst ` set m then length m else Suc (length m))"
  by (induction m) auto

lemma length_update_le: "length (AList.update k v m) \<le> Suc (length m)"
  by (simp add: length_update)

lemma length_delete_less: "k \<in> fst ` set m \<Longrightarrow> length (AList.delete k m) < length m"
proof (induction m)
  case (Cons kv m)
  then show ?case
    using AList.length_delete_le [of k m] by (cases "fst kv = k") auto
qed simp

lemma set_delete_subset: "set (AList.delete k m) \<subseteq> set m"
  by (auto simp: AList.delete_eq)

lemma fst_set_delete [simp]: "fst ` set (AList.delete k m) = fst ` set m - {k}"
  by (force simp: AList.delete_eq)

lemma set_update_subset: "set (AList.update k v m) \<subseteq> insert (k, v) (set m)"
  by (induction m) auto

lemma fst_set_update [simp]: "fst ` set (AList.update k v m) = insert k (fst ` set m)"
  by (induction m) auto

section \<open>Lists\<close>

lemma find_SomeD: "find P xs = Some x \<Longrightarrow> x \<in> set xs \<and> P x"
  by (auto simp: find_Some_iff)

lemma find_None_conv: "find P xs = None \<longleftrightarrow> (\<forall>x \<in> set xs. \<not> P x)"
  by (auto simp: find_None_iff)

lemma takeWhile_append_sep: "sep \<notin> set a \<Longrightarrow> takeWhile (\<lambda>c. c \<noteq> sep) (a @ sep # b) = a"
  by (induction a) auto

text \<open>Fields without the separator determine a separated concatenation.\<close>

lemma append_sep_inject:
  assumes "a @ sep # b = a' @ sep # b'" and "sep \<notin> set a" and "sep \<notin> set a'"
  shows "a = a' \<and> b = b'"
proof -
  have "a = a'"
    using assms takeWhile_append_sep [of sep a b] takeWhile_append_sep [of sep a' b'] by simp
  with assms(1) show ?thesis by simp
qed

section \<open>Scans for a least element\<close>

text \<open>
  The eviction loops keep the first element of least key they have seen; \<open>None\<close> is the
  unset variable before the first round.
\<close>

definition scan_step :: "('e \<Rightarrow> int) \<Rightarrow> 'e \<Rightarrow> 'e option \<Rightarrow> 'e option" where
  "scan_step key e best = (case best of None \<Rightarrow> Some e | Some b \<Rightarrow> if key e < key b then Some e else best)"

definition scan_least :: "('e \<Rightarrow> int) \<Rightarrow> 'e list \<Rightarrow> 'e option" where
  "scan_least key es = fold (scan_step key) es None"

lemma fold_scan_step:
  obtains b' where "fold (scan_step key) es (Some b) = Some b'" "b' \<in> insert b (set es)"
    "\<forall>e \<in> insert b (set es). key b' \<le> key e"
proof (induction es arbitrary: b thesis)
  case (Cons e es)
  define c where "c = (if key e < key b then e else b)"
  have "scan_step key e (Some b) = Some c" by (simp add: scan_step_def c_def)
  moreover obtain b' where "fold (scan_step key) es (Some c) = Some b'" "b' \<in> insert c (set es)"
    "\<forall>e \<in> insert c (set es). key b' \<le> key e" by (rule Cons.IH)
  ultimately show ?case
    by (intro Cons.prems [of b']) (auto simp: c_def split: if_splits)
qed simp

lemma scan_least_None: "scan_least key es = None \<longleftrightarrow> es = []"
proof (cases es)
  case (Cons e es')
  then show ?thesis
    using fold_scan_step [of key es' e] by (auto simp: scan_least_def scan_step_def)
qed (simp add: scan_least_def)

lemma scan_least_Some:
  assumes "scan_least key es = Some b"
  shows "b \<in> set es" "e \<in> set es \<Longrightarrow> key b \<le> key e"
proof -
  from assms obtain x xs where es: "es = x # xs" by (cases es) (auto simp: scan_least_def)
  obtain b' where "fold (scan_step key) xs (Some x) = Some b'" "b' \<in> insert x (set xs)"
    "\<forall>e \<in> insert x (set xs). key b' \<le> key e" by (rule fold_scan_step)
  with assms es show "b \<in> set es" "e \<in> set es \<Longrightarrow> key b \<le> key e"
    by (auto simp: scan_least_def scan_step_def)
qed

text \<open>Removing the key of a scanned entry makes a table smaller.\<close>

lemma length_delete_scanned:
  assumes "scan_least key m = Some (k, v)"
  shows "length (AList.delete k m) < length m"
  using scan_least_Some(1) [OF assms] by (intro length_delete_less) force

end
