(* ===== verification/Policy.thy ===== *)
theory Policy
  imports Go_Strings "HOL-Library.Multiset"
begin

text \<open>
  The media policy engine (\<^verbatim>\<open>internal/policy/policy.go\<close>, \<^verbatim>\<open>load.go\<close>): policies merged field by
  field over four scope levels, hard eligibility with scoped rejections, and a
  deterministic ranking of the eligible variants. The lemmas relate the evaluation loop to
  a direct statement of what a policy permits, show that the selection is the least
  permitted variant of the ranking, and determine value and provenance of every merged
  field.
\<close>

section \<open>Policies\<close>

type_synonym tristate = string

abbreviation "Inherit \<equiv> ''inherit''"
abbreviation "Allow \<equiv> ''allow''"
abbreviation "Deny \<equiv> ''deny''"

definition Normalize :: "tristate \<Rightarrow> tristate" where
  "Normalize t =
    (let l = to_lower t in
     if l = Allow then Allow else if l = Deny then Deny else Inherit)"

record policy =
  MaxSourceWidth :: "int option"
  MaxSourceHeight :: "int option"
  MaxSourceBitrateKbps :: "int option"
  MaxStreamingBitrateKbps :: "int option"
  Allow4K :: tristate
  AllowHDR :: tristate
  AllowDolbyVision :: tristate
  AllowTranscode :: tristate
  PreferDirectPlay :: tristate
  MaxAudioChannels :: "int option"
  UnknownDRBehavior :: tristate
  RoutingMode :: string
  Provenance :: "string \<rightharpoonup> string"

definition zeroPolicy :: policy where
  "zeroPolicy = \<lparr>MaxSourceWidth = None, MaxSourceHeight = None, MaxSourceBitrateKbps = None,
     MaxStreamingBitrateKbps = None, Allow4K = [], AllowHDR = [], AllowDolbyVision = [],
     AllowTranscode = [], PreferDirectPlay = [], MaxAudioChannels = None,
     UnknownDRBehavior = [], RoutingMode = [], Provenance = Map.empty\<rparr>"

abbreviation "ProvDefault \<equiv> ''DEFAULT''"
abbreviation "ProvGlobal \<equiv> ''GLOBAL''"
abbreviation "ProvUser \<equiv> ''USER''"
abbreviation "ProvDevice \<equiv> ''DEVICE''"

definition provFields :: "string list" where
  "provFields = [''maxSourceWidth'', ''maxSourceHeight'', ''maxSourceBitrateKbps'',
     ''maxStreamingBitrateKbps'', ''allow4K'', ''allowHDR'', ''allowDolbyVision'',
     ''allowTranscode'', ''preferDirectPlay'', ''maxAudioChannels'',
     ''unknownDynamicRangeBehavior'', ''routingMode'']"

definition Defaults :: policy where
  "Defaults = zeroPolicy\<lparr>Allow4K := Allow, AllowHDR := Allow, AllowDolbyVision := Allow,
     AllowTranscode := Allow, PreferDirectPlay := Allow, UnknownDRBehavior := Allow,
     RoutingMode := ''automatic'',
     Provenance := (\<lambda>f. if f \<in> set provFields then Some ProvDefault else None)\<rparr>"

section \<open>Merging\<close>

text \<open>
  One guarded assignment of \<^verbatim>\<open>MergeAs\<close>: when the specific level configures the field, the
  value is replaced and, under a nonempty scope, the field is stamped with it.
\<close>

definition overlay :: "string \<Rightarrow> string \<Rightarrow> bool \<Rightarrow> (policy \<Rightarrow> policy) \<Rightarrow> policy \<Rightarrow> policy" where
  "overlay scope field configured upd out =
    (if configured then
       (let out = upd out in
        if scope \<noteq> [] then out\<lparr>Provenance := (Provenance out)(field \<mapsto> scope)\<rparr> else out)
     else out)"

definition configures :: "tristate \<Rightarrow> bool" where
  "configures t \<longleftrightarrow> Normalize t \<noteq> Inherit"

definition MergeAs :: "policy \<Rightarrow> policy \<Rightarrow> string \<Rightarrow> policy" where
  "MergeAs base specific scope = fold (\<lambda>(field, c, upd). overlay scope field c upd)
    [(''maxSourceWidth'', MaxSourceWidth specific \<noteq> None,
       MaxSourceWidth_update (\<lambda>_. MaxSourceWidth specific)),
     (''maxSourceHeight'', MaxSourceHeight specific \<noteq> None,
       MaxSourceHeight_update (\<lambda>_. MaxSourceHeight specific)),
     (''maxSourceBitrateKbps'', MaxSourceBitrateKbps specific \<noteq> None,
       MaxSourceBitrateKbps_update (\<lambda>_. MaxSourceBitrateKbps specific)),
     (''maxStreamingBitrateKbps'', MaxStreamingBitrateKbps specific \<noteq> None,
       MaxStreamingBitrateKbps_update (\<lambda>_. MaxStreamingBitrateKbps specific)),
     (''allow4K'', configures (Allow4K specific),
       Allow4K_update (\<lambda>_. Normalize (Allow4K specific))),
     (''allowHDR'', configures (AllowHDR specific),
       AllowHDR_update (\<lambda>_. Normalize (AllowHDR specific))),
     (''allowDolbyVision'', configures (AllowDolbyVision specific),
       AllowDolbyVision_update (\<lambda>_. Normalize (AllowDolbyVision specific))),
     (''allowTranscode'', configures (AllowTranscode specific),
       AllowTranscode_update (\<lambda>_. Normalize (AllowTranscode specific))),
     (''preferDirectPlay'', configures (PreferDirectPlay specific),
       PreferDirectPlay_update (\<lambda>_. Normalize (PreferDirectPlay specific))),
     (''maxAudioChannels'', MaxAudioChannels specific \<noteq> None,
       MaxAudioChannels_update (\<lambda>_. MaxAudioChannels specific)),
     (''unknownDynamicRangeBehavior'', configures (UnknownDRBehavior specific),
       UnknownDRBehavior_update (\<lambda>_. Normalize (UnknownDRBehavior specific))),
     (''routingMode'',
       RoutingMode specific \<noteq> [] \<and> \<not> equal_fold (RoutingMode specific) Inherit,
       RoutingMode_update (\<lambda>_. RoutingMode specific))]
    base"

definition Merge :: "policy \<Rightarrow> policy \<Rightarrow> policy" where
  "Merge base specific = MergeAs base specific []"

definition Effective :: "policy \<Rightarrow> policy \<Rightarrow> policy \<Rightarrow> policy" where
  "Effective global user device =
    MergeAs (MergeAs (MergeAs Defaults global ProvGlobal) user ProvUser) device ProvDevice"

section \<open>Variants, eligibility and ranking\<close>

datatype playability = DirectPlay | DirectStream | UnknownPlayability | Transcode

record variant =
  MediaIndex :: int
  Width :: "int option"
  Height :: "int option"
  BitrateKbps :: "int option"
  DynamicRange :: string
  VideoCodec :: string
  AudioChannels :: "int option"
  Playability :: playability
  PartAvailable :: bool

record rejection =
  RejIndex :: int
  RejScope :: string
  RejReason :: string

record decision =
  Selected :: "variant option"
  SelectedIndex :: int
  OutputBitrateKbps :: "int option"
  Rejected :: "rejection list"

record policy_error =
  Code :: string
  ErrRejected :: "rejection list"

abbreviation "NoAllowedVariant \<equiv> ''NO_ALLOWED_MEDIA_VARIANT''"
abbreviation "TranscodeForbidden \<equiv> ''POLICY_TRANSCODE_FORBIDDEN''"
abbreviation "OriginMismatch \<equiv> ''POLICY_ORIGIN_MISMATCH''"
abbreviation "RMaxSourceResolution \<equiv> ''MAX_SOURCE_RESOLUTION''"
abbreviation "RSource4KDenied \<equiv> ''SOURCE_4K_DENIED''"
abbreviation "RHDRDenied \<equiv> ''HDR_DENIED''"
abbreviation "RDolbyVisionDenied \<equiv> ''DOLBY_VISION_DENIED''"
abbreviation "RSourceBitrateCeil \<equiv> ''SOURCE_BITRATE_CEILING''"
abbreviation "RPartUnavailable \<equiv> ''PART_UNAVAILABLE''"
abbreviation "RUnknownDRDenied \<equiv> ''UNKNOWN_DYNAMIC_RANGE_DENIED''"

definition resolutionField :: "variant \<Rightarrow> policy \<Rightarrow> string" where
  "resolutionField v p =
    (if exceeds (Height v) (MaxSourceHeight p) then ''maxSourceHeight'' else ''maxSourceWidth'')"

definition is4K :: "variant \<Rightarrow> bool" where
  "is4K v \<longleftrightarrow> exceeds (Width v) (Some 1920) \<or> exceeds (Height v) (Some 1080)"

definition pixels :: "variant \<Rightarrow> int" where
  "pixels v =
    (let w = (case Width v of Some x \<Rightarrow> x | None \<Rightarrow> 0);
         h = (case Height v of Some x \<Rightarrow> x | None \<Rightarrow> 0)
     in wrap64 (w * h))"

definition overResolution :: "variant \<Rightarrow> policy \<Rightarrow> bool" where
  "overResolution v p \<longleftrightarrow>
     exceeds (Width v) (MaxSourceWidth p) \<or> exceeds (Height v) (MaxSourceHeight p)"

definition deniesDR :: "policy \<Rightarrow> variant \<Rightarrow> bool" where
  "deniesDR p v =
    (let dr = DynamicRange v in
     if dr = ''DOLBY_VISION'' then Normalize (AllowDolbyVision p) = Deny
     else if dr \<in> {''HDR10'', ''HDR10_PLUS'', ''HLG'', ''HDR_OTHER''} then Normalize (AllowHDR p) = Deny
     else if dr = ''UNKNOWN'' then Normalize (UnknownDRBehavior p) = Deny
     else False)"

definition maxPixels :: "policy \<Rightarrow> int" where
  "maxPixels p =
    (let w = (case MaxSourceWidth p of Some x \<Rightarrow> x | None \<Rightarrow> 0);
         h = (case MaxSourceHeight p of Some x \<Rightarrow> x | None \<Rightarrow> 0)
     in if w > 0 \<and> h > 0 then wrap64 (w * h) else 0)"

definition codecPenalty :: "variant \<Rightarrow> int" where
  "codecPenalty v =
    (let c = to_lower (trim_space (VideoCodec v)) in
     if c \<in> {''h264'', ''avc'', ''mpeg4''} then 0
     else if c \<in> {''hevc'', ''h265''} then 1
     else if c \<in> {''vp9'', ''av1''} then 2
     else 3)"

definition playCost :: "variant \<Rightarrow> int" where
  "playCost v = (case Playability v of DirectPlay \<Rightarrow> 0 | DirectStream \<Rightarrow> 1
     | UnknownPlayability \<Rightarrow> 1 | Transcode \<Rightarrow> 2)"

definition hdrRank :: "variant \<Rightarrow> int" where
  "hdrRank v =
    (let dr = DynamicRange v in
     if dr = ''DOLBY_VISION'' then - 4
     else if dr = ''HDR10_PLUS'' then - 3
     else if dr \<in> {''HDR10'', ''HLG''} then - 2
     else if dr \<in> {''HDR_OTHER'', ''UNKNOWN''} then - 1
     else 0)"

definition audioExcess :: "policy \<Rightarrow> variant \<Rightarrow> int" where
  "audioExcess p v = (case (MaxAudioChannels p, AudioChannels v) of
     (Some m, Some c) \<Rightarrow> if c > m then wrap64 (c - m) else 0 | _ \<Rightarrow> 0)"

definition rankKey :: "policy \<Rightarrow> variant \<Rightarrow> int list" where
  "rankKey p v =
    [playCost v,
     (if maxPixels p > 0 then wrap64 (maxPixels p - pixels v) else wrap64 (- pixels v)),
     hdrRank v,
     codecPenalty v,
     audioExcess p v,
     (case BitrateKbps v of Some b \<Rightarrow> go_div b 1000 | None \<Rightarrow> 0),
     MediaIndex v]"

fun lessKey :: "int list \<Rightarrow> int list \<Rightarrow> bool" where
  "lessKey (a # as) (b # bs) = (if a \<noteq> b then a < b else lessKey as bs)"
| "lessKey _ _ = False"

section \<open>Evaluation\<close>

definition provOf :: "policy \<Rightarrow> string \<Rightarrow> string \<Rightarrow> string" where
  "provOf p scope field =
    (case Provenance p field of Some s \<Rightarrow> if s \<noteq> [] then s else scope | None \<Rightarrow> scope)"

definition rejectWith :: "policy \<Rightarrow> string \<Rightarrow> variant \<Rightarrow> string \<Rightarrow> string \<Rightarrow> rejection" where
  "rejectWith p scope v reason field =
    \<lparr>RejIndex = MediaIndex v, RejScope = (if field \<noteq> [] then provOf p scope field else scope),
     RejReason = reason\<rparr>"

text \<open>The guards of the loop body, in order: \<open>Some\<close> is the rejection, \<open>None\<close> falls through.\<close>

definition screenVariant :: "policy \<Rightarrow> string \<Rightarrow> variant \<Rightarrow> rejection option" where
  "screenVariant p scope v =
    (if \<not> PartAvailable v then Some (rejectWith p scope v RPartUnavailable [])
     else if is4K v \<and> Normalize (Allow4K p) = Deny then
       Some (rejectWith p scope v RSource4KDenied ''allow4K'')
     else if overResolution v p then
       Some (rejectWith p scope v RMaxSourceResolution (resolutionField v p))
     else if deniesDR p v then
       (if DynamicRange v = ''UNKNOWN'' then
          Some (rejectWith p scope v RUnknownDRDenied ''unknownDynamicRangeBehavior'')
        else if DynamicRange v = ''DOLBY_VISION'' \<and> Normalize (AllowDolbyVision p) = Deny then
          Some (rejectWith p scope v RDolbyVisionDenied ''allowDolbyVision'')
        else Some (rejectWith p scope v RHDRDenied ''allowHDR''))
     else if exceeds (BitrateKbps v) (MaxSourceBitrateKbps p) then
       Some (rejectWith p scope v RSourceBitrateCeil ''maxSourceBitrateKbps'')
     else None)"

fun screenAll ::
  "policy \<Rightarrow> string \<Rightarrow> variant list \<Rightarrow> variant list \<Rightarrow> rejection list \<Rightarrow> variant list \<times> rejection list" where
  "screenAll p scope [] eligible rejected = (eligible, rejected)"
| "screenAll p scope (v # vs) eligible rejected =
    (case screenVariant p scope v of
       Some r \<Rightarrow> screenAll p scope vs eligible (rejected @ [r])
     | None \<Rightarrow> screenAll p scope vs (eligible @ [v]) rejected)"

fun selectBest :: "policy \<Rightarrow> variant \<Rightarrow> int list \<Rightarrow> variant list \<Rightarrow> variant" where
  "selectBest p best bestKey [] = best"
| "selectBest p best bestKey (v # vs) =
    (let k = rankKey p v in
     if lessKey k bestKey then selectBest p v k vs else selectBest p best bestKey vs)"

definition Evaluate :: "policy \<Rightarrow> string \<Rightarrow> variant list \<Rightarrow> decision \<times> policy_error option" where
  "Evaluate p scope0 variants =
    (let scope = (if scope0 = [] then ''GLOBAL'' else scope0);
         (eligible, rejected) = screenAll p scope variants [] []
     in case eligible of
          [] \<Rightarrow> (\<lparr>Selected = None, SelectedIndex = 0, OutputBitrateKbps = None, Rejected = rejected\<rparr>,
                 Some \<lparr>Code = NoAllowedVariant, ErrRejected = rejected\<rparr>)
        | e # es \<Rightarrow>
            (let best = selectBest p e (rankKey p e) es in
             if Playability best = Transcode \<and> Normalize (AllowTranscode p) = Deny then
               (\<lparr>Selected = None, SelectedIndex = MediaIndex best, OutputBitrateKbps = None,
                  Rejected = rejected\<rparr>,
                Some \<lparr>Code = TranscodeForbidden, ErrRejected = rejected\<rparr>)
             else
               (\<lparr>Selected = Some best, SelectedIndex = MediaIndex best,
                  OutputBitrateKbps =
                    (if exceeds (BitrateKbps best) (MaxStreamingBitrateKbps p)
                     then MaxStreamingBitrateKbps p else None),
                  Rejected = rejected\<rparr>, None)))"

definition RenderReason :: "rejection \<Rightarrow> string" where
  "RenderReason r = RejScope r @ ''_'' @ RejReason r"

section \<open>Loading\<close>

text \<open>
  \<^verbatim>\<open>loadLevel\<close> reads one scope level. \<open>rows\<close> is what the database answers for a server, a
  scope type and a scope id (a query error, no row, or the stored configuration) and \<open>decode\<close> stands for
  \<^verbatim>\<open>json.Unmarshal\<close> into a policy. A missing database is a clean miss.
\<close>

datatype query_result = QueryError | NoRows | Row string

datatype load_error = LevelUnavailable string

definition loadLevel ::
  "(string \<Rightarrow> string \<Rightarrow> string option \<Rightarrow> query_result) option \<Rightarrow> (string \<Rightarrow> policy option) \<Rightarrow> string \<Rightarrow>
    string \<Rightarrow> string option \<Rightarrow> (policy option) option" where
  "loadLevel db decode serverID scopeType scopeID =
    (case db of None \<Rightarrow> Some None
     | Some rows \<Rightarrow>
         (case rows serverID scopeType scopeID of
            NoRows \<Rightarrow> Some None
          | QueryError \<Rightarrow> None
          | Row raw \<Rightarrow> (case decode raw of None \<Rightarrow> None | Some p \<Rightarrow> Some (Some p))))"

fun loadLevels ::
  "(string \<Rightarrow> string \<Rightarrow> string option \<Rightarrow> query_result) option \<Rightarrow> (string \<Rightarrow> policy option) \<Rightarrow> string \<Rightarrow>
    (string \<times> string option \<times> string) list \<Rightarrow> policy \<Rightarrow> string \<Rightarrow> load_error + (policy \<times> string)" where
  "loadLevels db decode serverID [] eff scope = Inr (eff, scope)"
| "loadLevels db decode serverID ((scopeType, scopeID, name) # ls) eff scope =
    (if scopeID = None \<and> scopeType \<noteq> ''global'' then loadLevels db decode serverID ls eff scope
     else (case loadLevel db decode serverID scopeType scopeID of
             None \<Rightarrow> Inl (LevelUnavailable name)
           | Some None \<Rightarrow> loadLevels db decode serverID ls eff scope
           | Some (Some p) \<Rightarrow> loadLevels db decode serverID ls (MergeAs eff p name) name))"

definition LoadEffective ::
  "(string \<Rightarrow> string \<Rightarrow> string option \<Rightarrow> query_result) option \<Rightarrow> (string \<Rightarrow> policy option) \<Rightarrow> string \<Rightarrow>
    string option \<Rightarrow> string option \<Rightarrow> load_error + (policy \<times> string)" where
  "LoadEffective db decode serverID identityID clientID =
    loadLevels db decode serverID
      [(''global'', None, ProvGlobal), (''user'', identityID, ProvUser),
       (''device'', clientID, ProvDevice)]
      Defaults ''GLOBAL''"

section \<open>The rank order\<close>

lemma lessKey_irrefl [simp]: "\<not> lessKey k k"
  by (induction k) auto

lemma lessKey_trans: "lessKey a b \<Longrightarrow> lessKey b c \<Longrightarrow> lessKey a c"
proof (induction a b arbitrary: c rule: lessKey.induct)
  case (1 a as b bs)
  then show ?case by (cases c) (auto split: if_splits)
qed auto

lemma lessKey_asym: "lessKey a b \<Longrightarrow> \<not> lessKey b a"
  using lessKey_trans lessKey_irrefl by blast

lemma lessKey_total: "length a = length b \<Longrightarrow> a \<noteq> b \<Longrightarrow> lessKey a b \<or> lessKey b a"
  by (induction a b rule: lessKey.induct) (auto simp: length_Suc_conv)

lemma length_rankKey [simp]: "length (rankKey p v) = 7"
  by (simp add: rankKey_def)

lemma not_lessKey_trans:
  assumes "\<not> lessKey b a" and "\<not> lessKey c b"
    and "length a = length b" and "length b = length c"
  shows "\<not> lessKey c a"
  using assms lessKey_total [of a b] lessKey_total [of b c] lessKey_trans by metis

lemma rankKey_eq_index: "rankKey p u = rankKey p v \<Longrightarrow> MediaIndex u = MediaIndex v"
  by (simp add: rankKey_def)

lemma selectBest_mem: "selectBest p b k vs \<in> insert b (set vs)"
  by (induction p b k vs rule: selectBest.induct) (auto simp: Let_def)

text \<open>The loop keeps the first of the least keys it has seen.\<close>

lemma selectBest_least:
  "u \<in> insert b (set vs) \<Longrightarrow> \<not> lessKey (rankKey p u) (rankKey p (selectBest p b (rankKey p b) vs))"
proof (induction vs arbitrary: b u)
  case (Cons v vs)
  define b' where "b' = (if lessKey (rankKey p v) (rankKey p b) then v else b)"
  have sel: "selectBest p b (rankKey p b) (v # vs) = selectBest p b' (rankKey p b') vs"
    by (simp add: b'_def Let_def)
  show ?case
  proof (cases "u \<in> insert b' (set vs)")
    case True
    then show ?thesis using Cons.IH sel by simp
  next
    case False
    have "\<not> lessKey (rankKey p b') (rankKey p (selectBest p b' (rankKey p b') vs))"
      by (rule Cons.IH) simp
    moreover have "\<not> lessKey (rankKey p u) (rankKey p b')"
      using False Cons.prems by (auto simp: b'_def dest: lessKey_asym)
    ultimately show ?thesis
      using sel not_lessKey_trans [of "rankKey p b'" _ "rankKey p u"] by simp
  qed
qed simp

section \<open>What a policy permits\<close>

text \<open>
  The hard rules of a policy stated one by one, independently of the order and the early
  exits of the evaluation loop.
\<close>

definition denied :: "tristate \<Rightarrow> bool" where
  "denied t \<longleftrightarrow> Normalize t = Deny"

definition permitted :: "policy \<Rightarrow> variant \<Rightarrow> bool" where
  "permitted p v \<longleftrightarrow>
     PartAvailable v \<and>
     (denied (Allow4K p) \<longrightarrow> \<not> is4K v) \<and>
     (\<forall>w m. Width v = Some w \<longrightarrow> MaxSourceWidth p = Some m \<longrightarrow> w \<le> m) \<and>
     (\<forall>h m. Height v = Some h \<longrightarrow> MaxSourceHeight p = Some m \<longrightarrow> h \<le> m) \<and>
     (\<forall>b m. BitrateKbps v = Some b \<longrightarrow> MaxSourceBitrateKbps p = Some m \<longrightarrow> b \<le> m) \<and>
     (denied (AllowDolbyVision p) \<longrightarrow> DynamicRange v \<noteq> ''DOLBY_VISION'') \<and>
     (denied (AllowHDR p) \<longrightarrow>
        DynamicRange v \<notin> {''HDR10'', ''HDR10_PLUS'', ''HLG'', ''HDR_OTHER''}) \<and>
     (denied (UnknownDRBehavior p) \<longrightarrow> DynamicRange v \<noteq> ''UNKNOWN'')"

lemma deniesDR_iff:
  "deniesDR p v \<longleftrightarrow>
     denied (AllowDolbyVision p) \<and> DynamicRange v = ''DOLBY_VISION'' \<or>
     denied (AllowHDR p) \<and> DynamicRange v \<in> {''HDR10'', ''HDR10_PLUS'', ''HLG'', ''HDR_OTHER''} \<or>
     denied (UnknownDRBehavior p) \<and> DynamicRange v = ''UNKNOWN''"
  by (auto simp: deniesDR_def denied_def Let_def)

lemma not_exceeds_iff:
  "\<not> exceeds v b \<longleftrightarrow> (\<forall>x m. v = Some x \<longrightarrow> b = Some m \<longrightarrow> x \<le> m)"
  by (auto simp: exceeds_iff not_less)

lemma permitted_unfold [code]:
  "permitted p v \<longleftrightarrow> PartAvailable v \<and> \<not> (is4K v \<and> Normalize (Allow4K p) = Deny) \<and>
     \<not> overResolution v p \<and> \<not> deniesDR p v \<and> \<not> exceeds (BitrateKbps v) (MaxSourceBitrateKbps p)"
  unfolding permitted_def overResolution_def deniesDR_iff denied_def de_Morgan_disj not_exceeds_iff
  by blast

lemma screenVariant_None: "screenVariant p scope v = None \<longleftrightarrow> permitted p v"
  unfolding permitted_unfold screenVariant_def by simp

lemma screenVariant_index: "screenVariant p scope v = Some r \<Longrightarrow> RejIndex r = MediaIndex v"
  by (auto simp: screenVariant_def rejectWith_def split: if_splits)

lemma screenAll_eq:
  "screenAll p scope vs el rj =
     (el @ filter (permitted p) vs, rj @ List.map_filter (screenVariant p scope) vs)"
proof (induction vs arbitrary: el rj)
  case (Cons v vs)
  then show ?case
    using screenVariant_None [of p scope v]
    by (cases "screenVariant p scope v") (auto simp: map_filter_simps)
qed (simp add: map_filter_simps)

definition eval_scope :: "string \<Rightarrow> string" where
  "eval_scope scope = (if scope = [] then ''GLOBAL'' else scope)"

definition rejections :: "policy \<Rightarrow> string \<Rightarrow> variant list \<Rightarrow> rejection list" where
  "rejections p scope vs = List.map_filter (screenVariant p (eval_scope scope)) vs"

text \<open>Evaluation without its loops: the reference form the other proofs use.\<close>

lemma Evaluate_unfold:
  "Evaluate p scope vs =
    (case filter (permitted p) vs of
       [] \<Rightarrow> (\<lparr>Selected = None, SelectedIndex = 0, OutputBitrateKbps = None,
                Rejected = rejections p scope vs\<rparr>,
              Some \<lparr>Code = NoAllowedVariant, ErrRejected = rejections p scope vs\<rparr>)
     | e # es \<Rightarrow>
         (let b = selectBest p e (rankKey p e) es in
          if Playability b = Transcode \<and> denied (AllowTranscode p) then
            (\<lparr>Selected = None, SelectedIndex = MediaIndex b, OutputBitrateKbps = None,
               Rejected = rejections p scope vs\<rparr>,
             Some \<lparr>Code = TranscodeForbidden, ErrRejected = rejections p scope vs\<rparr>)
          else (\<lparr>Selected = Some b, SelectedIndex = MediaIndex b,
                  OutputBitrateKbps = (if exceeds (BitrateKbps b) (MaxStreamingBitrateKbps p)
                    then MaxStreamingBitrateKbps p else None),
                  Rejected = rejections p scope vs\<rparr>, None)))"
  unfolding Evaluate_def screenAll_eq rejections_def eval_scope_def denied_def Let_def
  by (simp only: prod.case append_Nil)

lemma Evaluate_cases:
  obtains (none) "filter (permitted p) vs = []"
      "Evaluate p scope vs =
        (\<lparr>Selected = None, SelectedIndex = 0, OutputBitrateKbps = None,
           Rejected = rejections p scope vs\<rparr>,
         Some \<lparr>Code = NoAllowedVariant, ErrRejected = rejections p scope vs\<rparr>)"
  | (forbidden) b where "b \<in> set vs" "permitted p b"
      "\<And>u. u \<in> set vs \<Longrightarrow> permitted p u \<Longrightarrow> \<not> lessKey (rankKey p u) (rankKey p b)"
      "Playability b = Transcode" "denied (AllowTranscode p)"
      "Evaluate p scope vs =
        (\<lparr>Selected = None, SelectedIndex = MediaIndex b, OutputBitrateKbps = None,
           Rejected = rejections p scope vs\<rparr>,
         Some \<lparr>Code = TranscodeForbidden, ErrRejected = rejections p scope vs\<rparr>)"
  | (selected) b where "b \<in> set vs" "permitted p b"
      "\<And>u. u \<in> set vs \<Longrightarrow> permitted p u \<Longrightarrow> \<not> lessKey (rankKey p u) (rankKey p b)"
      "\<not> (Playability b = Transcode \<and> denied (AllowTranscode p))"
      "Evaluate p scope vs =
        (\<lparr>Selected = Some b, SelectedIndex = MediaIndex b,
           OutputBitrateKbps = (if exceeds (BitrateKbps b) (MaxStreamingBitrateKbps p)
             then MaxStreamingBitrateKbps p else None),
           Rejected = rejections p scope vs\<rparr>, None)"
proof (cases "filter (permitted p) vs")
  case Nil
  then show ?thesis
    by (intro none) (simp_all only: Evaluate_unfold list.case)
next
  case (Cons e es)
  define b where "b = selectBest p e (rankKey p e) es"
  have elig: "u \<in> set vs \<and> permitted p u \<longleftrightarrow> u \<in> insert e (set es)" for u
    using arg_cong [OF Cons, of set] by auto
  have mem: "b \<in> insert e (set es)"
    unfolding b_def by (rule selectBest_mem)
  have least: "\<not> lessKey (rankKey p u) (rankKey p b)" if "u \<in> set vs" "permitted p u" for u
    unfolding b_def using that elig by (intro selectBest_least) blast
  note ev = Evaluate_unfold [of p scope vs, unfolded Cons list.case b_def [symmetric] Let_def]
  from mem elig have in_vs: "b \<in> set vs" and perm: "permitted p b" by blast+
  show ?thesis
  proof (cases "Playability b = Transcode \<and> denied (AllowTranscode p)")
    case True
    show ?thesis
      by (rule forbidden [OF in_vs perm least]) (use True ev in \<open>simp_all only: if_True simp_thms\<close>)
  next
    case False
    show ?thesis
      by (rule selected [OF in_vs perm least False]) (use False ev in \<open>simp_all only: if_False\<close>)
  qed
qed

section \<open>Merging, field by field\<close>

named_theorems overlay_simps \<open>fields of a policy after one guarded assignment\<close>

lemma overlay_MaxSourceWidth [overlay_simps]:
  "MaxSourceWidth (overlay sc fld c (MaxSourceWidth_update (\<lambda>_. x)) out) = (if c then x else MaxSourceWidth out)"
  "(\<And>q. MaxSourceWidth (upd q) = MaxSourceWidth q) \<Longrightarrow> MaxSourceWidth (overlay sc fld c upd out) = MaxSourceWidth out"
  by (simp_all add: overlay_def Let_def)

lemma overlay_MaxSourceHeight [overlay_simps]:
  "MaxSourceHeight (overlay sc fld c (MaxSourceHeight_update (\<lambda>_. x)) out) = (if c then x else MaxSourceHeight out)"
  "(\<And>q. MaxSourceHeight (upd q) = MaxSourceHeight q) \<Longrightarrow> MaxSourceHeight (overlay sc fld c upd out) = MaxSourceHeight out"
  by (simp_all add: overlay_def Let_def)

lemma overlay_MaxSourceBitrateKbps [overlay_simps]:
  "MaxSourceBitrateKbps (overlay sc fld c (MaxSourceBitrateKbps_update (\<lambda>_. x)) out) = (if c then x else MaxSourceBitrateKbps out)"
  "(\<And>q. MaxSourceBitrateKbps (upd q) = MaxSourceBitrateKbps q) \<Longrightarrow> MaxSourceBitrateKbps (overlay sc fld c upd out) = MaxSourceBitrateKbps out"
  by (simp_all add: overlay_def Let_def)

lemma overlay_MaxStreamingBitrateKbps [overlay_simps]:
  "MaxStreamingBitrateKbps (overlay sc fld c (MaxStreamingBitrateKbps_update (\<lambda>_. x)) out) = (if c then x else MaxStreamingBitrateKbps out)"
  "(\<And>q. MaxStreamingBitrateKbps (upd q) = MaxStreamingBitrateKbps q) \<Longrightarrow> MaxStreamingBitrateKbps (overlay sc fld c upd out) = MaxStreamingBitrateKbps out"
  by (simp_all add: overlay_def Let_def)

lemma overlay_Allow4K [overlay_simps]:
  "Allow4K (overlay sc fld c (Allow4K_update (\<lambda>_. x)) out) = (if c then x else Allow4K out)"
  "(\<And>q. Allow4K (upd q) = Allow4K q) \<Longrightarrow> Allow4K (overlay sc fld c upd out) = Allow4K out"
  by (simp_all add: overlay_def Let_def)

lemma overlay_AllowHDR [overlay_simps]:
  "AllowHDR (overlay sc fld c (AllowHDR_update (\<lambda>_. x)) out) = (if c then x else AllowHDR out)"
  "(\<And>q. AllowHDR (upd q) = AllowHDR q) \<Longrightarrow> AllowHDR (overlay sc fld c upd out) = AllowHDR out"
  by (simp_all add: overlay_def Let_def)

lemma overlay_AllowDolbyVision [overlay_simps]:
  "AllowDolbyVision (overlay sc fld c (AllowDolbyVision_update (\<lambda>_. x)) out) = (if c then x else AllowDolbyVision out)"
  "(\<And>q. AllowDolbyVision (upd q) = AllowDolbyVision q) \<Longrightarrow> AllowDolbyVision (overlay sc fld c upd out) = AllowDolbyVision out"
  by (simp_all add: overlay_def Let_def)

lemma overlay_AllowTranscode [overlay_simps]:
  "AllowTranscode (overlay sc fld c (AllowTranscode_update (\<lambda>_. x)) out) = (if c then x else AllowTranscode out)"
  "(\<And>q. AllowTranscode (upd q) = AllowTranscode q) \<Longrightarrow> AllowTranscode (overlay sc fld c upd out) = AllowTranscode out"
  by (simp_all add: overlay_def Let_def)

lemma overlay_PreferDirectPlay [overlay_simps]:
  "PreferDirectPlay (overlay sc fld c (PreferDirectPlay_update (\<lambda>_. x)) out) = (if c then x else PreferDirectPlay out)"
  "(\<And>q. PreferDirectPlay (upd q) = PreferDirectPlay q) \<Longrightarrow> PreferDirectPlay (overlay sc fld c upd out) = PreferDirectPlay out"
  by (simp_all add: overlay_def Let_def)

lemma overlay_MaxAudioChannels [overlay_simps]:
  "MaxAudioChannels (overlay sc fld c (MaxAudioChannels_update (\<lambda>_. x)) out) = (if c then x else MaxAudioChannels out)"
  "(\<And>q. MaxAudioChannels (upd q) = MaxAudioChannels q) \<Longrightarrow> MaxAudioChannels (overlay sc fld c upd out) = MaxAudioChannels out"
  by (simp_all add: overlay_def Let_def)

lemma overlay_UnknownDRBehavior [overlay_simps]:
  "UnknownDRBehavior (overlay sc fld c (UnknownDRBehavior_update (\<lambda>_. x)) out) = (if c then x else UnknownDRBehavior out)"
  "(\<And>q. UnknownDRBehavior (upd q) = UnknownDRBehavior q) \<Longrightarrow> UnknownDRBehavior (overlay sc fld c upd out) = UnknownDRBehavior out"
  by (simp_all add: overlay_def Let_def)

lemma overlay_RoutingMode [overlay_simps]:
  "RoutingMode (overlay sc fld c (RoutingMode_update (\<lambda>_. x)) out) = (if c then x else RoutingMode out)"
  "(\<And>q. RoutingMode (upd q) = RoutingMode q) \<Longrightarrow> RoutingMode (overlay sc fld c upd out) = RoutingMode out"
  by (simp_all add: overlay_def Let_def)

lemma overlay_Provenance:
  "(\<And>q. Provenance (upd q) = Provenance q) \<Longrightarrow>
    Provenance (overlay sc fld c upd out) f =
      (if f = fld \<and> c \<and> sc \<noteq> [] then Some sc else Provenance out f)"
  by (simp add: overlay_def Let_def)

lemma fold_overlay_Provenance:
  "list_all (\<lambda>(_, _, upd). \<forall>q. Provenance (upd q) = Provenance q) us \<Longrightarrow>
    Provenance (fold (\<lambda>(fld, c, upd). overlay sc fld c upd) us out) f =
      (if sc \<noteq> [] \<and> list_ex (\<lambda>(fld, c, _). f = fld \<and> c) us then Some sc else Provenance out f)"
  by (induction us arbitrary: out) (auto simp: overlay_Provenance split: if_splits)

text \<open>Which fields a level configures, by the name the provenance map uses.\<close>

definition configured :: "policy \<Rightarrow> string \<Rightarrow> bool" where
  "configured p f \<longleftrightarrow>
     f = ''maxSourceWidth'' \<and> MaxSourceWidth p \<noteq> None \<or>
     f = ''maxSourceHeight'' \<and> MaxSourceHeight p \<noteq> None \<or>
     f = ''maxSourceBitrateKbps'' \<and> MaxSourceBitrateKbps p \<noteq> None \<or>
     f = ''maxStreamingBitrateKbps'' \<and> MaxStreamingBitrateKbps p \<noteq> None \<or>
     f = ''allow4K'' \<and> configures (Allow4K p) \<or>
     f = ''allowHDR'' \<and> configures (AllowHDR p) \<or>
     f = ''allowDolbyVision'' \<and> configures (AllowDolbyVision p) \<or>
     f = ''allowTranscode'' \<and> configures (AllowTranscode p) \<or>
     f = ''preferDirectPlay'' \<and> configures (PreferDirectPlay p) \<or>
     f = ''maxAudioChannels'' \<and> MaxAudioChannels p \<noteq> None \<or>
     f = ''unknownDynamicRangeBehavior'' \<and> configures (UnknownDRBehavior p) \<or>
     f = ''routingMode'' \<and> RoutingMode p \<noteq> [] \<and> \<not> equal_fold (RoutingMode p) Inherit"

lemma MergeAs_numeric:
  "MaxSourceWidth (MergeAs b s sc) = (if MaxSourceWidth s \<noteq> None then MaxSourceWidth s else MaxSourceWidth b)"
  "MaxSourceHeight (MergeAs b s sc) = (if MaxSourceHeight s \<noteq> None then MaxSourceHeight s else MaxSourceHeight b)"
  "MaxSourceBitrateKbps (MergeAs b s sc) = (if MaxSourceBitrateKbps s \<noteq> None then MaxSourceBitrateKbps s else MaxSourceBitrateKbps b)"
  "MaxStreamingBitrateKbps (MergeAs b s sc) = (if MaxStreamingBitrateKbps s \<noteq> None then MaxStreamingBitrateKbps s else MaxStreamingBitrateKbps b)"
  "MaxAudioChannels (MergeAs b s sc) = (if MaxAudioChannels s \<noteq> None then MaxAudioChannels s else MaxAudioChannels b)"
  by (simp_all add: MergeAs_def overlay_simps)

lemma MergeAs_tristate:
  "Allow4K (MergeAs b s sc) = (if configures (Allow4K s) then Normalize (Allow4K s) else Allow4K b)"
  "AllowHDR (MergeAs b s sc) = (if configures (AllowHDR s) then Normalize (AllowHDR s) else AllowHDR b)"
  "AllowDolbyVision (MergeAs b s sc) = (if configures (AllowDolbyVision s) then Normalize (AllowDolbyVision s) else AllowDolbyVision b)"
  "AllowTranscode (MergeAs b s sc) = (if configures (AllowTranscode s) then Normalize (AllowTranscode s) else AllowTranscode b)"
  "PreferDirectPlay (MergeAs b s sc) = (if configures (PreferDirectPlay s) then Normalize (PreferDirectPlay s) else PreferDirectPlay b)"
  "UnknownDRBehavior (MergeAs b s sc) = (if configures (UnknownDRBehavior s) then Normalize (UnknownDRBehavior s) else UnknownDRBehavior b)"
  by (simp_all add: MergeAs_def overlay_simps)

lemma MergeAs_RoutingMode:
  "RoutingMode (MergeAs b s sc) =
    (if RoutingMode s \<noteq> [] \<and> \<not> equal_fold (RoutingMode s) Inherit then RoutingMode s else RoutingMode b)"
  by (simp add: MergeAs_def overlay_simps)

lemma MergeAs_Provenance:
  "Provenance (MergeAs b s sc) f =
    (if sc \<noteq> [] \<and> configured s f then Some sc else Provenance b f)"
  unfolding MergeAs_def
  by (subst fold_overlay_Provenance)
     (simp, simp only: configured_def list_ex_Nil_iff list_ex_Cons_iff prod.case simp_thms)

lemmas MergeAs_fields = MergeAs_numeric MergeAs_tristate MergeAs_RoutingMode MergeAs_Provenance

lemma Normalize_idem [simp]: "Normalize (Normalize t) = Normalize t"
proof -
  have "to_lower Allow = Allow" "to_lower Deny = Deny" "to_lower Inherit = Inherit"
    by code_simp+
  then show ?thesis by (simp add: Normalize_def Let_def)
qed

text \<open>A level that configures nothing changes nothing.\<close>

lemma Normalize_consts [simp]:
  "Normalize [] = Inherit" "Normalize Allow = Allow" "Normalize Deny = Deny" "Normalize Inherit = Inherit"
  by code_simp+

lemma MergeAs_zero [simp]: "MergeAs b zeroPolicy sc = b"
  by (simp add: MergeAs_def overlay_def zeroPolicy_def configures_def)

text \<open>The level whose value a field takes, and the name of that level.\<close>

definition winner :: "policy \<Rightarrow> policy \<Rightarrow> policy \<Rightarrow> string \<Rightarrow> policy" where
  "winner g u d f =
    (if configured d f then d else if configured u f then u else if configured g f then g else Defaults)"

definition winner_name :: "policy \<Rightarrow> policy \<Rightarrow> policy \<Rightarrow> string \<Rightarrow> string" where
  "winner_name g u d f =
    (if configured d f then ProvDevice else if configured u f then ProvUser
     else if configured g f then ProvGlobal else ProvDefault)"

lemma configured_field:
  "configured p ''maxSourceWidth'' \<longleftrightarrow> MaxSourceWidth p \<noteq> None"
  "configured p ''maxSourceHeight'' \<longleftrightarrow> MaxSourceHeight p \<noteq> None"
  "configured p ''maxSourceBitrateKbps'' \<longleftrightarrow> MaxSourceBitrateKbps p \<noteq> None"
  "configured p ''maxStreamingBitrateKbps'' \<longleftrightarrow> MaxStreamingBitrateKbps p \<noteq> None"
  "configured p ''allow4K'' \<longleftrightarrow> configures (Allow4K p)"
  "configured p ''allowHDR'' \<longleftrightarrow> configures (AllowHDR p)"
  "configured p ''allowDolbyVision'' \<longleftrightarrow> configures (AllowDolbyVision p)"
  "configured p ''allowTranscode'' \<longleftrightarrow> configures (AllowTranscode p)"
  "configured p ''preferDirectPlay'' \<longleftrightarrow> configures (PreferDirectPlay p)"
  "configured p ''maxAudioChannels'' \<longleftrightarrow> MaxAudioChannels p \<noteq> None"
  "configured p ''unknownDynamicRangeBehavior'' \<longleftrightarrow> configures (UnknownDRBehavior p)"
  "configured p ''routingMode'' \<longleftrightarrow> RoutingMode p \<noteq> [] \<and> \<not> equal_fold (RoutingMode p) Inherit"
  by (simp_all add: configured_def)

lemma configured_in_provFields: "configured p f \<Longrightarrow> f \<in> set provFields"
  unfolding configured_def provFields_def by (elim disjE conjE) simp_all

lemma Defaults_fields:
  "MaxSourceWidth Defaults = None" "MaxSourceHeight Defaults = None"
  "MaxSourceBitrateKbps Defaults = None" "MaxStreamingBitrateKbps Defaults = None"
  "MaxAudioChannels Defaults = None" "Allow4K Defaults = Allow" "AllowHDR Defaults = Allow"
  "AllowDolbyVision Defaults = Allow" "AllowTranscode Defaults = Allow"
  "PreferDirectPlay Defaults = Allow" "UnknownDRBehavior Defaults = Allow"
  "RoutingMode Defaults = ''automatic''"
  "Provenance Defaults = (\<lambda>f. if f \<in> set provFields then Some ProvDefault else None)"
  by (simp_all add: Defaults_def zeroPolicy_def)

lemma Effective_Provenance:
  "Provenance (Effective g u d) f =
    (if f \<in> set provFields then Some (winner_name g u d f) else None)"
  using configured_in_provFields
  by (auto simp: Effective_def MergeAs_Provenance winner_name_def Defaults_fields)

lemma Effective_provOf:
  "f \<in> set provFields \<Longrightarrow> provOf (Effective g u d) scope f = winner_name g u d f"
  by (simp add: provOf_def Effective_Provenance winner_name_def)

lemma configured_Effective:
  "MaxSourceWidth (Effective g u d) = MaxSourceWidth (winner g u d ''maxSourceWidth'')"
  "MaxSourceHeight (Effective g u d) = MaxSourceHeight (winner g u d ''maxSourceHeight'')"
  "MaxSourceBitrateKbps (Effective g u d) = MaxSourceBitrateKbps (winner g u d ''maxSourceBitrateKbps'')"
  "MaxStreamingBitrateKbps (Effective g u d) = MaxStreamingBitrateKbps (winner g u d ''maxStreamingBitrateKbps'')"
  "MaxAudioChannels (Effective g u d) = MaxAudioChannels (winner g u d ''maxAudioChannels'')"
  "Allow4K (Effective g u d) = Normalize (Allow4K (winner g u d ''allow4K''))"
  "AllowHDR (Effective g u d) = Normalize (AllowHDR (winner g u d ''allowHDR''))"
  "AllowDolbyVision (Effective g u d) = Normalize (AllowDolbyVision (winner g u d ''allowDolbyVision''))"
  "AllowTranscode (Effective g u d) = Normalize (AllowTranscode (winner g u d ''allowTranscode''))"
  "PreferDirectPlay (Effective g u d) = Normalize (PreferDirectPlay (winner g u d ''preferDirectPlay''))"
  "UnknownDRBehavior (Effective g u d) = Normalize (UnknownDRBehavior (winner g u d ''unknownDynamicRangeBehavior''))"
  "RoutingMode (Effective g u d) = RoutingMode (winner g u d ''routingMode'')"
  by (simp_all add: Effective_def MergeAs_fields winner_def configured_field Defaults_fields)

text \<open>
  A default allows everything, so a field that denies or bounds something was set by one
  of the three configurable levels.
\<close>

lemma winner_not_default:
  "Normalize (Allow4K (winner g u d f)) = Deny \<Longrightarrow> winner_name g u d f \<noteq> ProvDefault"
  "Normalize (AllowHDR (winner g u d f)) = Deny \<Longrightarrow> winner_name g u d f \<noteq> ProvDefault"
  "Normalize (AllowDolbyVision (winner g u d f)) = Deny \<Longrightarrow> winner_name g u d f \<noteq> ProvDefault"
  "Normalize (UnknownDRBehavior (winner g u d f)) = Deny \<Longrightarrow> winner_name g u d f \<noteq> ProvDefault"
  "exceeds x (MaxSourceWidth (winner g u d f)) \<Longrightarrow> winner_name g u d f \<noteq> ProvDefault"
  "exceeds x (MaxSourceHeight (winner g u d f)) \<Longrightarrow> winner_name g u d f \<noteq> ProvDefault"
  "exceeds x (MaxSourceBitrateKbps (winner g u d f)) \<Longrightarrow> winner_name g u d f \<noteq> ProvDefault"
  by (auto simp: winner_def winner_name_def Defaults_fields split: if_splits)

section \<open>Selection is the unique least permitted variant\<close>

lemma least_unique:
  assumes "distinct (map MediaIndex vs)" "b \<in> set vs" "c \<in> set vs"
    and "\<not> lessKey (rankKey p b) (rankKey p c)" "\<not> lessKey (rankKey p c) (rankKey p b)"
  shows "b = c"
proof -
  have "rankKey p b = rankKey p c"
    using assms(4,5) lessKey_total [of "rankKey p b" "rankKey p c"] by auto
  then have "MediaIndex b = MediaIndex c" by (rule rankKey_eq_index)
  then show ?thesis using assms(1-3) by (auto simp: distinct_map dest: inj_onD)
qed

text \<open>
  C1. A successful evaluation selects one of the variants it was given, that variant
  breaks no hard rule of the policy, no permitted variant ranks before it, it is not a
  forbidden transcode, and the decision carries its index.
\<close>

theorem Evaluate_sound:
  assumes "Evaluate p scope vs = (d, None)"
  shows "\<exists>b \<in> set vs. Selected d = Some b \<and> SelectedIndex d = MediaIndex b \<and> permitted p b \<and>
    (\<forall>u \<in> set vs. permitted p u \<longrightarrow> \<not> lessKey (rankKey p u) (rankKey p b)) \<and>
    \<not> (Playability b = Transcode \<and> denied (AllowTranscode p))"
  using assms by (cases rule: Evaluate_cases [of p vs scope]) (auto 4 3)

text \<open>
  C2. Evaluation fails in exactly two ways. It answers \<^verbatim>\<open>NO_ALLOWED_MEDIA_VARIANT\<close> when the
  policy permits none of the variants, and \<^verbatim>\<open>POLICY_TRANSCODE_FORBIDDEN\<close> when a permitted
  variant of least rank needs the transcode the policy denies; it never answers anything
  else, and on failure nothing is selected.
\<close>

theorem Evaluate_error:
  assumes "Evaluate p scope vs = (d, Some e)"
  shows "Selected d = None \<and> OutputBitrateKbps d = None \<and> ErrRejected e = Rejected d \<and>
    (Code e = NoAllowedVariant \<and> (\<forall>v \<in> set vs. \<not> permitted p v) \<or>
     Code e = TranscodeForbidden \<and> denied (AllowTranscode p) \<and>
       (\<exists>b \<in> set vs. permitted p b \<and> Playability b = Transcode \<and> SelectedIndex d = MediaIndex b \<and>
          (\<forall>u \<in> set vs. permitted p u \<longrightarrow> \<not> lessKey (rankKey p u) (rankKey p b))))"
  using assms
  by (cases rule: Evaluate_cases [of p vs scope]) (auto 4 3 simp: filter_empty_conv)

text \<open>With distinct indices the least permitted variant determines the decision.\<close>

lemma Evaluate_least:
  assumes "distinct (map MediaIndex vs)" "b \<in> set vs" "permitted p b"
    and "\<And>u. u \<in> set vs \<Longrightarrow> permitted p u \<Longrightarrow> \<not> lessKey (rankKey p u) (rankKey p b)"
  shows "Evaluate p s vs =
    (if Playability b = Transcode \<and> denied (AllowTranscode p) then
       (\<lparr>Selected = None, SelectedIndex = MediaIndex b, OutputBitrateKbps = None,
          Rejected = rejections p s vs\<rparr>,
        Some \<lparr>Code = TranscodeForbidden, ErrRejected = rejections p s vs\<rparr>)
     else (\<lparr>Selected = Some b, SelectedIndex = MediaIndex b,
             OutputBitrateKbps = (if exceeds (BitrateKbps b) (MaxStreamingBitrateKbps p)
               then MaxStreamingBitrateKbps p else None),
             Rejected = rejections p s vs\<rparr>, None))"
proof (cases rule: Evaluate_cases [of p vs s])
  case none
  then show ?thesis using assms(2,3) by (auto simp: filter_empty_conv)
next
  case (forbidden c)
  moreover have "b = c" using least_unique [OF assms(1)] assms(2-4) forbidden(1-3) by blast
  ultimately show ?thesis by simp
next
  case (selected c)
  moreover have "b = c" using least_unique [OF assms(1)] assms(2-4) selected(1-3) by blast
  ultimately show ?thesis by simp
qed

text \<open>
  C3. The selection is deterministic: when the media indices are distinct, the selected
  variant, its index, the output cap and the error code depend only on which variants are
  offered, not on the order in which the origin lists them, nor on the fallback scope.
\<close>

theorem Evaluate_order_independent:
  assumes "mset vs = mset vs'" "distinct (map MediaIndex vs)"
  shows "Selected (fst (Evaluate p s vs)) = Selected (fst (Evaluate p s' vs')) \<and>
    SelectedIndex (fst (Evaluate p s vs)) = SelectedIndex (fst (Evaluate p s' vs')) \<and>
    OutputBitrateKbps (fst (Evaluate p s vs)) = OutputBitrateKbps (fst (Evaluate p s' vs')) \<and>
    map_option Code (snd (Evaluate p s vs)) = map_option Code (snd (Evaluate p s' vs'))"
proof -
  have set: "set vs' = set vs" and dist: "distinct (map MediaIndex vs')"
    using assms mset_eq_setD [OF assms(1)] mset_eq_imp_distinct_iff [of "map MediaIndex vs" "map MediaIndex vs'"]
    by simp_all
  have least: ?thesis if "b \<in> set vs" "permitted p b"
    "\<And>u. u \<in> set vs \<Longrightarrow> permitted p u \<Longrightarrow> \<not> lessKey (rankKey p u) (rankKey p b)" for b
    using Evaluate_least [OF assms(2) that] Evaluate_least [OF dist, of b p s'] that set by simp
  show ?thesis
  proof (cases rule: Evaluate_cases [of p vs s])
    case none
    moreover from this set have "filter (permitted p) vs' = []" by (simp add: filter_empty_conv)
    ultimately show ?thesis by (simp add: Evaluate_unfold)
  qed (use least in blast)+
qed

text \<open>
  C4. Precedence. Every field of the effective policy takes its value from the most
  specific level that configures it (device, then user, then global, then the defaults),
  and its provenance names exactly that level.
\<close>

theorem Effective_precedence:
  "MaxSourceWidth (Effective g u d) = MaxSourceWidth (winner g u d ''maxSourceWidth'') \<and>
   MaxSourceHeight (Effective g u d) = MaxSourceHeight (winner g u d ''maxSourceHeight'') \<and>
   MaxSourceBitrateKbps (Effective g u d) = MaxSourceBitrateKbps (winner g u d ''maxSourceBitrateKbps'') \<and>
   MaxStreamingBitrateKbps (Effective g u d) = MaxStreamingBitrateKbps (winner g u d ''maxStreamingBitrateKbps'') \<and>
   MaxAudioChannels (Effective g u d) = MaxAudioChannels (winner g u d ''maxAudioChannels'') \<and>
   Allow4K (Effective g u d) = Normalize (Allow4K (winner g u d ''allow4K'')) \<and>
   AllowHDR (Effective g u d) = Normalize (AllowHDR (winner g u d ''allowHDR'')) \<and>
   AllowDolbyVision (Effective g u d) = Normalize (AllowDolbyVision (winner g u d ''allowDolbyVision'')) \<and>
   AllowTranscode (Effective g u d) = Normalize (AllowTranscode (winner g u d ''allowTranscode'')) \<and>
   PreferDirectPlay (Effective g u d) = Normalize (PreferDirectPlay (winner g u d ''preferDirectPlay'')) \<and>
   UnknownDRBehavior (Effective g u d) = Normalize (UnknownDRBehavior (winner g u d ''unknownDynamicRangeBehavior'')) \<and>
   RoutingMode (Effective g u d) = RoutingMode (winner g u d ''routingMode'') \<and>
   Provenance (Effective g u d) f = (if f \<in> set provFields then Some (winner_name g u d f) else None)"
  by (intro conjI configured_Effective Effective_Provenance)

section \<open>Rejections name the level that imposed them\<close>

lemma Rejected_Evaluate: "Rejected (fst (Evaluate p scope vs)) = rejections p scope vs"
  by (cases rule: Evaluate_cases [of p vs scope]) simp_all

lemma map_filter_index:
  "map RejIndex (List.map_filter (screenVariant p scope) vs) =
    map MediaIndex (filter (\<lambda>v. \<not> permitted p v) vs)"
proof (induction vs)
  case (Cons v vs)
  then show ?case
    using screenVariant_None [of p scope v] screenVariant_index [of p scope v]
    by (cases "screenVariant p scope v") (auto simp: map_filter_simps)
qed (simp add: map_filter_simps)

lemma resolution_winner:
  "overResolution v (Effective g u d) \<Longrightarrow>
    winner_name g u d (resolutionField v (Effective g u d)) \<noteq> ProvDefault"
  using winner_not_default(5,6)
  by (auto simp: overResolution_def resolutionField_def configured_Effective)

text \<open>Which policy field each reason code blames.\<close>

definition reasonFields :: "(string \<times> string) list" where
  "reasonFields = [(RSource4KDenied, ''allow4K''), (RMaxSourceResolution, ''maxSourceWidth''),
     (RMaxSourceResolution, ''maxSourceHeight''), (RUnknownDRDenied, ''unknownDynamicRangeBehavior''),
     (RDolbyVisionDenied, ''allowDolbyVision''), (RHDRDenied, ''allowHDR''),
     (RSourceBitrateCeil, ''maxSourceBitrateKbps'')]"

lemma reasonFields_resolution: "(RMaxSourceResolution, resolutionField v p) \<in> set reasonFields"
  by (simp add: resolutionField_def reasonFields_def)

text \<open>Every rejection with the rule of the policy that it breaks.\<close>

lemma screenVariant_cases:
  assumes "screenVariant p scope v = Some r"
  obtains (part) "r = rejectWith p scope v RPartUnavailable []" "\<not> PartAvailable v"
  | (uhd) "r = rejectWith p scope v RSource4KDenied ''allow4K''" "Normalize (Allow4K p) = Deny"
  | (resolution) "r = rejectWith p scope v RMaxSourceResolution (resolutionField v p)" "overResolution v p"
  | (unknown) "r = rejectWith p scope v RUnknownDRDenied ''unknownDynamicRangeBehavior''"
      "Normalize (UnknownDRBehavior p) = Deny"
  | (dolby) "r = rejectWith p scope v RDolbyVisionDenied ''allowDolbyVision''"
      "Normalize (AllowDolbyVision p) = Deny"
  | (hdr) "r = rejectWith p scope v RHDRDenied ''allowHDR''" "Normalize (AllowHDR p) = Deny"
  | (bitrate) "r = rejectWith p scope v RSourceBitrateCeil ''maxSourceBitrateKbps''"
      "exceeds (BitrateKbps v) (MaxSourceBitrateKbps p)"
proof -
  have "deniesDR p v \<Longrightarrow> DynamicRange v = ''UNKNOWN'' \<Longrightarrow> Normalize (UnknownDRBehavior p) = Deny"
    and "deniesDR p v \<Longrightarrow> DynamicRange v \<noteq> ''UNKNOWN'' \<Longrightarrow>
      \<not> (DynamicRange v = ''DOLBY_VISION'' \<and> Normalize (AllowDolbyVision p) = Deny) \<Longrightarrow>
      Normalize (AllowHDR p) = Deny"
    by (auto simp: deniesDR_iff denied_def)
  note dr = this
  consider "\<not> PartAvailable v" | "PartAvailable v" "is4K v \<and> Normalize (Allow4K p) = Deny"
    | "PartAvailable v" "\<not> (is4K v \<and> Normalize (Allow4K p) = Deny)" "overResolution v p"
    | "PartAvailable v" "\<not> (is4K v \<and> Normalize (Allow4K p) = Deny)" "\<not> overResolution v p" "deniesDR p v"
    | "PartAvailable v" "\<not> (is4K v \<and> Normalize (Allow4K p) = Deny)" "\<not> overResolution v p" "\<not> deniesDR p v"
    by blast
  then show thesis
  proof cases
    case 4
    show thesis
    proof (cases "DynamicRange v = ''UNKNOWN''")
      case True
      then show thesis using 4 assms dr(1) by (intro unknown) (auto simp: screenVariant_def split: if_splits)
    next
      case False
      then show thesis
        using 4 assms dr(2) dolby hdr
        by (cases "DynamicRange v = ''DOLBY_VISION'' \<and> Normalize (AllowDolbyVision p) = Deny")
           (auto simp: screenVariant_def split: if_splits)
    qed
  qed (use assms part uhd resolution bitrate in \<open>simp_all add: screenVariant_def split: if_splits\<close>)
qed

lemma rejectWith_sel [simp]:
  "RejReason (rejectWith p scope v reason f) = reason"
  "RejScope (rejectWith p scope v reason []) = scope"
  "RejIndex (rejectWith p scope v reason f) = MediaIndex v"
  by (simp_all add: rejectWith_def)

lemma rejectWith_stamped:
  assumes "(reason, f) \<in> set reasonFields"
  shows "RejScope (rejectWith (Effective g u d) scope v reason f) = winner_name g u d f"
proof -
  from assms have "f \<in> set provFields" "f \<noteq> []"
    by (auto simp: reasonFields_def provFields_def)
  then show ?thesis by (simp add: rejectWith_def Effective_provOf)
qed

lemma screenVariant_scope:
  assumes "screenVariant (Effective g u d) scope v = Some r"
  shows "RejReason r = RPartUnavailable \<and> RejScope r = scope \<or>
    (\<exists>f. (RejReason r, f) \<in> set reasonFields \<and>
         RejScope r = winner_name g u d f \<and> winner_name g u d f \<noteq> ProvDefault)"
proof -
  have blame: ?thesis if "r = rejectWith (Effective g u d) scope v reason f"
    "(reason, f) \<in> set reasonFields" "winner_name g u d f \<noteq> ProvDefault" for reason f
    using that rejectWith_stamped by auto
  from assms show ?thesis
  proof (cases rule: screenVariant_cases)
    case part
    then show ?thesis by simp
  next
    case resolution
    then show ?thesis using blame reasonFields_resolution resolution_winner by blast
  qed (rule blame, assumption, simp add: reasonFields_def,
       rule winner_not_default, simp add: configured_Effective)+
qed

text \<open>
  C5. Rejections account for the variants: there is one per variant the policy does not
  permit, in the order of the origin's list. Under an effective policy each rejection
  other than a missing part is attributed to the level whose value won the offending
  field, and that is always a configured level: nothing is ever rejected in the name of
  the defaults.
\<close>

theorem rejections_attributed:
  "map RejIndex (Rejected (fst (Evaluate (Effective g u d) scope vs))) =
     map MediaIndex (filter (\<lambda>v. \<not> permitted (Effective g u d) v) vs) \<and>
   (\<forall>r \<in> set (Rejected (fst (Evaluate (Effective g u d) scope vs))).
      RejReason r = RPartUnavailable \<and> RejScope r = eval_scope scope \<or>
      (\<exists>f. (RejReason r, f) \<in> set reasonFields \<and>
         RejScope r = winner_name g u d f \<and> winner_name g u d f \<noteq> ProvDefault))"
proof (intro conjI ballI)
  fix r assume "r \<in> set (Rejected (fst (Evaluate (Effective g u d) scope vs)))"
  then obtain v where "screenVariant (Effective g u d) (eval_scope scope) v = Some r"
    by (auto simp: Rejected_Evaluate rejections_def map_filter_def)
  then show "RejReason r = RPartUnavailable \<and> RejScope r = eval_scope scope \<or>
      (\<exists>f. (RejReason r, f) \<in> set reasonFields \<and>
         RejScope r = winner_name g u d f \<and> winner_name g u d f \<noteq> ProvDefault)"
    using screenVariant_scope by blast
qed (simp add: Rejected_Evaluate rejections_def map_filter_index)

section \<open>Loading the effective policy\<close>

definition found :: "policy option \<Rightarrow> policy" where
  "found l = (case l of None \<Rightarrow> zeroPolicy | Some p \<Rightarrow> p)"

definition most_specific :: "policy option \<Rightarrow> policy option \<Rightarrow> string" where
  "most_specific u d =
    (if d \<noteq> None then ProvDevice else if u \<noteq> None then ProvUser else ProvGlobal)"

lemma loadLevels_step:
  "loadLevels db decode serverID ((t, i, n) # ls) eff sc =
    (case (if i = None \<and> t \<noteq> ''global'' then Some None else loadLevel db decode serverID t i) of
       None \<Rightarrow> Inl (LevelUnavailable n)
     | Some l \<Rightarrow> loadLevels db decode serverID ls (MergeAs eff (found l) n) (if l = None then sc else n))"
  by (simp add: found_def split: option.split)


section \<open>The bandwidth target\<close>

lemma target_irrelevant:
  fixes p :: policy and t :: "int option"
  defines "q \<equiv> p\<lparr>MaxStreamingBitrateKbps := t\<rparr>"
  shows "permitted q = permitted p" "rankKey q = rankKey p" "screenVariant q = screenVariant p"
    "selectBest q = selectBest p"
proof -
  show "permitted q = permitted p"
    by (rule ext) (simp add: permitted_def q_def)
  show rank: "rankKey q = rankKey p"
    by (rule ext) (simp add: rankKey_def maxPixels_def audioExcess_def q_def)
  show "screenVariant q = screenVariant p"
    by (intro ext) (simp add: screenVariant_def rejectWith_def provOf_def overResolution_def
        resolutionField_def deniesDR_def q_def)
  have "selectBest q b k vs = selectBest p b k vs" for b k vs
    by (induction vs arbitrary: b k) (simp_all add: rank Let_def)
  then show "selectBest q = selectBest p" by (intro ext)
qed

text \<open>
  The bandwidth target controls output, never permission: replacing it by any other
  target changes neither the selected variant nor the rejections nor the error, and a
  successful decision is capped at the target exactly when the selected source is known
  to exceed it.
\<close>

theorem bandwidth_target_only_caps:
  "(let (d, e) = Evaluate p scope vs;
        (d', e') = Evaluate (p\<lparr>MaxStreamingBitrateKbps := Some t\<rparr>) scope vs
    in e' = e \<and> Selected d' = Selected d \<and> SelectedIndex d' = SelectedIndex d \<and>
       Rejected d' = Rejected d \<and>
       OutputBitrateKbps d' =
         (case Selected d of
            Some b \<Rightarrow> (case BitrateKbps b of Some br \<Rightarrow> if t < br then Some t else None | None \<Rightarrow> None)
          | None \<Rightarrow> None))"
proof -
  have "rejections (p\<lparr>MaxStreamingBitrateKbps := Some t\<rparr>) scope vs = rejections p scope vs"
    by (simp add: rejections_def target_irrelevant)
  then show ?thesis
    by (simp add: Evaluate_unfold target_irrelevant Let_def exceeds_iff split: list.split option.split)
qed

section \<open>Witnesses\<close>

text \<open>A 4K Dolby Vision variant beside a 1080p one, and a user level that denies 4K.\<close>

definition exUHD :: variant where
  "exUHD = \<lparr>MediaIndex = 0, Width = Some 3840, Height = Some 2160, BitrateKbps = Some 40000,
     DynamicRange = ''DOLBY_VISION'', VideoCodec = ''hevc'', AudioChannels = Some 8,
     Playability = UnknownPlayability, PartAvailable = True\<rparr>"

definition exHD :: variant where
  "exHD = \<lparr>MediaIndex = 1, Width = Some 1920, Height = Some 1080, BitrateKbps = Some 9000,
     DynamicRange = ''SDR'', VideoCodec = ''h264'', AudioChannels = Some 6,
     Playability = UnknownPlayability, PartAvailable = True\<rparr>"

definition exUser :: policy where
  "exUser = zeroPolicy\<lparr>Allow4K := Deny, MaxStreamingBitrateKbps := Some 4000\<rparr>"

definition exEffective :: policy where
  "exEffective = Effective zeroPolicy exUser zeroPolicy"

definition exDecision :: decision where
  "exDecision = \<lparr>Selected = Some exHD, SelectedIndex = 1, OutputBitrateKbps = Some 4000,
     Rejected = [\<lparr>RejIndex = 0, RejScope = ProvUser, RejReason = RSource4KDenied\<rparr>]\<rparr>"

theorem Evaluate_sound_witness:
  "\<exists>b \<in> set [exUHD, exHD]. Selected exDecision = Some b \<and> SelectedIndex exDecision = MediaIndex b \<and>
    permitted exEffective b \<and>
    (\<forall>u \<in> set [exUHD, exHD]. permitted exEffective u \<longrightarrow>
       \<not> lessKey (rankKey exEffective u) (rankKey exEffective b)) \<and>
    \<not> (Playability b = Transcode \<and> denied (AllowTranscode exEffective))"
proof (rule Evaluate_sound)
  show "Evaluate exEffective ''USER'' [exUHD, exHD] = (exDecision, None)" by code_simp
qed

theorem Evaluate_error_witness:
  "Evaluate exEffective ''USER'' [exUHD] =
     (\<lparr>Selected = None, SelectedIndex = 0, OutputBitrateKbps = None, Rejected = Rejected exDecision\<rparr>,
      Some \<lparr>Code = NoAllowedVariant, ErrRejected = Rejected exDecision\<rparr>) \<and>
   \<not> permitted exEffective exUHD"
proof (intro conjI)
  show ev: "Evaluate exEffective ''USER'' [exUHD] =
     (\<lparr>Selected = None, SelectedIndex = 0, OutputBitrateKbps = None, Rejected = Rejected exDecision\<rparr>,
      Some \<lparr>Code = NoAllowedVariant, ErrRejected = Rejected exDecision\<rparr>)"
    by code_simp
  show "\<not> permitted exEffective exUHD"
    using Evaluate_error [OF ev] by simp
qed

theorem Evaluate_order_independent_witness:
  "Selected (fst (Evaluate exEffective ''USER'' [exUHD, exHD])) =
     Selected (fst (Evaluate exEffective ''GLOBAL'' [exHD, exUHD]))"
proof -
  have "mset [exUHD, exHD] = mset [exHD, exUHD]" "distinct (map MediaIndex [exUHD, exHD])"
    by (simp_all add: exUHD_def exHD_def)
  from Evaluate_order_independent [OF this] show ?thesis by blast
qed

theorem rejections_attributed_witness:
  "Rejected (fst (Evaluate exEffective ''GLOBAL'' [exUHD, exHD])) = Rejected exDecision \<and>
   map MediaIndex (filter (\<lambda>v. \<not> permitted exEffective v) [exUHD, exHD]) = [0] \<and>
   (\<exists>f. (RSource4KDenied, f) \<in> set reasonFields \<and>
      winner_name zeroPolicy exUser zeroPolicy f = ProvUser)"
proof -
  have rej: "Rejected (fst (Evaluate exEffective ''GLOBAL'' [exUHD, exHD])) = Rejected exDecision"
    by code_simp
  show ?thesis
    using rejections_attributed [of zeroPolicy exUser zeroPolicy "''GLOBAL''" "[exUHD, exHD]"] rej
    unfolding exEffective_def [symmetric] rej by (auto simp: exDecision_def)
qed

end
