(* ===== verification/Go_Http.thy ===== *)
theory Go_Http
  imports Go_Strings "HOL-Library.List_Lexorder" "HOL-Library.Char_ord"
begin

text \<open>
  Requests, headers and query values as Go's \<^verbatim>\<open>net/http\<close> and \<^verbatim>\<open>net/url\<close> hand them to the
  service. Headers and query values are Go maps from a key to a list of values
  (association lists, see \<open>Prelude\<close>); \<open>parse_query\<close> and \<open>values_encode\<close> are
  \<^verbatim>\<open>url.ParseQuery\<close> and \<^verbatim>\<open>Values.Encode\<close>.
\<close>

type_synonym multimap = "(string \<times> string list) list"

definition values_get :: "multimap \<Rightarrow> string \<Rightarrow> string" where
  "values_get q k = (case map_of q k of Some (v # _) \<Rightarrow> v | _ \<Rightarrow> [])"

definition values_of :: "multimap \<Rightarrow> string \<Rightarrow> string list" where
  "values_of q k = (case map_of q k of Some vs \<Rightarrow> vs | None \<Rightarrow> [])"

definition values_set :: "multimap \<Rightarrow> string \<Rightarrow> string \<Rightarrow> multimap" where
  "values_set q k v = AList.update k [v] q"

definition values_del :: "multimap \<Rightarrow> string \<Rightarrow> multimap" where
  "values_del q k = AList.delete k q"

definition values_add :: "multimap \<Rightarrow> string \<Rightarrow> string \<Rightarrow> multimap" where
  "values_add q k v = AList.update k (values_of q k @ [v]) q"

lemma values_get_set [go_map_simps]:
  "values_get (values_set q k v) k' = (if k' = k then v else values_get q k')"
  by (simp add: values_get_def values_set_def map_of_update)

lemma values_of_set [go_map_simps]:
  "values_of (values_set q k v) k' = (if k' = k then [v] else values_of q k')"
  by (simp add: values_of_def values_set_def map_of_update)

lemma values_of_add [go_map_simps]:
  "values_of (values_add q k v) k' = (if k' = k then values_of q k @ [v] else values_of q k')"
  by (simp add: values_of_def values_add_def map_of_update)

lemma values_of_del [go_map_simps]:
  "values_of (values_del q k) k' = (if k' = k then [] else values_of q k')"
  by (simp add: values_of_def values_del_def map_of_delete)

lemma values_get_of: "values_get q k = (case values_of q k of [] \<Rightarrow> [] | v # _ \<Rightarrow> v)"
  by (auto simp: values_get_def values_of_def split: option.splits list.splits)

section \<open>Query strings\<close>

definition hex_val :: "char \<Rightarrow> nat option" where
  "hex_val c = (let n = (of_char c :: nat) in
     if 48 \<le> n \<and> n \<le> 57 then Some (n - 48)
     else if 97 \<le> n \<and> n \<le> 102 then Some (n - 87)
     else if 65 \<le> n \<and> n \<le> 70 then Some (n - 55) else None)"

text \<open>\<^verbatim>\<open>url.QueryUnescape\<close>: \<open>None\<close> is the escape error.\<close>

fun query_unescape :: "string \<Rightarrow> string option" where
  "query_unescape [] = Some []"
| "query_unescape (c # s) =
    (if c = CHR ''%'' then
       (case s of
          a # b # t \<Rightarrow>
            (case (hex_val a, hex_val b) of
               (Some x, Some y) \<Rightarrow> map_option ((#) (char_of (16 * x + y))) (query_unescape t)
             | _ \<Rightarrow> None)
        | _ \<Rightarrow> None)
     else map_option ((#) (if c = CHR ''+'' then CHR '' '' else c)) (query_unescape s))"

definition parse_pair :: "string \<Rightarrow> (string \<times> string) option" where
  "parse_pair part =
    (if CHR '';'' \<in> set part \<or> part = [] then None
     else (case (query_unescape (before (CHR ''='') part), query_unescape (after (CHR ''='') part)) of
             (Some k, Some v) \<Rightarrow> Some (k, v)
           | _ \<Rightarrow> None))"

text \<open>\<^verbatim>\<open>URL.Query()\<close> drops the parts that do not parse.\<close>

definition parse_query :: "string \<Rightarrow> multimap" where
  "parse_query raw =
    fold (\<lambda>part q. case parse_pair part of None \<Rightarrow> q | Some (k, v) \<Rightarrow> values_add q k v)
      (split_on (CHR ''&'') raw) []"

definition hex_digit :: "nat \<Rightarrow> char" where
  "hex_digit d = (if d < 10 then char_of (48 + d) else char_of (55 + d))"

definition unreserved :: "char \<Rightarrow> bool" where
  "unreserved c \<longleftrightarrow> (let n = (of_char c :: nat) in
     48 \<le> n \<and> n \<le> 57 \<or> 65 \<le> n \<and> n \<le> 90 \<or> 97 \<le> n \<and> n \<le> 122 \<or>
     c \<in> {CHR ''-'', CHR ''_'', CHR ''.'', CHR ''~''})"

definition query_escape :: "string \<Rightarrow> string" where
  "query_escape s = concat (map (\<lambda>c.
     if unreserved c then [c] else if c = CHR '' '' then ''+''
     else [CHR ''%'', hex_digit ((of_char c :: nat) div 16), hex_digit ((of_char c :: nat) mod 16)]) s)"

definition values_encode :: "multimap \<Rightarrow> string" where
  "values_encode q = join_on (CHR ''&'')
     (concat (map (\<lambda>k. map (\<lambda>v. query_escape k @ CHR ''='' # query_escape v) (values_of q k))
       (sort (map fst q))))"

lemma sort_keys_cong:
  assumes "wf_map a" and "wf_map b" and "map_of a = map_of b"
  shows "sort (map fst a) = sort (map fst (b :: (string \<times> 'v) list))"
proof -
  have "set (map fst a) = set (map fst b)"
    using assms(3) by (metis dom_map_of_conv_image_fst set_map)
  moreover have "sort (map fst m) = sorted_list_of_set (set (map fst m))"
    if "wf_map m" for m :: "(string \<times> 'v) list"
    using that by (simp only: sorted_list_of_set_sort_remdups) (simp add: wf_map_def distinct_remdups_id)
  ultimately show ?thesis
    using assms(1,2) by metis
qed

text \<open>The encoding depends on the map only, not on the order its entries are listed in.\<close>

lemma values_encode_cong:
  "wf_map a \<Longrightarrow> wf_map b \<Longrightarrow> map_of a = map_of b \<Longrightarrow> values_encode a = values_encode b"
  by (simp add: values_encode_def values_of_def sort_keys_cong [of a b])

section \<open>Headers\<close>

definition header_get :: "multimap \<Rightarrow> string \<Rightarrow> string" where
  "header_get h k = values_get h k"

definition header_values :: "multimap \<Rightarrow> string \<Rightarrow> string list" where
  "header_values h k = values_of h k"

definition token_char :: "char \<Rightarrow> bool" where
  "token_char c \<longleftrightarrow> (let n = (of_char c :: nat) in
     48 \<le> n \<and> n \<le> 57 \<or> 65 \<le> n \<and> n \<le> 90 \<or> 97 \<le> n \<and> n \<le> 122 \<or>
     c \<in> set ''!#$%&*+-.^_|~`'' \<or> c = CHR 0x27)"

fun canon_chars :: "bool \<Rightarrow> string \<Rightarrow> string" where
  "canon_chars up [] = []"
| "canon_chars up (c # s) =
    (if up then upper_char c else lower_char c) # canon_chars (c = CHR ''-'') s"

text \<open>\<^verbatim>\<open>http.CanonicalHeaderKey\<close>.\<close>

definition canonical_header_key :: "string \<Rightarrow> string" where
  "canonical_header_key k = (if list_all token_char k then canon_chars True k else k)"

section \<open>Requests\<close>

text \<open>\<^verbatim>\<open>io.ReadAll(io.LimitReader(body, n))\<close>: at most \<open>n\<close> bytes.\<close>

definition limit_read :: "int \<Rightarrow> string \<Rightarrow> string" where
  "limit_read n body = (if int (length body) \<le> n then body else take (nat n) body)"

lemma length_limit_read: "0 \<le> n \<Longrightarrow> int (length (limit_read n body)) \<le> n"
  by (simp add: limit_read_def)

record request =
  Method :: string
  URLHost :: string
  URLPath :: string
  RawQuery :: string
  Header :: multimap
  ContentLength :: int
  RemoteAddr :: string
  ReqBody :: string

definition url_query :: "request \<Rightarrow> multimap" where
  "url_query r = parse_query (RawQuery r)"

lemma wf_map_parse_query: "wf_map (parse_query raw)"
proof -
  have "wf_map q \<Longrightarrow> wf_map (fold (\<lambda>part q. case parse_pair part of None \<Rightarrow> q
          | Some (k, v) \<Rightarrow> values_add q k v) parts q)" for parts q
    by (induction parts arbitrary: q) (auto simp: values_add_def split: option.splits)
  then show ?thesis by (simp add: parse_query_def)
qed

end
