(* ===== verification/Cache_Keys.thy ===== *)
theory Cache_Keys
  imports Go_Http
begin

text \<open>
  Admission and keys of the response cache (\<^verbatim>\<open>internal/cache/keys.go\<close>,
  \<^verbatim>\<open>response_policy.go\<close> and the first half of \<^verbatim>\<open>cache.go\<close>). SHA-256 is the parameter
  \<open>sha\<close>, from byte strings to digests; nothing is assumed of it. The lemmas show which
  requests are admitted, that keys of different users or of different invalidation
  generations never coincide, whatever \<open>sha\<close> does, and that credentials do not enter keys.
\<close>

section \<open>Admission by method and path\<close>

definition secretParams :: "string list" where
  "secretParams = [''x-plex-token'', ''token'', ''authtoken'']"

definition ttlByPrefix :: "(string \<times> duration) list" where
  "ttlByPrefix =
    [(''/library/sections/'', 60 * second), (''/library/collections/'', 2 * minute),
     (''/library/metadata/'', 5 * minute), (''/library/sections'', 5 * minute),
     (''/identity'', 5 * minute)]"

definition liveParts :: "string list" where
  "liveParts = [''hubs'', ''home'', ''ondeck'', ''continuewatching'', ''resume'', '':'']"

text \<open>One round of the longest-prefix loop; \<open>best\<close> is the entry chosen so far.\<close>

definition betterPrefix ::
  "string \<Rightarrow> string \<times> duration \<Rightarrow> (string \<times> duration) option \<Rightarrow> (string \<times> duration) option" where
  "betterPrefix p e best =
    (if \<not> has_suffix (fst e) ''/'' \<and> p \<noteq> fst e then best
     else if has_prefix p (fst e) \<and>
             (case best of None \<Rightarrow> True | Some b \<Rightarrow> length (fst e) > length (fst b))
     then Some e else best)"

definition Cacheable :: "string \<Rightarrow> string \<Rightarrow> duration option" where
  "Cacheable method path =
    (if method \<noteq> ''GET'' then None
     else let p = to_lower path in
       if \<exists>part \<in> set (split_on (CHR ''/'') p). part \<in> set liveParts then None
       else map_option snd (fold (betterPrefix p) ttlByPrefix None))"

section \<open>Classes and scopes\<close>

definition ClassOf :: "string \<Rightarrow> string" where
  "ClassOf path =
    (let p = to_lower path in
     if has_prefix p ''/hubs/'' \<and> contains p ''continuewatching'' then ''cw''
     else if has_prefix p ''/hubs/search'' \<or> contains p ''/hubs/search'' then ''search''
     else if has_prefix p ''/hubs/'' then ''hubs''
     else if has_prefix p ''/library/sections'' \<and> contains p ''/collections'' then ''collections''
     else if has_prefix p ''/library/sections'' then ''sections''
     else if has_prefix p ''/library/metadata'' then ''metadata''
     else if has_prefix p ''/library/collections'' then ''collections''
     else if has_prefix p ''/identity'' then ''identity''
     else ''browse'')"

definition UserScope :: "string \<Rightarrow> string" where
  "UserScope identityID = ''user:'' @ identityID"

definition normalizeRepresentation :: "string \<Rightarrow> string" where
  "normalizeRepresentation accept =
    (let a = to_lower accept in
     if contains a ''json'' then ''json'' else if contains a ''xml'' then ''xml'' else ''default'')"

section \<open>Keys\<close>

abbreviation "SchemaVersion \<equiv> ''v4''"
abbreviation "NUL \<equiv> CHR 0x00"

definition digest16 :: "(string \<Rightarrow> string) \<Rightarrow> string \<Rightarrow> string" where
  "digest16 sha s = take 16 (hex_encode (sha s))"

definition Key ::
  "(string \<Rightarrow> string) \<Rightarrow> string \<Rightarrow> string \<Rightarrow> string \<Rightarrow> string \<Rightarrow> string \<Rightarrow> (string \<times> string) list \<Rightarrow> string" where
  "Key sha schemaVersion serverID cls scope representation params =
    (let b = concat (map (\<lambda>k. k @ ''='' @ (case map_of params k of Some v \<Rightarrow> v | None \<Rightarrow> []) @ ''&'') (sort (map fst params)))
     in ''replx_edge:'' @ schemaVersion @ '':'' @ serverID @ '':'' @ cls @ '':'' @ scope @ '':'' @
        representation @ '':'' @ digest16 sha b)"

definition canonicalQuery :: "multimap \<Rightarrow> multimap" where
  "canonicalQuery q = filter (\<lambda>(k, _). to_lower k \<notin> set secretParams) q"

definition ResponseKeyGen ::
  "(string \<Rightarrow> string) \<Rightarrow> string \<Rightarrow> string \<Rightarrow> string \<Rightarrow> string \<Rightarrow> multimap \<Rightarrow> string \<Rightarrow> u64 \<Rightarrow> u64 \<Rightarrow> string" where
  "ResponseKeyGen sha scope cls method path query accept scopeGen globalGen =
    (let b = to_upper method @ NUL # path @ NUL # accept @ NUL # values_encode (canonicalQuery query);
         rep = normalizeRepresentation accept;
         cls = (if cls = [] then ''browse'' else cls)
     in ''replx_edge:'' @ SchemaVersion @ '':default:'' @ cls @ '':'' @ scope @ '':'' @ rep @ '':'' @
        show_nat (unat scopeGen) @ '':'' @ show_nat (unat globalGen) @ '':'' @ digest16 sha b)"

definition ResponseKey ::
  "(string \<Rightarrow> string) \<Rightarrow> string \<Rightarrow> string \<Rightarrow> string \<Rightarrow> multimap \<Rightarrow> string \<Rightarrow> string" where
  "ResponseKey sha scope method path query accept =
    ResponseKeyGen sha scope (ClassOf path) method path query accept 0 0"

text \<open>The headers that enter the variation: the loop of \<^verbatim>\<open>HeaderVariation\<close> and its two skips.\<close>

definition variesBy :: "string \<times> string list \<Rightarrow> bool" where
  "variesBy e =
    (let name = to_lower (fst e) in
     if name = ''accept'' then length (snd e) \<noteq> 1
     else name \<notin> {''accept-encoding'', ''x-plex-token'', ''x-replx-edge-request-id''})"

definition variationValues :: "multimap \<Rightarrow> multimap" where
  "variationValues h =
    fold (\<lambda>e vs. if variesBy e then AList.update (to_lower (fst e)) (snd e) vs else vs) h []"

definition HeaderVariation :: "(string \<Rightarrow> string) \<Rightarrow> multimap \<Rightarrow> string" where
  "HeaderVariation sha h =
    (let vs = variationValues h in if vs = [] then [] else hex_encode (sha (values_encode vs)))"

definition RequestKeyGen ::
  "(string \<Rightarrow> string) \<Rightarrow> string \<Rightarrow> string \<Rightarrow> request \<Rightarrow> u64 \<Rightarrow> u64 \<Rightarrow> string" where
  "RequestKeyGen sha scope cls r scopeGen globalGen =
    (let key = ResponseKeyGen sha scope cls (Method r) (URLPath r) (url_query r)
                 (header_get (Header r) ''Accept'') scopeGen globalGen;
         variation = HeaderVariation sha (Header r)
     in if variation \<noteq> [] then key @ '':'' @ variation else key)"

section \<open>Request and response headers\<close>

definition forbidsStorage :: "string list \<Rightarrow> bool" where
  "forbidsStorage lines \<longleftrightarrow>
    (\<exists>line \<in> set lines. \<exists>directive \<in> set (split_on (CHR '','') line).
       let name = trim_space (before (CHR ''='') directive)
       in equal_fold name ''no-store'' \<or> equal_fold name ''no-cache'')"

definition RequestCacheable :: "request \<Rightarrow> duration option" where
  "RequestCacheable r =
    (case Cacheable (Method r) (URLPath r) of
       None \<Rightarrow> None
     | Some ttl \<Rightarrow>
         if ContentLength r > 0 \<or> header_get (Header r) ''Range'' \<noteq> [] \<or>
            header_get (Header r) ''Cookie'' \<noteq> [] \<or> header_get (Header r) ''Authorization'' \<noteq> []
         then None
         else if \<exists>e \<in> set (Header r). has_prefix (to_lower (fst e)) ''if-'' then None
         else if forbidsStorage (header_values (Header r) ''Cache-Control'') \<or>
                 contains (to_lower (header_get (Header r) ''Pragma'')) ''no-cache''
         then None else Some ttl)"

definition StorableResponse :: "multimap \<Rightarrow> bool" where
  "StorableResponse h \<longleftrightarrow>
    (let ce = trim_space (to_lower (header_get h ''Content-Encoding'')) in
     \<not> (ce \<noteq> [] \<and> ce \<noteq> ''identity'') \<and>
     \<not> (header_values h ''Set-Cookie'' \<noteq> [] \<or> forbidsStorage (header_values h ''Cache-Control'')) \<and>
     (\<forall>line \<in> set (header_values h ''Vary''). \<forall>name \<in> set (split_on (CHR '','') line).
        to_lower (trim_space name) \<in> {[], ''accept'', ''accept-encoding''}))"

definition safeHeaders :: "string list" where
  "safeHeaders = [''Etag'', ''Last-Modified'', ''Content-Language'', ''Vary'',
     ''X-Plex-Container-Start'', ''X-Plex-Container-Size'', ''X-Plex-Container-Total-Size'']"

fun join_comma :: "string list \<Rightarrow> string" where
  "join_comma [] = []"
| "join_comma [v] = v"
| "join_comma (v # vs) = v @ '', '' @ join_comma vs"

definition SafeHeaders :: "multimap \<Rightarrow> (string \<times> string) list" where
  "SafeHeaders h =
    fold (\<lambda>(k, vv) out.
      let canonical = canonical_header_key k in
      if canonical \<notin> set safeHeaders \<or> vv = [] then out
      else AList.update canonical (if canonical = ''Vary'' then join_comma vv else hd vv) out) h []"

section \<open>What is admitted\<close>

lemma fold_betterPrefix:
  "fold (betterPrefix p) es best = Some e \<Longrightarrow>
    best = Some e \<or> e \<in> set es \<and> has_prefix p (fst e) \<and> (has_suffix (fst e) ''/'' \<or> p = fst e)"
proof (induction es arbitrary: best)
  case (Cons a es)
  from Cons.IH [of "betterPrefix p a best"] Cons.prems show ?case
    by (auto simp: betterPrefix_def split: if_splits)
qed simp

lemma ttlByPrefix_entries:
  assumes "e \<in> set ttlByPrefix" "has_prefix p (fst e)" "has_suffix (fst e) ''/'' \<or> p = fst e"
  shows "second \<le> snd e \<and> snd e \<le> 5 * minute \<and>
    (p \<in> {''/library/sections'', ''/identity''} \<or>
     (\<exists>q \<in> {''/library/sections/'', ''/library/collections/'', ''/library/metadata/''}. prefix q p))"
proof -
  have "\<not> has_suffix ''/library/sections'' ''/''" "\<not> has_suffix ''/identity'' ''/''" by code_simp+
  with assms show ?thesis
    unfolding ttlByPrefix_def set_simps insert_iff empty_iff
    by (elim disjE) (simp_all add: has_prefix_def minute_def second_def)
qed

text \<open>
  Only reads of the library browse tree are admitted: a cacheable request is a GET whose
  path, lowered, is the section list or the identity document or lies under sections,
  collections or metadata, and no segment of it names a live feed or the \<^verbatim>\<open>:\<close> namespace
  (timeline, transcode, event streams). Lifetimes are between one and five minutes.
\<close>

theorem Cacheable_only_browse:
  assumes "Cacheable method path = Some ttl"
  shows "method = ''GET'' \<and> second \<le> ttl \<and> ttl \<le> 5 * minute \<and>
    (to_lower path \<in> {''/library/sections'', ''/identity''} \<or>
     (\<exists>p \<in> {''/library/sections/'', ''/library/collections/'', ''/library/metadata/''}.
        prefix p (to_lower path))) \<and>
    set (split_on (CHR ''/'') (to_lower path)) \<inter>
      {''hubs'', ''home'', ''ondeck'', ''continuewatching'', ''resume'', '':''} = {}"
proof -
  from assms have get: "method = ''GET''"
    and live: "\<not> (\<exists>part \<in> set (split_on (CHR ''/'') (to_lower path)). part \<in> set liveParts)"
    and best: "map_option snd (fold (betterPrefix (to_lower path)) ttlByPrefix None) = Some ttl"
    by (auto simp: Cacheable_def Let_def split: if_splits)
  from best obtain e where e: "fold (betterPrefix (to_lower path)) ttlByPrefix None = Some e" "snd e = ttl"
    by blast
  from fold_betterPrefix [OF e(1)] ttlByPrefix_entries [of e "to_lower path"] e(2)
  have "second \<le> ttl \<and> ttl \<le> 5 * minute \<and>
    (to_lower path \<in> {''/library/sections'', ''/identity''} \<or>
     (\<exists>p \<in> {''/library/sections/'', ''/library/collections/'', ''/library/metadata/''}.
        prefix p (to_lower path)))"
    by (metis option.distinct(1))
  moreover have "set (split_on (CHR ''/'') (to_lower path)) \<inter>
      {''hubs'', ''home'', ''ondeck'', ''continuewatching'', ''resume'', '':''} = {}"
    using live unfolding liveParts_def list.set by blast
  ultimately show ?thesis using get by blast
qed

section \<open>Keys separate users and generations\<close>

lemma normalizeRepresentation_no_colon: "CHR '':'' \<notin> set (normalizeRepresentation a)"
  by (simp add: normalizeRepresentation_def Let_def)

lemma ClassOf_no_colon: "CHR '':'' \<notin> set (ClassOf p)" and ClassOf_nonempty: "ClassOf p \<noteq> []"
  by (simp_all add: ClassOf_def Let_def)

text \<open>A key as a prefix of separated fields; only the tail is hashed.\<close>

lemma RequestKeyGen_fields:
  obtains rep tail where "CHR '':'' \<notin> set rep"
    "RequestKeyGen sha scope cls r g G =
      ''replx_edge:v4:default:'' @ (if cls = [] then ''browse'' else cls) @ CHR '':'' # scope @
        CHR '':'' # rep @ CHR '':'' # show_nat (unat g) @ CHR '':'' # show_nat (unat G) @ CHR '':'' # tail"
proof (rule that [OF normalizeRepresentation_no_colon])
  show "RequestKeyGen sha scope cls r g G =
      ''replx_edge:v4:default:'' @ (if cls = [] then ''browse'' else cls) @ CHR '':'' # scope @
        CHR '':'' # normalizeRepresentation (header_get (Header r) ''Accept'') @
        CHR '':'' # show_nat (unat g) @ CHR '':'' # show_nat (unat G) @ CHR '':'' #
        (digest16 sha (to_upper (Method r) @ NUL # URLPath r @ NUL # header_get (Header r) ''Accept'' @
           NUL # values_encode (canonicalQuery (url_query r))) @
         (if HeaderVariation sha (Header r) = [] then [] else CHR '':'' # HeaderVariation sha (Header r)))"
    unfolding RequestKeyGen_def ResponseKeyGen_def Let_def
    by (cases "HeaderVariation sha (Header r) = []")
       (simp_all only: if_True if_False append_Nil append_Cons append_assoc append_Nil2 simp_thms)
qed

lemma RequestKeyGen_scope:
  obtains tail where "RequestKeyGen sha scope (ClassOf p) r g G =
      ''replx_edge:v4:default:'' @ ClassOf p @ CHR '':'' # scope @ CHR '':'' # tail"
proof (rule RequestKeyGen_fields [of sha scope "ClassOf p" r g G])
  fix rep tail
  assume "RequestKeyGen sha scope (ClassOf p) r g G =
      ''replx_edge:v4:default:'' @ (if ClassOf p = [] then ''browse'' else ClassOf p) @ CHR '':'' # scope @
        CHR '':'' # rep @ CHR '':'' # show_nat (unat g) @ CHR '':'' # show_nat (unat G) @ CHR '':'' # tail"
  then show thesis
    unfolding if_not_P [OF ClassOf_nonempty] by (rule that)
qed

text \<open>
  C7. Keys of two users never coincide, whatever the requests, the generations and the hash
  function: the scope field of the key determines the identity.
\<close>

theorem RequestKeyGen_isolates_users:
  assumes "u \<noteq> u'" "CHR '':'' \<notin> set u" "CHR '':'' \<notin> set u'"
  shows "RequestKeyGen sha (UserScope u) (ClassOf p) r g G \<noteq>
    RequestKeyGen sha (UserScope u') (ClassOf p') r' g' G'"
proof
  assume eq: "RequestKeyGen sha (UserScope u) (ClassOf p) r g G =
    RequestKeyGen sha (UserScope u') (ClassOf p') r' g' G'"
  obtain t where k: "RequestKeyGen sha (UserScope u) (ClassOf p) r g G =
      ''replx_edge:v4:default:'' @ ClassOf p @ CHR '':'' # UserScope u @ CHR '':'' # t"
    by (rule RequestKeyGen_scope)
  obtain t' where k': "RequestKeyGen sha (UserScope u') (ClassOf p') r' g' G' =
      ''replx_edge:v4:default:'' @ ClassOf p' @ CHR '':'' # UserScope u' @ CHR '':'' # t'"
    by (rule RequestKeyGen_scope)
  have "ClassOf p @ CHR '':'' # UserScope u @ CHR '':'' # t =
      ClassOf p' @ CHR '':'' # UserScope u' @ CHR '':'' # t'"
    using eq unfolding k k' by (simp only: same_append_eq)
  then have "UserScope u @ CHR '':'' # t = UserScope u' @ CHR '':'' # t'"
    by (rule append_sep_inject [THEN conjunct2, OF _ ClassOf_no_colon ClassOf_no_colon])
  then have "u @ CHR '':'' # t = u' @ CHR '':'' # t'"
    by (simp add: UserScope_def)
  then have "u = u'" by (rule append_sep_inject [THEN conjunct1, OF _ assms(2,3)])
  with assms(1) show False ..
qed

text \<open>Within one scope and class the key determines both generations.\<close>

lemma RequestKeyGen_generations:
  assumes "RequestKeyGen sha scope cls r g G = RequestKeyGen sha scope cls r' g' G'"
  shows "g = g' \<and> G = G'"
proof -
  obtain rep t where k: "CHR '':'' \<notin> set rep" "RequestKeyGen sha scope cls r g G =
      ''replx_edge:v4:default:'' @ (if cls = [] then ''browse'' else cls) @ CHR '':'' # scope @
        CHR '':'' # rep @ CHR '':'' # show_nat (unat g) @ CHR '':'' # show_nat (unat G) @ CHR '':'' # t"
    by (rule RequestKeyGen_fields)
  obtain rep' t' where k': "CHR '':'' \<notin> set rep'" "RequestKeyGen sha scope cls r' g' G' =
      ''replx_edge:v4:default:'' @ (if cls = [] then ''browse'' else cls) @ CHR '':'' # scope @
        CHR '':'' # rep' @ CHR '':'' # show_nat (unat g') @ CHR '':'' # show_nat (unat G') @ CHR '':'' # t'"
    by (rule RequestKeyGen_fields)
  from assms have "rep @ CHR '':'' # show_nat (unat g) @ CHR '':'' # show_nat (unat G) @ CHR '':'' # t =
      rep' @ CHR '':'' # show_nat (unat g') @ CHR '':'' # show_nat (unat G') @ CHR '':'' # t'"
    unfolding k(2) k'(2) by (simp only: same_append_eq list.inject simp_thms)
  then have "show_nat (unat g) @ CHR '':'' # show_nat (unat G) @ CHR '':'' # t =
      show_nat (unat g') @ CHR '':'' # show_nat (unat G') @ CHR '':'' # t'"
    by (rule append_sep_inject [THEN conjunct2, OF _ k(1) k'(1)])
  note gens = append_sep_inject [OF this colon_not_in_show_nat colon_not_in_show_nat]
  note global = append_sep_inject [OF gens [THEN conjunct2] colon_not_in_show_nat colon_not_in_show_nat]
  show ?thesis using gens global by (simp only: show_nat_inject word_unat_eq_iff simp_thms)
qed

section \<open>Credentials do not enter keys\<close>

lemma variationValues_filter:
  "variationValues h = fold (\<lambda>e. AList.update (to_lower (fst e)) (snd e)) (filter variesBy h) []"
proof -
  have "fold (\<lambda>e vs. if variesBy e then AList.update (to_lower (fst e)) (snd e) vs else vs) h acc =
      fold (\<lambda>e. AList.update (to_lower (fst e)) (snd e)) (filter variesBy h) acc" for acc
    by (induction h arbitrary: acc) simp_all
  then show ?thesis by (simp add: variationValues_def)
qed

lemma filter_update_skipped:
  "(\<And>v. \<not> P (k, v)) \<Longrightarrow> filter P (AList.update k v h) = filter P h"
  by (induction h) auto

lemma token_header_skipped: "\<not> variesBy (''X-Plex-Token'', v)"
proof -
  have "to_lower ''X-Plex-Token'' = ''x-plex-token''" by code_simp
  then show ?thesis by (simp add: variesBy_def)
qed

lemma map_of_canonicalQuery:
  "map_of (canonicalQuery q) k = (if to_lower k \<in> set secretParams then None else map_of q k)"
  by (simp add: canonicalQuery_def map_of_filter_key)

text \<open>
  C8. Rotating a credential keeps every entry reachable: two requests that differ only in the
  value of the token header and in the token parameters of the query have the same key.
\<close>

theorem RequestKeyGen_ignores_credentials:
  assumes "Method r' = Method r" "URLPath r' = URLPath r"
    and header: "Header r' = AList.update ''X-Plex-Token'' [t] (Header r)"
    and query: "\<And>k. to_lower k \<notin> set secretParams \<Longrightarrow> map_of (url_query r') k = map_of (url_query r) k"
  shows "RequestKeyGen sha scope cls r' g G = RequestKeyGen sha scope cls r g G"
proof -
  have "HeaderVariation sha (Header r') = HeaderVariation sha (Header r)"
    unfolding HeaderVariation_def variationValues_filter header
    by (simp only: filter_update_skipped [of variesBy "''X-Plex-Token''", OF token_header_skipped])
  moreover have "header_get (Header r') ''Accept'' = header_get (Header r) ''Accept''"
    by (simp add: header header_get_def values_get_def map_of_update)
  moreover have "values_encode (canonicalQuery (url_query r')) = values_encode (canonicalQuery (url_query r))"
  proof (rule values_encode_cong)
    show "wf_map (canonicalQuery (url_query r'))" "wf_map (canonicalQuery (url_query r))"
      by (simp_all add: canonicalQuery_def url_query_def wf_map_parse_query)
    show "map_of (canonicalQuery (url_query r')) = map_of (canonicalQuery (url_query r))"
      by (rule ext) (use query in \<open>simp add: map_of_canonicalQuery\<close>)
  qed
  ultimately show ?thesis
    unfolding RequestKeyGen_def ResponseKeyGen_def assms(1,2) by presburger
qed

section \<open>Witnesses\<close>

theorem Cacheable_only_browse_witness:
  "Cacheable ''GET'' ''/library/metadata/42'' = Some (5 * minute) \<and>
   (to_lower ''/library/metadata/42'' \<in> {''/library/sections'', ''/identity''} \<or>
     (\<exists>p \<in> {''/library/sections/'', ''/library/collections/'', ''/library/metadata/''}.
        prefix p (to_lower ''/library/metadata/42'')))"
proof -
  have "Cacheable ''GET'' ''/library/metadata/42'' = Some (5 * minute)" by code_simp
  with Cacheable_only_browse [OF this] show ?thesis by blast
qed

definition exRequest :: request where
  "exRequest = \<lparr>Method = ''GET'', URLHost = ''edge'', URLPath = ''/library/sections/1/all'',
     RawQuery = ''X-Plex-Token=abc&type=1'',
     Header = [(''Accept'', [''application/json'']), (''X-Plex-Token'', [''abc''])],
     ContentLength = 0, RemoteAddr = ''10.0.0.7:5000'', ReqBody = []\<rparr>"

definition exRotated :: request where
  "exRotated = exRequest\<lparr>RawQuery := ''X-Plex-Token=xyz&type=1'',
     Header := AList.update ''X-Plex-Token'' [''xyz''] (Header exRequest)\<rparr>"

theorem RequestKeyGen_isolates_users_witness:
  "RequestKeyGen id (UserScope ''a1'') (ClassOf ''/identity'') exRequest 0 0 \<noteq>
    RequestKeyGen id (UserScope ''b2'') (ClassOf ''/identity'') exRotated 0 0"
  by (rule RequestKeyGen_isolates_users) simp_all

theorem RequestKeyGen_ignores_credentials_witness:
  "RequestKeyGen id (UserScope ''a1'') ''sections'' exRotated 3 1 =
    RequestKeyGen id (UserScope ''a1'') ''sections'' exRequest 3 1"
proof (rule RequestKeyGen_ignores_credentials)
  show "Header exRotated = AList.update ''X-Plex-Token'' [''xyz''] (Header exRequest)"
    by (simp add: exRotated_def)
  fix k assume k: "to_lower k \<notin> set secretParams"
  have q: "url_query exRotated = [(''X-Plex-Token'', [''xyz'']), (''type'', [''1''])]"
    "url_query exRequest = [(''X-Plex-Token'', [''abc'']), (''type'', [''1''])]" by code_simp+
  have "to_lower ''X-Plex-Token'' \<in> set secretParams" by code_simp
  with k have "k \<noteq> ''X-Plex-Token''" by blast
  then show "map_of (url_query exRotated) k = map_of (url_query exRequest) k"
    unfolding q by simp
qed (simp_all add: exRotated_def)

end
