(* ===== verification/Cache_Entry.thy ===== *)
theory Cache_Entry
  imports Cache_Keys "HOL-Library.Monad_Syntax"
begin

text \<open>
  The binary form of a cached response (\<^verbatim>\<open>Entry\<close>, \<^verbatim>\<open>Marshal\<close> and \<^verbatim>\<open>Unmarshal\<close> of
  \<^verbatim>\<open>internal/cache/cache.go\<close>). A decoder returns \<open>None\<close> where a Go slice expression would
  panic, \<open>Some (Inl msg)\<close> for an error and \<open>Some (Inr e)\<close> for an entry, so that the
  absence of panics is a theorem. The lemmas show that decoding is total on arbitrary
  bytes, lets only allowlisted headers through, and inverts encoding.
\<close>

section \<open>Slices and 32-bit numbers\<close>

text \<open>\<^verbatim>\<open>b[i:j]\<close>, with the panic of an index out of range.\<close>

definition slice :: "string \<Rightarrow> nat \<Rightarrow> nat \<Rightarrow> string option" where
  "slice b i j = (if i \<le> j \<and> j \<le> length b then Some (take (j - i) (drop i b)) else None)"

definition putUint32 :: "nat \<Rightarrow> string" where
  "putUint32 n = [char_of (n div 2 ^ 24), char_of (n div 2 ^ 16), char_of (n div 2 ^ 8), char_of n]"

fun be32 :: "string \<Rightarrow> nat" where
  "be32 [a, b, c, d] = ((of_char a * 256 + of_char b) * 256 + of_char c) * 256 + of_char d"
| "be32 _ = 0"

lemma length_putUint32 [simp]: "length (putUint32 n) = 4"
  by (simp add: putUint32_def)

lemma be32_putUint32:
  assumes "n < 2 ^ 32"
  shows "be32 (putUint32 n) = n"
proof -
  define q where "q = n div 256"
  define q' where "q' = q div 256"
  define q'' where "q'' = q' div 256"
  have "n div 2 ^ 8 = q" "n div 2 ^ 16 = q'" "n div 2 ^ 24 = q''"
    by (simp_all add: q_def q'_def q''_def div_mult2_eq [symmetric])
  moreover have "q'' mod 256 = q''"
    using assms by (simp add: q_def q'_def q''_def div_mult2_eq [symmetric])
  moreover have "q'' * 256 + q' mod 256 = q'" "q' * 256 + q mod 256 = q" "q * 256 + n mod 256 = n"
    by (simp_all add: q_def q'_def q''_def)
  ultimately show ?thesis
    unfolding putUint32_def be32.simps by (simp only: of_char_of)
qed

section \<open>Entries\<close>

record Entry =
  Status :: nat
  ContentType :: string
  Headers :: "(string \<times> string) list"
  Body :: string

definition MaxEntryBytes :: nat where
  "MaxEntryBytes = 2 * 2 ^ 20"

definition headerField :: "(string \<times> string) list \<Rightarrow> string \<Rightarrow> string" where
  "headerField h k = (case map_of h k of Some v \<Rightarrow> v | None \<Rightarrow> [])"

definition headerBytes :: "(string \<times> string) list \<Rightarrow> string" where
  "headerBytes h = concat (map (\<lambda>k. k @ NUL # headerField h k @ [NUL]) (sort (map fst h)))"

definition Marshal :: "Entry \<Rightarrow> string + string" where
  "Marshal e =
    (if length (Body e) > MaxEntryBytes then Inl ''cache: body exceeds the entry cap''
     else let hraw = headerBytes (Headers e) in
       Inr (CHR 0x02 # putUint32 (Status e) @ putUint32 (length (ContentType e)) @ ContentType e @
            putUint32 (length hraw) @ hraw @ Body e))"

definition unmarshalV1 :: "string \<Rightarrow> (string + Entry) option" where
  "unmarshalV1 b =
    (if length b < 9 then Some (Inl ''cache: truncated v1 entry'')
     else do {
       st \<leftarrow> slice b 1 5;
       cl \<leftarrow> slice b 5 9;
       (let clen = be32 cl in
        if length b < 9 + clen then Some (Inl ''cache: truncated v1 content type'')
        else do {
          ct \<leftarrow> slice b 9 (9 + clen);
          body \<leftarrow> slice b (9 + clen) (length b);
          Some (Inr \<lparr>Status = be32 st, ContentType = ct, Headers = [], Body = body\<rparr>)
        })
     })"

text \<open>The pairs are filtered again when they are read.\<close>

fun readPairs :: "string list \<Rightarrow> (string \<times> string) list \<Rightarrow> (string \<times> string) list" where
  "readPairs (k # v # parts) h =
    readPairs parts (if k \<in> set safeHeaders then AList.update k v h else h)"
| "readPairs _ h = h"

definition unmarshalV2 :: "string \<Rightarrow> (string + Entry) option" where
  "unmarshalV2 b =
    (if length b < 13 then Some (Inl ''cache: truncated v2 entry'')
     else do {
       st \<leftarrow> slice b 1 5;
       cl \<leftarrow> slice b 5 9;
       (let clen = be32 cl in
        if length b < 13 + clen then Some (Inl ''cache: truncated v2 content type'')
        else do {
          ct \<leftarrow> slice b 9 (9 + clen);
          rest \<leftarrow> slice b (9 + clen) (length b);
          hl \<leftarrow> slice rest 0 4;
          (let hlen = be32 hl in
           if length rest < 4 + hlen then Some (Inl ''cache: truncated v2 headers'')
           else do {
             hraw \<leftarrow> slice rest 4 (4 + hlen);
             body \<leftarrow> slice rest (4 + hlen) (length rest);
             Some (Inr \<lparr>Status = be32 st, ContentType = ct,
                        Headers = readPairs (split_on NUL hraw) [], Body = body\<rparr>)
           })
        })
     })"

definition Unmarshal :: "string \<Rightarrow> (string + Entry) option" where
  "Unmarshal b =
    (case b of
       [] \<Rightarrow> Some (Inl ''cache: empty entry'')
     | v # _ \<Rightarrow> if v = CHR 0x01 then unmarshalV1 b else if v = CHR 0x02 then unmarshalV2 b
               else Some (Inl ''cache: bad version''))"

section \<open>Decoding is total\<close>

lemma slice_Some: "i \<le> j \<Longrightarrow> j \<le> length b \<Longrightarrow> slice b i j = Some (take (j - i) (drop i b))"
  by (simp add: slice_def)

lemma unmarshalV1_total: "\<exists>x. unmarshalV1 b = Some x"
  by (simp add: unmarshalV1_def slice_Some Let_def)

lemma unmarshalV2_total: "\<exists>x. unmarshalV2 b = Some x"
  by (simp add: unmarshalV2_def slice_Some Let_def)

lemma readPairs_allowlisted:
  "fst ` set (readPairs parts h) \<subseteq> fst ` set h \<union> set safeHeaders"
  "wf_map h \<Longrightarrow> wf_map (readPairs parts h)"
proof (induction parts h rule: readPairs.induct)
  case (1 k v parts h)
  {
    case 1
    show ?case using "1.IH"(1) by (simp split: if_splits) blast
  next
    case 2
    then show ?case using "1.IH"(2) by simp
  }
qed auto

text \<open>
  C9. Decoding never panics: on every byte string it ends in an error or an entry. An entry
  that comes out carries only allowlisted response headers, so a stored value cannot
  smuggle a cookie or a credential header to a client, and its body is a suffix of the
  stored bytes.
\<close>

theorem Unmarshal_total_and_safe:
  "case Unmarshal b of
     None \<Rightarrow> False
   | Some (Inl _) \<Rightarrow> True
   | Some (Inr e) \<Rightarrow> fst ` set (Headers e) \<subseteq> set safeHeaders \<and> wf_map (Headers e) \<and> suffix (Body e) b"
proof -
  have v1: "fst ` set (Headers e) \<subseteq> set safeHeaders \<and> wf_map (Headers e) \<and> suffix (Body e) b"
    if "unmarshalV1 b = Some (Inr e)" for e
    using that by (auto simp: unmarshalV1_def slice_def Let_def suffix_drop split: if_splits)
  have v2: "fst ` set (Headers e) \<subseteq> set safeHeaders \<and> wf_map (Headers e) \<and> suffix (Body e) b"
    if "unmarshalV2 b = Some (Inr e)" for e
  proof -
    from that obtain hraw i j where e: "Headers e = readPairs (split_on NUL hraw) []"
      "Body e = drop i (drop j b)"
      by (auto simp: unmarshalV2_def slice_def Let_def simp del: drop_drop split: if_splits)
    then show ?thesis
      using readPairs_allowlisted(1) [of "split_on NUL hraw" "[]"]
        readPairs_allowlisted(2) [of "[]" "split_on NUL hraw"] by (simp add: suffix_drop)
  qed
  show ?thesis
    using unmarshalV1_total [of b] unmarshalV2_total [of b] v1 v2
    by (auto simp: Unmarshal_def split: list.split sum.splits)
qed

section \<open>Decoding inverts encoding\<close>

text \<open>What the fill path stores: allowlisted header names, and values without NUL bytes.\<close>

definition wf_headers :: "(string \<times> string) list \<Rightarrow> bool" where
  "wf_headers h \<longleftrightarrow> wf_map h \<and> (\<forall>(k, v) \<in> set h. k \<in> set safeHeaders \<and> NUL \<notin> set v)"

lemma NUL_not_in_safeHeaders: "k \<in> set safeHeaders \<Longrightarrow> NUL \<notin> set k"
  by (auto simp: safeHeaders_def)

lemma split_on_pairs:
  assumes "\<forall>k \<in> set ks. NUL \<notin> set k \<and> NUL \<notin> set (f k)"
  shows "split_on NUL (concat (map (\<lambda>k. k @ NUL # f k @ [NUL]) ks)) =
    concat (map (\<lambda>k. [k, f k]) ks) @ [[]]"
  using assms
proof (induction ks)
  case (Cons k ks)
  have "concat (map (\<lambda>k. k @ NUL # f k @ [NUL]) (k # ks)) =
      k @ NUL # f k @ NUL # concat (map (\<lambda>k. k @ NUL # f k @ [NUL]) ks)" by simp
  with Cons show ?case by (simp add: split_on_append split_on_no_sep)
qed simp

lemma readPairs_concat:
  "set ks \<subseteq> set safeHeaders \<Longrightarrow>
    readPairs (concat (map (\<lambda>k. [k, f k]) ks) @ [[]]) h = fold (\<lambda>k. AList.update k (f k)) ks h"
  by (induction ks arbitrary: h) simp_all

lemma map_of_fold_update:
  "map_of (fold (\<lambda>k. AList.update k (f k)) ks h) k = (if k \<in> set ks then Some (f k) else map_of h k)"
  by (induction ks arbitrary: h) (auto simp: map_of_update)

lemma readPairs_headerBytes:
  assumes "wf_headers h"
  shows "map_of (readPairs (split_on NUL (headerBytes h)) []) = map_of h"
proof -
  let ?ks = "sort (map fst h)" and ?f = "headerField h"
  have field: "?f k = v" if "(k, v) \<in> set h" for k v
    using assms that by (simp add: headerField_def wf_headers_def wf_map_def)
  have keys: "set ?ks \<subseteq> set safeHeaders"
    using assms by (auto simp: wf_headers_def)
  have "\<forall>k \<in> set ?ks. NUL \<notin> set k \<and> NUL \<notin> set (?f k)"
    using assms field by (force simp: wf_headers_def dest: NUL_not_in_safeHeaders)
  then have "readPairs (split_on NUL (headerBytes h)) [] = fold (\<lambda>k. AList.update k (?f k)) ?ks []"
    unfolding headerBytes_def by (simp only: split_on_pairs readPairs_concat [OF keys])
  moreover have "(if k \<in> set ?ks then Some (?f k) else None) = map_of h k" for k
  proof -
    have "k \<in> set ?ks \<longleftrightarrow> map_of h k \<noteq> None" by (simp add: map_of_eq_None_iff)
    then show ?thesis by (auto simp: headerField_def)
  qed
  ultimately show ?thesis by (intro ext) (simp only: map_of_fold_update map_of.simps)
qed

lemma unmarshalV2_fields:
  assumes "length ct < 2 ^ 32" "length hraw < 2 ^ 32" "st < 2 ^ 32"
  shows "unmarshalV2 (CHR 0x02 # putUint32 st @ putUint32 (length ct) @ ct @ putUint32 (length hraw) @ hraw @ bd) =
    Some (Inr \<lparr>Status = st, ContentType = ct, Headers = readPairs (split_on NUL hraw) [], Body = bd\<rparr>)"
proof -
  let ?b = "CHR 0x02 # putUint32 st @ putUint32 (length ct) @ ct @ putUint32 (length hraw) @ hraw @ bd"
  let ?rest = "putUint32 (length hraw) @ hraw @ bd"
  have "slice ?b 1 5 = Some (putUint32 st)" "slice ?b 5 9 = Some (putUint32 (length ct))"
    "slice ?b 9 (9 + length ct) = Some ct" "slice ?b (9 + length ct) (length ?b) = Some ?rest"
    by (simp_all add: slice_def add.commute [of 9] drop_drop [symmetric] del: drop_drop)
  moreover have "slice ?rest 0 4 = Some (putUint32 (length hraw))"
    "slice ?rest 4 (4 + length hraw) = Some hraw" "slice ?rest (4 + length hraw) (length ?rest) = Some bd"
    by (simp_all add: slice_def add.commute [of 4] drop_drop [symmetric] del: drop_drop)
  ultimately show ?thesis
    using assms by (simp add: unmarshalV2_def be32_putUint32)
qed

lemma Unmarshal_inverts_Marshal:
  assumes "length (Body e) \<le> MaxEntryBytes" "wf_headers (Headers e)"
    and "Status e < 2 ^ 32" "length (ContentType e) < 2 ^ 32" "length (headerBytes (Headers e)) < 2 ^ 32"
  shows "\<exists>b e'. Marshal e = Inr b \<and> Unmarshal b = Some (Inr e') \<and> Status e' = Status e \<and>
    ContentType e' = ContentType e \<and> Body e' = Body e \<and> map_of (Headers e') = map_of (Headers e)"
proof -
  let ?h = "headerBytes (Headers e)"
  let ?b = "CHR 0x02 # putUint32 (Status e) @ putUint32 (length (ContentType e)) @ ContentType e @
    putUint32 (length ?h) @ ?h @ Body e"
  have "Marshal e = Inr ?b" using assms(1) by (simp add: Marshal_def Let_def)
  moreover have "Unmarshal ?b = Some (Inr \<lparr>Status = Status e, ContentType = ContentType e,
      Headers = readPairs (split_on NUL ?h) [], Body = Body e\<rparr>)"
    by (simp add: Unmarshal_def unmarshalV2_fields [OF assms(4,5,3)])
  ultimately show ?thesis using readPairs_headerBytes [OF assms(2)] by auto
qed

text \<open>
  C10. Decoding inverts encoding: an entry within the size cap, with allowlisted headers, comes
  back with the same status, content type and body and the same header map.
\<close>

theorem Unmarshal_Marshal:
  assumes "length (Body e) \<le> MaxEntryBytes" "wf_headers (Headers e)"
    and "Status e < 2 ^ 32" "length (ContentType e) < 2 ^ 32" "length (headerBytes (Headers e)) < 2 ^ 32"
  shows "\<exists>b e'. Marshal e = Inr b \<and> Unmarshal b = Some (Inr e') \<and> Status e' = Status e \<and>
    ContentType e' = ContentType e \<and> Body e' = Body e \<and> map_of (Headers e') = map_of (Headers e)"
  by (rule Unmarshal_inverts_Marshal [OF assms])

section \<open>Witness\<close>

definition exEntry :: Entry where
  "exEntry = \<lparr>Status = 200, ContentType = ''application/json'',
     Headers = [(''Vary'', ''Accept''), (''Etag'', ''w1'')], Body = ''[1,2]''\<rparr>"

theorem Unmarshal_Marshal_witness:
  "\<exists>b e'. Marshal exEntry = Inr b \<and> Unmarshal b = Some (Inr e') \<and> Status e' = Status exEntry \<and>
    ContentType e' = ContentType exEntry \<and> Body e' = Body exEntry \<and>
    map_of (Headers e') = map_of (Headers exEntry)"
proof (rule Unmarshal_Marshal)
  have "headerBytes (Headers exEntry) =
      ''Etag'' @ NUL # ''w1'' @ NUL # ''Vary'' @ NUL # ''Accept'' @ [NUL]" by code_simp
  then show "length (headerBytes (Headers exEntry)) < 2 ^ 32" by simp
qed (simp_all add: exEntry_def MaxEntryBytes_def wf_headers_def wf_map_def safeHeaders_def)

end
