(* ===== verification/Generations.thy ===== *)
theory Generations
  imports Cache_Keys
begin

text \<open>
  Invalidation generations (\<^verbatim>\<open>internal/cache/generations.go\<close>, \<^verbatim>\<open>generations_memory.go\<close>, the
  \<^verbatim>\<open>Generations\<close> registry of \<^verbatim>\<open>cache.go\<close>, and the table of \<^verbatim>\<open>migrations/0007\<close> and
  \<^verbatim>\<open>0011\<close>). A response key carries a scope/class generation and a global one; bumping a
  counter retires every key of its namespace. The contract of a store is the locale
  \<open>generation_store\<close>, interpreted for the in-memory and the Postgres store; its client
  theorem is that a key computed before an invalidation is never computed again after it.
\<close>

unbundle bit_operations_syntax

section \<open>Saturating sums\<close>

fun saturatedAddFrom :: "u64 \<Rightarrow> u64 list \<Rightarrow> u64" where
  "saturatedAddFrom acc [] = acc"
| "saturatedAddFrom acc (v # vs) =
    (if NOT 0 - acc < v then NOT 0 else saturatedAddFrom (acc + v) vs)"

definition saturatedAdd :: "u64 list \<Rightarrow> u64" where
  "saturatedAdd values = saturatedAddFrom 0 values"

abbreviation "maxU64 \<equiv> (2 ^ 64 - 1 :: nat)"

lemma saturatedAddFrom_eq:
  "unat (saturatedAddFrom acc vs) = min maxU64 (unat acc + sum_list (map unat vs))"
proof (induction vs arbitrary: acc)
  case Nil
  show ?case using unat_u64_less [of acc] by simp
next
  case (Cons v vs)
  have t: "unat acc \<le> maxU64" using unat_u64_less [of acc] by simp
  have diff: "unat (NOT 0 - acc) = maxU64 - unat acc"
    by (simp add: unat_sub word_le_nat_alt unat_u64_max t [simplified])
  show ?case
  proof (cases "NOT 0 - acc < v")
    case True
    then have "maxU64 - unat acc < unat v" by (simp only: word_less_nat_alt diff)
    then show ?thesis using True by (simp add: unat_u64_max)
  next
    case False
    then have le: "unat acc + unat v < 2 ^ 64" using t by (simp only: word_less_nat_alt diff) simp
    show ?thesis using False Cons.IH unat_u64_add [OF le] by simp
  qed
qed

lemma saturatedAdd_eq: "unat (saturatedAdd vs) = min maxU64 (sum_list (map unat vs))"
  by (simp add: saturatedAdd_def saturatedAddFrom_eq)

section \<open>The in-memory store\<close>

text \<open>
  Counters are Go maps that are only read and incremented, so a partial function with
  default 0 is enough; \<open>++\<close> on \<^verbatim>\<open>uint64\<close> is \<open>+ 1\<close> on \<open>u64\<close> and wraps. \<open>ctxErr\<close> says whether
  the context of the call is already done.
\<close>

definition counter :: "('k \<Rightarrow> u64 option) \<Rightarrow> 'k \<Rightarrow> u64" where
  "counter m k = (case m k of Some n \<Rightarrow> n | None \<Rightarrow> 0)"

definition increment :: "('k \<Rightarrow> u64 option) \<Rightarrow> 'k \<Rightarrow> ('k \<Rightarrow> u64 option)" where
  "increment m k = m(k \<mapsto> counter m k + 1)"

lemma counter_increment:
  "counter (increment m k) k' = (if k' = k then counter m k + 1 else counter m k')"
  by (simp add: counter_def increment_def)

record MemoryGenerationStore =
  scopes :: "string \<Rightarrow> u64 option"
  classes :: "string \<Rightarrow> u64 option"
  global :: u64
  serverClasses :: "string \<Rightarrow> u64 option"

definition NewMemoryGenerationStore :: MemoryGenerationStore where
  "NewMemoryGenerationStore =
    \<lparr>scopes = Map.empty, classes = Map.empty, global = 0, serverClasses = Map.empty\<rparr>"

definition orBrowse :: "string \<Rightarrow> string" where
  "orBrowse cls = (if cls = [] then ''browse'' else cls)"

definition MemGet :: "bool \<Rightarrow> MemoryGenerationStore \<Rightarrow> string \<Rightarrow> string \<Rightarrow> (u64 \<times> u64) option" where
  "MemGet ctxErr g scope cls =
    (if ctxErr then None
     else let cls = orBrowse cls in
       Some (saturatedAdd [counter (scopes g) scope, counter (classes g) (scope @ NUL # cls),
               counter (serverClasses g) cls], global g))"

definition MemBump :: "bool \<Rightarrow> string \<Rightarrow> string \<Rightarrow> MemoryGenerationStore \<Rightarrow> MemoryGenerationStore option" where
  "MemBump ctxErr scope cls g =
    (if ctxErr then None else if scope = [] then Some g
     else Some (g\<lparr>classes := increment (classes g) (scope @ NUL # orBrowse cls)\<rparr>))"

definition MemBumpScope :: "bool \<Rightarrow> string \<Rightarrow> MemoryGenerationStore \<Rightarrow> MemoryGenerationStore option" where
  "MemBumpScope ctxErr scope g =
    (if ctxErr then None else if scope = [] then Some g
     else Some (g\<lparr>scopes := increment (scopes g) scope\<rparr>))"

definition MemBumpAll :: "bool \<Rightarrow> MemoryGenerationStore \<Rightarrow> MemoryGenerationStore option" where
  "MemBumpAll ctxErr g = (if ctxErr then None else Some (g\<lparr>global := global g + 1\<rparr>))"

definition MemBumpServerClass :: "bool \<Rightarrow> string \<Rightarrow> MemoryGenerationStore \<Rightarrow> MemoryGenerationStore option" where
  "MemBumpServerClass ctxErr cls g =
    (if ctxErr then None else if cls = [] then Some g
     else Some (g\<lparr>serverClasses := increment (serverClasses g) cls\<rparr>))"

section \<open>The Postgres store\<close>

text \<open>
  The rows of \<^verbatim>\<open>cache_generations\<close> for all servers, and whether the database answers. A bump
  is an upsert: it fails on a violated check constraint or when the \<^verbatim>\<open>bigint\<close> would
  overflow, and then changes nothing.
\<close>

type_synonym genRows = "string \<times> string \<times> string \<Rightarrow> int option"

record PostgresGenerations =
  rows :: genRows
  available :: bool
  server :: string

definition NewPostgresGenerations :: "genRows \<Rightarrow> bool \<Rightarrow> string \<Rightarrow> PostgresGenerations" where
  "NewPostgresGenerations db up serverID =
    \<lparr>rows = db, available = up, server = (if serverID = [] then ''default'' else serverID)\<rparr>"

definition PgLoad :: "PostgresGenerations \<Rightarrow> PostgresGenerations option" where
  "PgLoad g =
    (if \<not> available g then None
     else let k = (server g, [], []) in
       Some (g\<lparr>rows := (case rows g k of None \<Rightarrow> (rows g)(k \<mapsto> 0) | Some _ \<Rightarrow> rows g)\<rparr>))"

definition generationScopeHash :: "(string \<Rightarrow> string) \<Rightarrow> string \<Rightarrow> string" where
  "generationScopeHash sha scope = hex_encode (sha scope)"

definition coalesce :: "genRows \<Rightarrow> string \<times> string \<times> string \<Rightarrow> u64" where
  "coalesce rs k = (case rs k of Some n \<Rightarrow> of_int n | None \<Rightarrow> 0)"

definition PgGet ::
  "(string \<Rightarrow> string) \<Rightarrow> PostgresGenerations \<Rightarrow> string \<Rightarrow> string \<Rightarrow> (u64 \<times> u64) option" where
  "PgGet sha g scope cls =
    (if \<not> available g then None
     else let cls = orBrowse cls; h = generationScopeHash sha scope; s = server g in
       Some (saturatedAdd [coalesce (rows g) (s, h, []), coalesce (rows g) (s, h, cls),
               coalesce (rows g) (s, [], cls)], coalesce (rows g) (s, [], [])))"

definition classPattern :: "string \<Rightarrow> bool" where
  "classPattern cls \<longleftrightarrow>
    (case cls of [] \<Rightarrow> False
     | c # cs \<Rightarrow>
         (let lower = (\<lambda>c. 97 \<le> (of_char c :: nat) \<and> (of_char c :: nat) \<le> 122) in
          lower c \<and> length cs \<le> 31 \<and>
          list_all (\<lambda>c. lower c \<or> digit_val c \<noteq> None \<or> c = CHR ''_'' \<or> c = CHR ''-'') cs))"

definition hashPattern :: "string \<Rightarrow> bool" where
  "hashPattern h \<longleftrightarrow> length h = 64 \<and>
     list_all (\<lambda>c. digit_val c \<noteq> None \<or> 97 \<le> (of_char c :: nat) \<and> (of_char c :: nat) \<le> 102) h"

definition scopeClassCheck :: "string \<Rightarrow> string \<Rightarrow> bool" where
  "scopeClassCheck h cls \<longleftrightarrow>
    h = [] \<and> cls = [] \<or> h = [] \<and> classPattern cls \<or> hashPattern h \<and> (cls = [] \<or> classPattern cls)"

definition pgBump :: "string \<Rightarrow> string \<Rightarrow> PostgresGenerations \<Rightarrow> PostgresGenerations option" where
  "pgBump h cls g =
    (if \<not> available g \<or> \<not> scopeClassCheck h cls then None
     else let k = (server g, h, cls) in
       case rows g k of
         None \<Rightarrow> Some (g\<lparr>rows := (rows g)(k \<mapsto> 1)\<rparr>)
       | Some n \<Rightarrow> if n + 1 < 2 ^ 63 then Some (g\<lparr>rows := (rows g)(k \<mapsto> n + 1)\<rparr>) else None)"

definition PgBump ::
  "(string \<Rightarrow> string) \<Rightarrow> string \<Rightarrow> string \<Rightarrow> PostgresGenerations \<Rightarrow> PostgresGenerations option" where
  "PgBump sha scope cls g =
    (if scope = [] then Some g else pgBump (generationScopeHash sha scope) (orBrowse cls) g)"

definition PgBumpScope ::
  "(string \<Rightarrow> string) \<Rightarrow> string \<Rightarrow> PostgresGenerations \<Rightarrow> PostgresGenerations option" where
  "PgBumpScope sha scope g =
    (if scope = [] then Some g else pgBump (generationScopeHash sha scope) [] g)"

definition PgBumpAll :: "PostgresGenerations \<Rightarrow> PostgresGenerations option" where
  "PgBumpAll g = pgBump [] [] g"

definition PgBumpServerClass :: "string \<Rightarrow> PostgresGenerations \<Rightarrow> PostgresGenerations option" where
  "PgBumpServerClass cls g = (if cls = [] then None else pgBump [] cls g)"

section \<open>The contract\<close>

datatype bump_op = OpBump string string | OpBumpScope string | OpBumpAll | OpBumpServerClass string

text \<open>Which namespaces \<open>(scope, class)\<close> an invalidation retires.\<close>

fun retires :: "bump_op \<Rightarrow> string \<Rightarrow> string \<Rightarrow> bool" where
  "retires (OpBump sc' c') sc c = (sc' \<noteq> [] \<and> sc' = sc \<and> orBrowse c' = orBrowse c)"
| "retires (OpBumpScope sc') sc c = (sc' \<noteq> [] \<and> sc' = sc)"
| "retires OpBumpAll sc c = True"
| "retires (OpBumpServerClass c') sc c = (c' \<noteq> [] \<and> c' = orBrowse c)"

fun op_scope :: "bump_op \<Rightarrow> string option" where
  "op_scope (OpBump sc c) = Some sc"
| "op_scope (OpBumpScope sc) = Some sc"
| "op_scope _ = None"

text \<open>
  Histories of a store: successful invalidations, recorded in order, interleaved with steps
  of its environment (an outage, a restart).
\<close>

inductive evolves ::
  "('s \<Rightarrow> bool) \<Rightarrow> (bump_op \<Rightarrow> 's \<Rightarrow> 's option) \<Rightarrow> ('s \<Rightarrow> 's \<Rightarrow> bool) \<Rightarrow> bump_op list \<Rightarrow> 's \<Rightarrow> 's \<Rightarrow> bool"
  for headroom bump env where
  evolves_refl: "evolves headroom bump env [] s s"
| evolves_env: "env s s' \<Longrightarrow> evolves headroom bump env bs s' s'' \<Longrightarrow> evolves headroom bump env bs s s''"
| evolves_bump: "headroom s \<Longrightarrow> bump b s = Some s' \<Longrightarrow> evolves headroom bump env bs s' s'' \<Longrightarrow>
    evolves headroom bump env (b # bs) s s''"

locale generation_store =
  fixes gens :: "'s \<Rightarrow> string \<Rightarrow> string \<Rightarrow> u64 \<times> u64"
    and get :: "'s \<Rightarrow> string \<Rightarrow> string \<Rightarrow> (u64 \<times> u64) option"
    and bump :: "bump_op \<Rightarrow> 's \<Rightarrow> 's option"
    and env :: "'s \<Rightarrow> 's \<Rightarrow> bool"
    and headroom :: "'s \<Rightarrow> bool"
  assumes get_reads: "get s sc c = Some x \<Longrightarrow> x = gens s sc c"
    and env_keeps: "env s s' \<Longrightarrow> gens s' = gens s"
    and bump_grows: "headroom s \<Longrightarrow> bump b s = Some s' \<Longrightarrow>
      fst (gens s sc c) \<le> fst (gens s' sc c) \<and> snd (gens s sc c) \<le> snd (gens s' sc c)"
    and bump_retires: "headroom s \<Longrightarrow> bump b s = Some s' \<Longrightarrow> retires b sc c \<Longrightarrow>
      gens s' sc c \<noteq> gens s sc c"
begin

lemma evolves_grows:
  "evolves headroom bump env bs s s' \<Longrightarrow>
    fst (gens s sc c) \<le> fst (gens s' sc c) \<and> snd (gens s sc c) \<le> snd (gens s' sc c)"
proof (induction rule: evolves.induct)
  case (evolves_env s s' bs s'')
  then show ?case using env_keeps by metis
next
  case (evolves_bump s b s' bs s'')
  then show ?case using bump_grows [OF evolves_bump.hyps(1,2), of sc c] by (meson order_trans)
qed simp

lemma evolves_retires:
  "evolves headroom bump env bs s s' \<Longrightarrow> \<exists>b \<in> set bs. retires b sc c \<Longrightarrow> gens s' sc c \<noteq> gens s sc c"
proof (induction rule: evolves.induct)
  case (evolves_env s s' bs s'')
  then show ?case using env_keeps by metis
next
  case (evolves_bump s b s' bs s'')
  note here = bump_grows [OF evolves_bump.hyps(1,2), of sc c]
  note later = evolves_grows [OF evolves_bump.hyps(3), of sc c]
  have "gens s' sc c \<noteq> gens s sc c \<or> gens s'' sc c \<noteq> gens s' sc c"
    using evolves_bump.IH evolves_bump.prems bump_retires [OF evolves_bump.hyps(1,2)]
    by (metis set_ConsD)
  with here later show ?case
    by (cases "gens s sc c"; cases "gens s' sc c"; cases "gens s'' sc c") auto
qed simp

lemma retired_key_gone:
  assumes "evolves headroom bump env bs s s'" "\<exists>b \<in> set bs. retires b sc c"
    and "get s sc c = Some (g, G)" "get s' sc c = Some (g', G')"
  shows "RequestKeyGen sha sc c r g G \<noteq> RequestKeyGen sha sc c r' g' G'"
proof
  assume "RequestKeyGen sha sc c r g G = RequestKeyGen sha sc c r' g' G'"
  then have "(g, G) = (g', G')" by (simp add: RequestKeyGen_generations)
  with evolves_retires [OF assms(1,2)] get_reads [OF assms(3)] get_reads [OF assms(4)]
  show False by simp
qed

end

text \<open>
  The frame of the contract: an invalidation leaves the namespaces it does not retire as they
  are. \<open>named\<close> are the scopes the store can name and \<open>apart\<close> holds of two scopes it tells apart.
\<close>

locale generation_frame = generation_store +
  fixes named :: "string \<Rightarrow> bool"
    and apart :: "string \<Rightarrow> string \<Rightarrow> bool"
  assumes bump_frame: "bump b s = Some s' \<Longrightarrow> \<not> retires b sc c \<Longrightarrow> named sc \<Longrightarrow>
      (\<And>sc'. op_scope b = Some sc' \<Longrightarrow> named sc' \<and> (sc' = sc \<or> apart sc' sc)) \<Longrightarrow>
      gens s' sc c = gens s sc c"
begin

lemma evolves_frame:
  "evolves headroom bump env bs s s' \<Longrightarrow> named sc \<Longrightarrow>
    (\<And>b. b \<in> set bs \<Longrightarrow> \<not> retires b sc c) \<Longrightarrow>
    (\<And>b sc'. b \<in> set bs \<Longrightarrow> op_scope b = Some sc' \<Longrightarrow> named sc' \<and> (sc' = sc \<or> apart sc' sc)) \<Longrightarrow>
    gens s' sc c = gens s sc c"
proof (induction rule: evolves.induct)
  case (evolves_env s s' bs s'')
  then show ?case using env_keeps by metis
next
  case (evolves_bump s b s' bs s'')
  have "gens s' sc c = gens s sc c"
    by (rule bump_frame [OF evolves_bump.hyps(2)]) (use evolves_bump.prems in auto)
  moreover have "gens s'' sc c = gens s' sc c"
    by (rule evolves_bump.IH) (use evolves_bump.prems in auto)
  ultimately show ?case by simp
qed simp

end

section \<open>The in-memory store meets the contract\<close>

lemma saturatedAdd3_grows:
  assumes "unat a \<le> unat a'" "unat b \<le> unat b'" "unat c \<le> unat c'"
  shows "saturatedAdd [a, b, c] \<le> saturatedAdd [a', b', c']"
  using assms by (simp add: word_le_nat_alt saturatedAdd_eq)

lemma saturatedAdd3_strict:
  assumes "unat a + unat b + unat c < maxU64"
    and "unat a + unat b + unat c < unat a' + unat b' + unat c'"
  shows "saturatedAdd [a, b, c] < saturatedAdd [a', b', c']"
  using assms by (simp add: word_less_nat_alt saturatedAdd_eq)

definition memGens :: "MemoryGenerationStore \<Rightarrow> string \<Rightarrow> string \<Rightarrow> u64 \<times> u64" where
  "memGens g sc c =
    (saturatedAdd [counter (scopes g) sc, counter (classes g) (sc @ NUL # orBrowse c),
       counter (serverClasses g) (orBrowse c)], global g)"

definition memBump :: "bump_op \<Rightarrow> MemoryGenerationStore \<Rightarrow> MemoryGenerationStore option" where
  "memBump b g =
    (case b of OpBump sc c \<Rightarrow> MemBump False sc c g | OpBumpScope sc \<Rightarrow> MemBumpScope False sc g
     | OpBumpAll \<Rightarrow> MemBumpAll False g | OpBumpServerClass c \<Rightarrow> MemBumpServerClass False c g)"

definition memHeadroom :: "MemoryGenerationStore \<Rightarrow> bool" where
  "memHeadroom g \<longleftrightarrow> unat (global g) < maxU64 \<and>
    (\<forall>sc c. unat (counter (scopes g) sc) + unat (counter (classes g) (sc @ NUL # orBrowse c)) +
            unat (counter (serverClasses g) (orBrowse c)) < maxU64)"

lemma unat_succ: "unat (n :: u64) < maxU64 \<Longrightarrow> unat (n + 1) = Suc (unat n)"
  using unat_u64_add [of n 1] by simp

lemma unat_counter_increment:
  "unat (counter m k) < maxU64 \<Longrightarrow>
    unat (counter (increment m k) k') = unat (counter m k') + (if k' = k then 1 else 0)"
  by (simp add: counter_increment unat_succ)

lemma orBrowse_idem [simp]: "orBrowse (orBrowse c) = orBrowse c" "orBrowse c \<noteq> []"
  by (simp_all add: orBrowse_def)

lemma orBrowse_id: "c \<noteq> [] \<Longrightarrow> orBrowse c = c"
  by (simp add: orBrowse_def)

lemma memHeadroom_counter:
  assumes "memHeadroom g"
  shows "unat (global g) < maxU64" "unat (counter (scopes g) sc) < maxU64"
    "unat (counter (classes g) (sc @ NUL # orBrowse c)) < maxU64"
    "c \<noteq> [] \<Longrightarrow> unat (counter (serverClasses g) c) < maxU64"
    "unat (counter (scopes g) sc) + unat (counter (classes g) (sc @ NUL # orBrowse c)) +
       unat (counter (serverClasses g) (orBrowse c)) < maxU64"
proof -
  have "unat (counter (scopes g) sc) + unat (counter (classes g) (sc @ NUL # orBrowse c)) +
       unat (counter (serverClasses g) (orBrowse c)) < maxU64" for sc c
    using assms by (simp add: memHeadroom_def)
  from this [of sc c] this [of "[]" c]
  show "unat (counter (scopes g) sc) < maxU64"
    "unat (counter (classes g) (sc @ NUL # orBrowse c)) < maxU64"
    "c \<noteq> [] \<Longrightarrow> unat (counter (serverClasses g) c) < maxU64"
    "unat (counter (scopes g) sc) + unat (counter (classes g) (sc @ NUL # orBrowse c)) +
       unat (counter (serverClasses g) (orBrowse c)) < maxU64"
    by (simp_all add: orBrowse_id)
  show "unat (global g) < maxU64" using assms by (simp add: memHeadroom_def)
qed

lemmas mem_defs = memBump_def MemBump_def MemBumpScope_def MemBumpAll_def MemBumpServerClass_def

lemma memBump_gens:
  assumes "memHeadroom g" "memBump b g = Some g'"
  shows "fst (memGens g sc c) \<le> fst (memGens g' sc c)" "snd (memGens g sc c) \<le> snd (memGens g' sc c)"
    "retires b sc c \<Longrightarrow> memGens g' sc c \<noteq> memGens g sc c"
proof -
  note room = memHeadroom_counter [OF assms(1)]
  have inc: "unat (counter (scopes g) sc) \<le> unat (counter (scopes g') sc)"
      "unat (counter (classes g) k) \<le> unat (counter (classes g') k)"
      "unat (counter (serverClasses g) c) \<le> unat (counter (serverClasses g') c)"
      "global g \<le> global g'" for sc k c
    using assms(2) room
    by (auto simp: mem_defs unat_counter_increment word_le_nat_alt unat_succ split: bump_op.splits if_splits)
  from inc show "fst (memGens g sc c) \<le> fst (memGens g' sc c)" "snd (memGens g sc c) \<le> snd (memGens g' sc c)"
    by (simp_all add: memGens_def saturatedAdd3_grows)
  assume ret: "retires b sc c"
  show "memGens g' sc c \<noteq> memGens g sc c"
  proof (cases "b = OpBumpAll")
    case True
    then show ?thesis using assms(2) by (auto simp: mem_defs memGens_def)
  next
    case False
    let ?sum = "\<lambda>g. unat (counter (scopes g) sc) + unat (counter (classes g) (sc @ NUL # orBrowse c)) +
       unat (counter (serverClasses g) (orBrowse c))"
    have "?sum g < ?sum g'"
      using assms(2) ret False room
      by (cases b) (auto simp: mem_defs unat_counter_increment orBrowse_id)
    from saturatedAdd3_strict [OF room(5) this] show ?thesis by (auto simp: memGens_def)
  qed
qed

lemma memBump_frame:
  assumes "memBump b g = Some g'" "\<not> retires b sc c" "NUL \<notin> set sc"
    and "\<And>sc'. op_scope b = Some sc' \<Longrightarrow> NUL \<notin> set sc'"
  shows "memGens g' sc c = memGens g sc c"
proof (cases b)
  case (OpBump sc' c')
  have "sc @ NUL # orBrowse c \<noteq> sc' @ NUL # orBrowse c'" if "sc' \<noteq> []"
    using append_sep_inject [of sc NUL "orBrowse c" sc' "orBrowse c'"] assms(2-4) OpBump that by auto
  then show ?thesis using assms(1) OpBump by (auto simp: mem_defs memGens_def counter_increment split: if_splits)
qed (use assms in \<open>auto simp: mem_defs memGens_def counter_increment split: if_splits\<close>)

interpretation memory: generation_frame memGens "MemGet ctxErr" memBump "(=)" memHeadroom
  "\<lambda>sc. NUL \<notin> set sc" "\<lambda>sc' sc. sc' \<noteq> sc"
proof unfold_locales
  show "x = memGens s sc c" if "MemGet ctxErr s sc c = Some x" for s sc c x
    using that by (simp add: MemGet_def memGens_def Let_def split: if_splits)
qed (use memBump_gens memBump_frame in auto)

section \<open>The Postgres store meets the contract\<close>

definition pgGens :: "(string \<Rightarrow> string) \<Rightarrow> PostgresGenerations \<Rightarrow> string \<Rightarrow> string \<Rightarrow> u64 \<times> u64" where
  "pgGens sha g sc c =
    (let h = generationScopeHash sha sc; c = orBrowse c; s = server g in
     (saturatedAdd [coalesce (rows g) (s, h, []), coalesce (rows g) (s, h, c), coalesce (rows g) (s, [], c)],
      coalesce (rows g) (s, [], [])))"

definition pgBumpOp ::
  "(string \<Rightarrow> string) \<Rightarrow> bump_op \<Rightarrow> PostgresGenerations \<Rightarrow> PostgresGenerations option" where
  "pgBumpOp sha b g =
    (case b of OpBump sc c \<Rightarrow> PgBump sha sc c g | OpBumpScope sc \<Rightarrow> PgBumpScope sha sc g
     | OpBumpAll \<Rightarrow> PgBumpAll g | OpBumpServerClass c \<Rightarrow> PgBumpServerClass c g)"

text \<open>
  What may happen to the store besides bumps: outages, restarts and \<^verbatim>\<open>Load\<close>, none of which
  changes a counter.
\<close>

definition pgEnv :: "PostgresGenerations \<Rightarrow> PostgresGenerations \<Rightarrow> bool" where
  "pgEnv g g' \<longleftrightarrow> server g' = server g \<and> coalesce (rows g') = coalesce (rows g)"

definition pgHeadroom :: "PostgresGenerations \<Rightarrow> bool" where
  "pgHeadroom g \<longleftrightarrow>
    (\<forall>h c. unat (coalesce (rows g) (server g, h, [])) + unat (coalesce (rows g) (server g, h, c)) +
           unat (coalesce (rows g) (server g, [], c)) < maxU64)"

lemma pgHeadroom_sum:
  "pgHeadroom g \<Longrightarrow> unat (coalesce (rows g) (server g, h, [])) + unat (coalesce (rows g) (server g, h, c)) +
           unat (coalesce (rows g) (server g, [], c)) < maxU64"
  by (simp add: pgHeadroom_def)

lemma pgBump_coalesce:
  assumes "pgHeadroom g" "pgBump h c g = Some g'"
  shows "server g' = server g"
    "unat (coalesce (rows g') k) = unat (coalesce (rows g) k) + (if k = (server g, h, c) then 1 else 0)"
proof -
  from assms(2) show "server g' = server g"
    by (auto simp: pgBump_def Let_def split: if_splits option.splits)
  have "coalesce (rows g') k = coalesce (rows g) k + (if k = (server g, h, c) then 1 else 0)"
    using assms(2)
    by (auto simp: pgBump_def coalesce_def Let_def split: if_splits option.splits)
  moreover have "unat (coalesce (rows g) (server g, h, c)) < maxU64"
    using pgHeadroom_sum [OF assms(1), of h c] by simp
  ultimately show "unat (coalesce (rows g') k) =
      unat (coalesce (rows g) k) + (if k = (server g, h, c) then 1 else 0)"
    by (simp add: unat_succ)
qed

text \<open>Every invalidation that changes something is one upsert.\<close>

lemma pgBumpOp_cases:
  assumes "pgBumpOp sha b g = Some g'"
  obtains (noop) "g' = g" "\<And>sc c. \<not> retires b sc c"
  | (upsert) h c where "pgBump h c g = Some g'"
      "\<And>sc c'. retires b sc c' \<Longrightarrow> h = generationScopeHash sha sc \<and> c \<in> {[], orBrowse c'} \<or>
         h = [] \<and> c \<in> {[], orBrowse c'}"
proof (cases b)
  case (OpBump sc c)
  show thesis
  proof (cases "sc = []")
    case True
    then show thesis using assms OpBump by (intro noop) (simp_all add: pgBumpOp_def PgBump_def)
  next
    case False
    show thesis
      by (rule upsert [of "generationScopeHash sha sc" "orBrowse c"])
         (use assms OpBump False in \<open>simp_all add: pgBumpOp_def PgBump_def\<close>)
  qed
next
  case (OpBumpScope sc)
  show thesis
  proof (cases "sc = []")
    case True
    then show thesis using assms OpBumpScope by (intro noop) (simp_all add: pgBumpOp_def PgBumpScope_def)
  next
    case False
    show thesis
      by (rule upsert [of "generationScopeHash sha sc" "[]"])
         (use assms OpBumpScope False in \<open>simp_all add: pgBumpOp_def PgBumpScope_def\<close>)
  qed
next
  case OpBumpAll
  show thesis
    by (rule upsert [of "[]" "[]"]) (use assms OpBumpAll in \<open>simp_all add: pgBumpOp_def PgBumpAll_def\<close>)
next
  case (OpBumpServerClass c)
  show thesis
    by (rule upsert [of "[]" c])
       (use assms OpBumpServerClass in \<open>simp_all add: pgBumpOp_def PgBumpServerClass_def split: if_splits\<close>)
qed

lemma pgBumpOp_grows:
  assumes "pgHeadroom g" "pgBumpOp sha b g = Some g'"
  shows "fst (pgGens sha g sc c) \<le> fst (pgGens sha g' sc c) \<and> snd (pgGens sha g sc c) \<le> snd (pgGens sha g' sc c)"
  using assms(2)
proof (cases rule: pgBumpOp_cases)
  case (upsert h d)
  note inc = pgBump_coalesce [OF assms(1) upsert(1)]
  show ?thesis
    unfolding pgGens_def Let_def inc(1) fst_conv snd_conv
    by (intro conjI saturatedAdd3_grows) (simp_all add: inc(2) word_le_nat_alt)
qed simp

lemma pgBumpOp_retires:
  assumes "pgHeadroom g" "pgBumpOp sha b g = Some g'" "retires b sc c"
  shows "pgGens sha g' sc c \<noteq> pgGens sha g sc c"
  using assms(2)
proof (cases rule: pgBumpOp_cases)
  case (upsert h d)
  note inc = pgBump_coalesce [OF assms(1) upsert(1)]
  let ?h = "generationScopeHash sha sc"
  let ?sum = "\<lambda>g. unat (coalesce (rows g) (server g, ?h, [])) +
    unat (coalesce (rows g) (server g, ?h, orBrowse c)) + unat (coalesce (rows g) (server g, [], orBrowse c))"
  note room = pgHeadroom_sum [OF assms(1), of ?h "orBrowse c"]
  show ?thesis
  proof (cases "h = [] \<and> d = []")
    case True
    then have "unat (snd (pgGens sha g' sc c)) \<noteq> unat (snd (pgGens sha g sc c))"
      by (simp add: pgGens_def Let_def inc)
    then show ?thesis by auto
  next
    case False
    then have "?sum g < ?sum g'" using upsert(2) [OF assms(3)] by (auto simp: inc)
    from saturatedAdd3_strict [OF room this] show ?thesis by (auto simp: pgGens_def Let_def)
  qed
qed (use assms(3) in blast)

lemma pgBump_other:
  assumes "pgBump h d g = Some g'"
  shows "server g' = server g" "k \<noteq> (server g, h, d) \<Longrightarrow> coalesce (rows g') k = coalesce (rows g) k"
  using assms by (auto simp: pgBump_def coalesce_def Let_def split: if_splits option.splits)

lemma pgBump_frame:
  assumes "pgBump h d g = Some g'"
    and "(h, d) \<notin> {(generationScopeHash sha sc, []), (generationScopeHash sha sc, orBrowse c), ([], orBrowse c), ([], [])}"
  shows "pgGens sha g' sc c = pgGens sha g sc c"
proof -
  have "coalesce (rows g') (server g, x, y) = coalesce (rows g) (server g, x, y)"
    if "(x, y) \<in> {(generationScopeHash sha sc, []), (generationScopeHash sha sc, orBrowse c), ([], orBrowse c), ([], [])}"
    for x y
    using assms(2) that by (intro pgBump_other(2) [OF assms(1)]) auto
  then show ?thesis by (simp add: pgGens_def Let_def pgBump_other(1) [OF assms(1)])
qed

lemma pgBumpOp_frame:
  assumes "pgBumpOp sha b g = Some g'" "\<not> retires b sc c"
    and "\<And>sc. op_scope b = Some sc \<Longrightarrow> generationScopeHash sha sc \<noteq> []"
    and "generationScopeHash sha sc \<noteq> []" "\<And>sc'. op_scope b = Some sc' \<Longrightarrow> sc' = sc \<or> sha sc' \<noteq> sha sc"
  shows "pgGens sha g' sc c = pgGens sha g sc c"
proof -
  have hash: "op_scope b = Some sc' \<Longrightarrow> generationScopeHash sha sc' = generationScopeHash sha sc \<longleftrightarrow> sc' = sc" for sc'
    using assms(5) by (auto simp: generationScopeHash_def hex_encode_inject)
  show ?thesis
  proof (cases b)
    case (OpBump sc' c')
    then show ?thesis
      using assms hash [of sc']
        pgBump_frame [of "generationScopeHash sha sc'" "orBrowse c'" g g' sha sc c]
      by (auto simp: pgBumpOp_def PgBump_def split: if_splits)
  next
    case (OpBumpScope sc')
    then show ?thesis
      using assms hash [of sc'] pgBump_frame [of "generationScopeHash sha sc'" "[]" g g' sha sc c]
      by (auto simp: pgBumpOp_def PgBumpScope_def split: if_splits)
  next
    case (OpBumpServerClass c')
    then show ?thesis
      using assms pgBump_frame [of "[]" c' g g' sha sc c]
      by (auto simp: pgBumpOp_def PgBumpServerClass_def split: if_splits)
  qed (use assms(2) in simp)
qed

interpretation postgres: generation_frame "pgGens sha" "PgGet sha" "pgBumpOp sha" pgEnv pgHeadroom
  "\<lambda>sc. generationScopeHash sha sc \<noteq> []" "\<lambda>sc' sc. sha sc' \<noteq> sha sc"
proof unfold_locales
  show "x = pgGens sha s sc c" if "PgGet sha s sc c = Some x" for s sc c x
    using that by (simp add: PgGet_def pgGens_def Let_def split: if_splits)
  show "pgGens sha s' = pgGens sha s" if "pgEnv s s'" for s s'
    using that by (intro ext) (simp add: pgEnv_def pgGens_def)
  show "pgGens sha s' sc c = pgGens sha s sc c"
    if "pgBumpOp sha b s = Some s'" "\<not> retires b sc c" "generationScopeHash sha sc \<noteq> []"
      "\<And>sc'. op_scope b = Some sc' \<Longrightarrow> generationScopeHash sha sc' \<noteq> [] \<and> (sc' = sc \<or> sha sc' \<noteq> sha sc)"
    for b s s' sc c
    by (rule pgBumpOp_frame [OF that(1,2)]) (use that(3,4) in auto)
qed (use pgBumpOp_grows pgBumpOp_retires in auto)

section \<open>Retired keys stay retired\<close>

fun memRun :: "bump_op list \<Rightarrow> MemoryGenerationStore \<Rightarrow> MemoryGenerationStore option" where
  "memRun [] g = Some g"
| "memRun (b # bs) g = (case memBump b g of None \<Rightarrow> None | Some g' \<Rightarrow> memRun bs g')"

text \<open>No counter can exceed the number of invalidations.\<close>

definition memBounded :: "nat \<Rightarrow> MemoryGenerationStore \<Rightarrow> bool" where
  "memBounded n g \<longleftrightarrow> unat (global g) \<le> n \<and>
    (\<forall>sc c. unat (counter (scopes g) sc) + unat (counter (classes g) (sc @ NUL # orBrowse c)) +
            unat (counter (serverClasses g) (orBrowse c)) \<le> n)"

lemma memBounded_headroom: "memBounded n g \<Longrightarrow> n < maxU64 \<Longrightarrow> memHeadroom g"
  unfolding memBounded_def memHeadroom_def by (meson le_less_trans)

lemma memBounded_bump:
  assumes "memBounded n g" "n < maxU64" "memBump b g = Some g'"
  shows "memBounded (Suc n) g'"
proof -
  note room = memHeadroom_counter [OF memBounded_headroom [OF assms(1,2)]]
  have sum: "unat (counter (scopes g) sc) + unat (counter (classes g) (sc @ NUL # orBrowse c)) +
      unat (counter (serverClasses g) (orBrowse c)) \<le> n" and glob: "unat (global g) \<le> n" for sc c
    using assms(1) by (simp_all add: memBounded_def)
  have "unat (counter (scopes g') sc) + unat (counter (classes g') (sc @ NUL # orBrowse c)) +
      unat (counter (serverClasses g') (orBrowse c)) \<le> Suc n" for sc c
    using assms(3) room sum [of sc c]
    by (cases b) (auto simp: mem_defs unat_counter_increment split: if_splits)
  moreover have "unat (global g') \<le> Suc n"
    using assms(3) room glob by (cases b) (auto simp: mem_defs unat_succ split: if_splits)
  ultimately show ?thesis by (simp add: memBounded_def)
qed

lemma memRun_evolves:
  "memRun bs g = Some g' \<Longrightarrow> memBounded n g \<Longrightarrow> n + length bs < maxU64 \<Longrightarrow>
    evolves memHeadroom memBump (=) bs g g' \<and> memBounded (n + length bs) g'"
proof (induction bs arbitrary: g n)
  case Nil
  then show ?case by (auto intro: evolves.intros)
next
  case (Cons b bs)
  from Cons.prems(1) obtain g1 where g1: "memBump b g = Some g1" "memRun bs g1 = Some g'"
    by (auto split: option.splits)
  have b1: "memBounded (Suc n) g1"
    using memBounded_bump [OF Cons.prems(2) _ g1(1)] Cons.prems(3) by simp
  have "memHeadroom g" using memBounded_headroom [OF Cons.prems(2)] Cons.prems(3) by simp
  with Cons.IH [OF g1(2) b1] Cons.prems(3) g1(1) show ?case by (auto intro: evolves_bump)
qed

lemma memBounded_New: "memBounded 0 NewMemoryGenerationStore"
  by (simp add: memBounded_def NewMemoryGenerationStore_def counter_def)

text \<open>
  C11. No retired key is ever computed again, in production: take any history of the Postgres
  store, outages and restarts included, in which at least one successful invalidation
  covers the namespace. A key computed for that namespace before the history differs from
  every key computed for it afterwards, for all requests and all hash functions, as long
  as the counters have not reached the top of their range.
\<close>

theorem pg_retired_key_gone:
  assumes "evolves pgHeadroom (pgBumpOp sha) pgEnv bs s s'" "\<exists>b \<in> set bs. retires b sc c"
    and "PgGet sha s sc c = Some (g, G)" "PgGet sha s' sc c = Some (g', G')"
  shows "RequestKeyGen sha' sc c r g G \<noteq> RequestKeyGen sha' sc c r' g' G'"
  by (rule postgres.retired_key_gone [OF assms])

text \<open>
  C12. The same for the in-memory store from its creation, with the range condition made
  explicit: it holds through any sequence of fewer than \<open>2^64 - 1\<close> invalidations.
\<close>

theorem mem_retired_key_gone:
  assumes "memRun bs NewMemoryGenerationStore = Some s" "memRun bs' s = Some s'"
    and "length bs + length bs' < 2 ^ 64 - 1" "\<exists>b \<in> set bs'. retires b sc c"
    and "MemGet False s sc c = Some (g, G)" "MemGet False s' sc c = Some (g', G')"
  shows "RequestKeyGen sha sc c r g G \<noteq> RequestKeyGen sha sc c r' g' G'"
proof -
  have "memBounded (length bs) s"
    using memRun_evolves [OF assms(1) memBounded_New] assms(3) by simp
  then have "evolves memHeadroom memBump (=) bs' s s'"
    using memRun_evolves [OF assms(2)] assms(3) by blast
  then show ?thesis by (rule memory.retired_key_gone [OF _ assms(4-6)])
qed

text \<open>
  Invalidation is precise: through a history none of whose invalidations covers the
  namespace, the generations of the Postgres store do not move, so its entries stay
  reachable. SHA-256 digests have 32 bytes, and no other scope invalidated in the history
  may collide with this one.
\<close>

theorem pg_unrelated_generations_stay:
  assumes "evolves pgHeadroom (pgBumpOp sha) pgEnv bs s s'"
    and "\<And>x. length (sha x) = 32"
    and "\<And>b sc'. b \<in> set bs \<Longrightarrow> op_scope b = Some sc' \<Longrightarrow> sc' \<noteq> sc \<Longrightarrow> sha sc' \<noteq> sha sc"
    and "\<And>b. b \<in> set bs \<Longrightarrow> \<not> retires b sc c"
    and "PgGet sha s sc c = Some x" "PgGet sha s' sc c = Some x'"
  shows "x' = x"
proof -
  have "generationScopeHash sha sc \<noteq> []" for sc
    using assms(2) [of sc] length_hex_encode [of "sha sc"] by (auto simp: generationScopeHash_def)
  then have "pgGens sha s' sc c = pgGens sha s sc c"
    using assms(3,4) by (intro postgres.evolves_frame [OF assms(1)]) auto
  then show ?thesis
    using postgres.get_reads [OF assms(5)] postgres.get_reads [OF assms(6)] by simp
qed

section \<open>Witnesses\<close>

text \<open>A stand-in for SHA-256 with 32-byte results, and a fresh store that answers.\<close>

definition exSha :: "string \<Rightarrow> string" where
  "exSha s = take 32 (s @ replicate 32 NUL)"

definition exPg :: PostgresGenerations where
  "exPg = NewPostgresGenerations Map.empty True []"

definition exPg' :: PostgresGenerations where
  "exPg' = exPg\<lparr>rows := [(''default'', generationScopeHash exSha ''user:a1'', ''metadata'') \<mapsto> 1]\<rparr>"

lemma exPg_bump: "pgBumpOp exSha (OpBump ''user:a1'' ''metadata'') exPg = Some exPg'"
proof -
  have "scopeClassCheck (generationScopeHash exSha ''user:a1'') (orBrowse ''metadata'')" by code_simp
  then show ?thesis
    by (simp add: pgBumpOp_def PgBump_def pgBump_def exPg_def exPg'_def NewPostgresGenerations_def
        Let_def orBrowse_def)
qed

lemma exPg_evolves:
  "evolves pgHeadroom (pgBumpOp exSha) pgEnv [OpBump ''user:a1'' ''metadata''] exPg exPg'"
proof (rule evolves_bump)
  show "pgHeadroom exPg" by (simp add: pgHeadroom_def exPg_def NewPostgresGenerations_def coalesce_def)
qed (rule exPg_bump, rule evolves_refl)

theorem pg_retired_key_gone_witness:
  "RequestKeyGen exSha ''user:a1'' ''metadata'' exRequest 0 0 \<noteq>
    RequestKeyGen exSha ''user:a1'' ''metadata'' exRequest 1 0"
proof (rule pg_retired_key_gone [OF exPg_evolves])
  show "PgGet exSha exPg ''user:a1'' ''metadata'' = Some (0, 0)"
    "PgGet exSha exPg' ''user:a1'' ''metadata'' = Some (1, 0)" by code_simp+
qed simp

theorem mem_retired_key_gone_witness:
  "RequestKeyGen exSha ''user:a1'' ''metadata'' exRequest 0 0 \<noteq>
    RequestKeyGen exSha ''user:a1'' ''metadata'' exRequest 1 0"
proof (rule mem_retired_key_gone)
  let ?s = "NewMemoryGenerationStore\<lparr>scopes := [''user:a1'' \<mapsto> 1]\<rparr>"
  show "memRun [] NewMemoryGenerationStore = Some NewMemoryGenerationStore" by simp
  show "memRun [OpBumpScope ''user:a1''] NewMemoryGenerationStore = Some ?s"
    by (simp add: mem_defs NewMemoryGenerationStore_def increment_def counter_def)
  show "MemGet False NewMemoryGenerationStore ''user:a1'' ''metadata'' = Some (0, 0)"
    "MemGet False ?s ''user:a1'' ''metadata'' = Some (1, 0)" by code_simp+
qed simp_all

theorem pg_unrelated_generations_stay_witness:
  "PgGet exSha exPg' ''user:b2'' ''metadata'' = PgGet exSha exPg ''user:b2'' ''metadata''"
proof -
  obtain x x' where get: "PgGet exSha exPg ''user:b2'' ''metadata'' = Some x"
    "PgGet exSha exPg' ''user:b2'' ''metadata'' = Some x'"
    by (simp add: PgGet_def exPg_def exPg'_def NewPostgresGenerations_def Let_def)
  have "x' = x"
    by (rule pg_unrelated_generations_stay [OF exPg_evolves _ _ _ get]) (auto simp: exSha_def)
  with get show ?thesis by simp
qed

end
