(* ===== verification/Cache_Store.thy ===== *)
theory Cache_Store
  imports Cache_Entry Generations
begin

text \<open>
  The entry stores and the process-local generation registry of \<^verbatim>\<open>internal/cache/cache.go\<close>.
  The in-memory store deletes expired items lazily; the main theorem is that it answers
  every schedule of calls exactly as a store that only remembers the last write per key.
  The Valkey store is a codec around a client whose answers are parameters.
\<close>

section \<open>The in-memory store\<close>

record memItem =
  entry :: Entry
  exp :: gotime

type_synonym Memory = "(string \<times> memItem) list"

definition NewMemory :: Memory where
  "NewMemory = []"

text \<open>\<open>now\<close> is the clock reading of the call; \<^verbatim>\<open>Get\<close> deletes what it finds expired.\<close>

definition MemoryGet :: "gotime \<Rightarrow> string \<Rightarrow> Memory \<Rightarrow> Memory \<times> Entry option" where
  "MemoryGet now key m =
    (case map_of m key of
       None \<Rightarrow> (AList.delete key m, None)
     | Some it \<Rightarrow> if now > exp it then (AList.delete key m, None) else (m, Some (entry it)))"

definition MemorySet :: "gotime \<Rightarrow> string \<Rightarrow> Entry \<Rightarrow> duration \<Rightarrow> Memory \<Rightarrow> Memory option" where
  "MemorySet now key e ttl m =
    (if ttl \<le> 0 then None else Some (AList.update key \<lparr>entry = e, exp = now + ttl\<rparr> m))"

definition MemoryDelete :: "string \<Rightarrow> Memory \<Rightarrow> Memory" where
  "MemoryDelete key m = AList.delete key m"

section \<open>The Valkey store\<close>

text \<open>
  The RESP client is a parameter: \<open>get\<close> answers an error (\<open>None\<close>), a miss (\<open>Some None\<close>) or the
  stored bytes; \<open>set\<close> answers whether the write succeeded.
\<close>

datatype store_answer = StoreError | StoreMiss | StoreHit Entry

definition ValkeyGet :: "(string \<Rightarrow> string option option) option \<Rightarrow> string \<Rightarrow> store_answer" where
  "ValkeyGet client key =
    (case client of
       None \<Rightarrow> StoreMiss
     | Some get \<Rightarrow>
         (case get key of
            None \<Rightarrow> StoreError
          | Some None \<Rightarrow> StoreMiss
          | Some (Some raw) \<Rightarrow>
              (case Unmarshal raw of Some (Inr e) \<Rightarrow> StoreHit e | _ \<Rightarrow> StoreMiss)))"

definition ValkeySet ::
  "(string \<Rightarrow> string \<Rightarrow> duration \<Rightarrow> bool) option \<Rightarrow> string \<Rightarrow> Entry \<Rightarrow> duration \<Rightarrow> bool" where
  "ValkeySet client key e ttl =
    (case client of
       None \<Rightarrow> True
     | Some put \<Rightarrow> (case Marshal e of Inl _ \<Rightarrow> False | Inr raw \<Rightarrow> put key raw ttl))"

definition ValkeyDelete :: "(string \<Rightarrow> bool) option \<Rightarrow> string \<Rightarrow> bool" where
  "ValkeyDelete client key = (case client of None \<Rightarrow> True | Some del \<Rightarrow> del key)"

section \<open>The process-local registry\<close>

text \<open>
  \<^verbatim>\<open>Generations\<close>: counters per scope and class, and the classes seen per scope, which a
  scope-wide bump enumerates. \<open>None\<close> is the nil registry, on which every method is a no-op.
\<close>

record Generations =
  scopeClass :: "string \<Rightarrow> u64 option"
  seenClasses :: "string \<Rightarrow> string list option"
  globalGen :: u64

definition NewGenerations :: Generations where
  "NewGenerations = \<lparr>scopeClass = Map.empty, seenClasses = Map.empty, globalGen = 0\<rparr>"

definition seen :: "Generations \<Rightarrow> string \<Rightarrow> string list" where
  "seen g scope = (case seenClasses g scope of Some cs \<Rightarrow> cs | None \<Rightarrow> [])"

definition recordClass :: "string \<Rightarrow> string \<Rightarrow> Generations \<Rightarrow> Generations" where
  "recordClass scope cls g = g\<lparr>seenClasses := (seenClasses g)(scope \<mapsto> List.insert cls (seen g scope))\<rparr>"

definition GenerationsGet ::
  "Generations option \<Rightarrow> string \<Rightarrow> string \<Rightarrow> Generations option \<times> u64 \<times> u64" where
  "GenerationsGet go scope cls =
    (case go of
       None \<Rightarrow> (None, 0, 0)
     | Some g \<Rightarrow>
         let cls = orBrowse cls; g' = recordClass scope cls g
         in (Some g', counter (scopeClass g') (scope @ NUL # cls), globalGen g'))"

definition GenerationsBump :: "Generations option \<Rightarrow> string \<Rightarrow> string \<Rightarrow> Generations option" where
  "GenerationsBump go scope cls =
    (case go of
       None \<Rightarrow> None
     | Some g \<Rightarrow>
         if scope = [] then Some g
         else let cls = orBrowse cls; g' = recordClass scope cls g
           in Some (g'\<lparr>scopeClass := increment (scopeClass g') (scope @ NUL # cls)\<rparr>))"

definition GenerationsBumpScope :: "Generations option \<Rightarrow> string \<Rightarrow> Generations option" where
  "GenerationsBumpScope go scope =
    (case go of
       None \<Rightarrow> None
     | Some g \<Rightarrow>
         if scope = [] then Some g
         else Some (g\<lparr>scopeClass :=
                fold (\<lambda>cls m. increment m (scope @ NUL # cls)) (seen g scope) (scopeClass g)\<rparr>))"

definition GenerationsBumpAll :: "Generations option \<Rightarrow> Generations option" where
  "GenerationsBumpAll go = map_option (\<lambda>g. g\<lparr>globalGen := globalGen g + 1\<rparr>) go"

lemma fold_increment:
  "distinct cs \<Longrightarrow> counter (fold (\<lambda>cls m. increment m (scope @ NUL # cls)) cs m) (scope @ NUL # c) =
    counter m (scope @ NUL # c) + (if c \<in> set cs then 1 else 0)"
  by (induction cs arbitrary: m) (auto simp: counter_increment)

text \<open>A scope-wide bump of the registry retires exactly the classes it has seen.\<close>

lemma GenerationsBumpScope_retires_seen:
  assumes "scope \<noteq> []" "distinct (seen g scope)" "GenerationsBumpScope (Some g) scope = Some g'"
  shows "counter (scopeClass g') (scope @ NUL # c) \<noteq> counter (scopeClass g) (scope @ NUL # c) \<longleftrightarrow>
    c \<in> set (seen g scope)"
  using assms by (auto simp: GenerationsBumpScope_def fold_increment split: if_splits)

section \<open>The store of last writes\<close>

text \<open>One call of the store with its clock reading, and what it answers.\<close>

datatype store_call = CallGet gotime string | CallSet gotime string Entry duration | CallDelete gotime string

fun call_time :: "store_call \<Rightarrow> gotime" where
  "call_time (CallGet t _) = t"
| "call_time (CallSet t _ _ _) = t"
| "call_time (CallDelete t _) = t"

fun storeStep :: "store_call \<Rightarrow> Memory \<Rightarrow> Memory \<times> Entry option" where
  "storeStep (CallGet t k) m = MemoryGet t k m"
| "storeStep (CallSet t k e ttl) m = (case MemorySet t k e ttl m of None \<Rightarrow> (m, None) | Some m' \<Rightarrow> (m', None))"
| "storeStep (CallDelete t k) m = (MemoryDelete k m, None)"

fun storeRun :: "store_call list \<Rightarrow> Memory \<Rightarrow> Entry option list" where
  "storeRun [] m = []"
| "storeRun (c # cs) m = (let (m', r) = storeStep c m in r # storeRun cs m')"

text \<open>The reference: the last write of each key, never forgotten before it is deleted.\<close>

fun lastStep :: "store_call \<Rightarrow> (string \<Rightarrow> (Entry \<times> gotime) option) \<Rightarrow> (string \<Rightarrow> (Entry \<times> gotime) option) \<times> Entry option" where
  "lastStep (CallGet t k) a =
    (a, case a k of None \<Rightarrow> None | Some (e, x) \<Rightarrow> if x < t then None else Some e)"
| "lastStep (CallSet t k e ttl) a = (if ttl \<le> 0 then a else a(k \<mapsto> (e, t + ttl)), None)"
| "lastStep (CallDelete t k) a = (a(k := None), None)"

fun lastRun :: "store_call list \<Rightarrow> (string \<Rightarrow> (Entry \<times> gotime) option) \<Rightarrow> Entry option list" where
  "lastRun [] a = []"
| "lastRun (c # cs) a = (let (a', r) = lastStep c a in r # lastRun cs a')"

text \<open>At time \<open>t\<close> the store holds the last writes, except for some that have expired.\<close>

definition represents :: "gotime \<Rightarrow> Memory \<Rightarrow> (string \<Rightarrow> (Entry \<times> gotime) option) \<Rightarrow> bool" where
  "represents t m a \<longleftrightarrow>
    (\<forall>k it. map_of m k = Some it \<longrightarrow> a k = Some (entry it, exp it)) \<and>
    (\<forall>k e x. map_of m k = None \<longrightarrow> a k = Some (e, x) \<longrightarrow> x < t)"

lemma represents_later: "represents t m a \<Longrightarrow> t \<le> t' \<Longrightarrow> represents t' m a"
  unfolding represents_def by (meson less_le_trans)

lemma MemoryGet_simulates:
  assumes "represents t m a"
  shows "snd (MemoryGet t k m) = snd (lastStep (CallGet t k) a) \<and> represents t (fst (MemoryGet t k m)) a"
proof (cases "map_of m k")
  case None
  then have "AList.delete k m = m" by (simp add: delete_idem map_of_eq_None_iff)
  moreover have "(case a k of None \<Rightarrow> None | Some (e, x) \<Rightarrow> if x < t then None else Some e) = None"
    using assms None by (auto simp: represents_def split: option.split)
  ultimately show ?thesis using assms None by (simp add: MemoryGet_def)
next
  case (Some it)
  then have "a k = Some (entry it, exp it)" using assms by (simp add: represents_def)
  moreover have "represents t (AList.delete k m) a" if "exp it < t"
    using assms that calculation by (auto simp: represents_def map_of_delete split: if_splits)
  ultimately show ?thesis using assms Some by (simp add: MemoryGet_def)
qed

lemma storeStep_simulates:
  assumes "represents t m a" "t \<le> call_time c"
  shows "snd (storeStep c m) = snd (lastStep c a) \<and>
    represents (call_time c) (fst (storeStep c m)) (fst (lastStep c a))"
proof -
  have rep: "represents (call_time c) m a" by (rule represents_later [OF assms])
  show ?thesis
  proof (cases c)
    case (CallGet s k)
    then show ?thesis using MemoryGet_simulates [of s m a k] rep by simp
  next
    case (CallSet s k e ttl)
    then show ?thesis
      using rep by (auto simp: MemorySet_def represents_def map_of_update split: if_splits)
  next
    case (CallDelete s k)
    then show ?thesis
      using rep by (auto simp: MemoryDelete_def represents_def map_of_delete split: if_splits)
  qed
qed

text \<open>
  C13. Against a clock that does not run backwards, the in-memory store answers every schedule
  of reads, writes and deletions like the store of last writes: a read hits exactly when
  the last successful write of the key, not deleted since, is still within its lifetime,
  and then it returns that very entry. Lazy deletion is invisible.
\<close>

theorem Memory_refines_last_write:
  assumes "sorted (map call_time cs)"
  shows "storeRun cs NewMemory = lastRun cs Map.empty"
proof -
  have "represents t m a \<Longrightarrow> sorted (map call_time cs) \<Longrightarrow> \<forall>c \<in> set cs. t \<le> call_time c \<Longrightarrow>
      storeRun cs m = lastRun cs a" for t m a
  proof (induction cs arbitrary: t m a)
    case (Cons c cs)
    have "t \<le> call_time c" using Cons.prems(3) by simp
    note sim = storeStep_simulates [OF Cons.prems(1) this]
    have "storeRun cs (fst (storeStep c m)) = lastRun cs (fst (lastStep c a))"
      using Cons.prems(2) by (intro Cons.IH [OF sim [THEN conjunct2]]) auto
    with sim show ?case by (simp add: case_prod_beta Let_def)
  qed simp
  moreover have "\<forall>c \<in> set cs. Min (insert 0 (call_time ` set cs)) \<le> call_time c"
    by simp
  moreover have "represents t NewMemory Map.empty" for t
    by (simp add: represents_def NewMemory_def)
  ultimately show ?thesis using assms by blast
qed

text \<open>
  The Valkey store returns what was written and never more: reading the bytes an entry
  was stored as yields an entry with the same status, content type, body and header map,
  while bytes that do not decode read as a miss, not as an error.
\<close>

theorem ValkeyGet_after_Set:
  assumes "length (Body e) \<le> MaxEntryBytes" "wf_headers (Headers e)" "Status e < 2 ^ 32"
    and "length (ContentType e) < 2 ^ 32" "length (headerBytes (Headers e)) < 2 ^ 32"
    and "Marshal e = Inr raw" "client key = Some (Some raw)"
  shows "(\<exists>e'. ValkeyGet (Some client) key = StoreHit e' \<and> Status e' = Status e \<and>
      ContentType e' = ContentType e \<and> Body e' = Body e \<and> map_of (Headers e') = map_of (Headers e)) \<and>
    (\<forall>k bad. client k = Some (Some bad) \<and> (\<nexists>x. Unmarshal bad = Some (Inr x)) \<longrightarrow>
      ValkeyGet (Some client) k = StoreMiss)"
proof (intro conjI allI impI)
  show "\<exists>e'. ValkeyGet (Some client) key = StoreHit e' \<and> Status e' = Status e \<and>
      ContentType e' = ContentType e \<and> Body e' = Body e \<and> map_of (Headers e') = map_of (Headers e)"
    using Unmarshal_inverts_Marshal [OF assms(1-5)] assms(6,7) by (auto simp: ValkeyGet_def)
  fix k bad assume "client k = Some (Some bad) \<and> (\<nexists>x. Unmarshal bad = Some (Inr x))"
  then show "ValkeyGet (Some client) k = StoreMiss"
    by (auto simp: ValkeyGet_def split: option.split sum.split)
qed

section \<open>Witnesses\<close>

definition exCalls :: "store_call list" where
  "exCalls = [CallSet 0 ''k'' exEntry 10, CallGet 5 ''k'', CallGet 11 ''k'', CallGet 12 ''k'']"

theorem Memory_refines_last_write_witness:
  "storeRun exCalls NewMemory = [None, Some exEntry, None, None] \<and>
   lastRun exCalls Map.empty = [None, Some exEntry, None, None]"
proof -
  have "storeRun exCalls NewMemory = lastRun exCalls Map.empty"
    by (rule Memory_refines_last_write) (simp add: exCalls_def)
  moreover have "lastRun exCalls Map.empty = [None, Some exEntry, None, None]"
    by (simp add: exCalls_def)
  ultimately show ?thesis by simp
qed

theorem ValkeyGet_after_Set_witness:
  "\<exists>e'. ValkeyGet (Some (\<lambda>_. Some (case Marshal exEntry of Inr raw \<Rightarrow> Some raw | Inl _ \<Rightarrow> None))) ''k'' = StoreHit e' \<and>
    Status e' = 200 \<and> ContentType e' = ''application/json'' \<and> Body e' = ''[1,2]'' \<and>
    map_of (Headers e') = map_of (Headers exEntry)"
proof -
  have "headerBytes (Headers exEntry) =
      ''Etag'' @ NUL # ''w1'' @ NUL # ''Vary'' @ NUL # ''Accept'' @ [NUL]" by code_simp
  then have len: "length (headerBytes (Headers exEntry)) < 2 ^ 32" by simp
  have body: "length (Body exEntry) \<le> MaxEntryBytes" by (simp add: exEntry_def MaxEntryBytes_def)
  then obtain raw where "Marshal exEntry = Inr raw" by (simp add: Marshal_def Let_def)
  with ValkeyGet_after_Set [OF body _ _ _ len this, of "\<lambda>_. Some (Some raw)" "''k''"] show ?thesis
    by (simp add: exEntry_def wf_headers_def wf_map_def safeHeaders_def)
qed

end
