(* ===== verification/Trace.thy ===== *)
theory Trace
  imports Go_Http
begin

text \<open>
  Request identity (\<^verbatim>\<open>internal/trace/trace.go\<close>): client headers, token, session and rating key
  extraction, and the keyed fingerprints that stand for tokens in logs and keys.
  HMAC-SHA256 is the parameter \<open>hmac\<close>, from key and message to digest.
\<close>

record Client =
  ID :: string
  Product :: string
  Platform :: string
  Version :: string
  Device :: string
  Model :: string

definition ExtractClient :: "request \<Rightarrow> Client" where
  "ExtractClient r =
    \<lparr>ID = header_get (Header r) ''X-Plex-Client-Identifier'',
     Product = header_get (Header r) ''X-Plex-Product'',
     Platform = header_get (Header r) ''X-Plex-Platform'',
     Version = header_get (Header r) ''X-Plex-Version'',
     Device = header_get (Header r) ''X-Plex-Device'',
     Model = header_get (Header r) ''X-Plex-Model''\<rparr>"

text \<open>The first nonempty value of a list of candidates.\<close>

fun first_nonempty :: "string list \<Rightarrow> string" where
  "first_nonempty [] = []"
| "first_nonempty (t # ts) = (if t \<noteq> [] then t else first_nonempty ts)"

definition ExtractToken :: "request \<Rightarrow> string" where
  "ExtractToken r =
    (let t = header_get (Header r) ''X-Plex-Token'' in
     if t \<noteq> [] then t
     else let q = url_query r in
       first_nonempty (map (values_get q) [''X-Plex-Token'', ''token'', ''authToken'']))"

definition Fingerprint :: "(string \<Rightarrow> string \<Rightarrow> string) \<Rightarrow> string \<Rightarrow> string \<Rightarrow> string" where
  "Fingerprint hmac secret token =
    (if secret = [] \<or> token = [] then [] else hex_encode (hmac secret token))"

definition ExtractSession :: "request \<Rightarrow> string" where
  "ExtractSession r =
    (let s = header_get (Header r) ''X-Plex-Playback-Session-Id'' in
     if s \<noteq> [] then s
     else let s = header_get (Header r) ''X-Plex-Session-Identifier'' in
       if s \<noteq> [] then s
       else let s = values_get (url_query r) ''session'' in
         if s \<noteq> [] then s else header_get (Header r) ''X-Plex-Session-Id'')"

abbreviation "metadataMarker \<equiv> ''/library/metadata/''"

definition metadataID :: "string \<Rightarrow> string" where
  "metadataID v =
    (if v = [] then []
     else let v = (case query_unescape v of Some d \<Rightarrow> d | None \<Rightarrow> v) in
       case index_of v metadataMarker of
         None \<Rightarrow> []
       | Some i \<Rightarrow> takeWhile (\<lambda>c. c \<notin> set ''/?&'') (drop (i + length metadataMarker) v))"

definition ExtractRatingKey :: "request \<Rightarrow> string" where
  "ExtractRatingKey r =
    (let q = url_query r; k = values_get q ''ratingKey'' in
     if k \<noteq> [] then k
     else let id = first_nonempty (map (\<lambda>k. metadataID (values_get q k)) [''key'', ''path'', ''url'']) in
       if id \<noteq> [] then id else metadataID (URLPath r))"

definition IsPlaybackRoute :: "string \<Rightarrow> bool" where
  "IsPlaybackRoute path =
    (let p = to_lower path in
     if has_prefix p ''/photo/:/transcode'' then False
     else has_prefix p ''/library/parts/'' \<or> contains p '':/timeline'' \<or> contains p ''/transcode/'')"

definition PlaybackTraceID ::
  "(string \<Rightarrow> string \<Rightarrow> string) \<Rightarrow> string \<Rightarrow> string \<Rightarrow> string \<Rightarrow> string \<Rightarrow> string \<Rightarrow> string" where
  "PlaybackTraceID hmac secret userFingerprint clientID sessionID ratingKey =
    (if secret = [] \<or> sessionID = [] \<and> ratingKey = [] then []
     else if userFingerprint = [] \<and> clientID = [] then []
     else hex_encode (hmac secret
       (userFingerprint @ CHR 0x00 # clientID @ CHR 0x00 # sessionID @ CHR 0x00 # ratingKey)))"

lemma first_nonempty_in: "first_nonempty ts \<noteq> [] \<Longrightarrow> first_nonempty ts \<in> set ts"
  by (induction ts) (auto split: if_splits)

lemma first_nonempty_Nil: "first_nonempty ts = [] \<longleftrightarrow> (\<forall>t \<in> set ts. t = [])"
  by (induction ts) auto

text \<open>The extracted token is one the client presented, in the header or a token parameter.\<close>

lemma ExtractToken_presented:
  "ExtractToken r \<noteq> [] \<Longrightarrow>
    ExtractToken r = header_get (Header r) ''X-Plex-Token'' \<or>
    (\<exists>k \<in> {''X-Plex-Token'', ''token'', ''authToken''}. ExtractToken r = values_get (url_query r) k)"
  using first_nonempty_in [of "map (values_get (url_query r)) [''X-Plex-Token'', ''token'', ''authToken'']"]
  by (auto simp: ExtractToken_def Let_def split: if_splits)

text \<open>A trace id separates users: equal ids under an injective MAC mean equal fields.\<close>

lemma PlaybackTraceID_inject:
  assumes "\<And>m m'. hmac secret m = hmac secret m' \<Longrightarrow> m = m'"
    and "PlaybackTraceID hmac secret fp cl s k = PlaybackTraceID hmac secret fp' cl' s' k'"
    and "PlaybackTraceID hmac secret fp cl s k \<noteq> []" "PlaybackTraceID hmac secret fp' cl' s' k' \<noteq> []"
    and "CHR 0x00 \<notin> set fp \<union> set fp' \<union> set cl \<union> set cl' \<union> set s \<union> set s'"
  shows "fp = fp' \<and> cl = cl' \<and> s = s' \<and> k = k'"
proof -
  from assms(5) have n: "CHR 0x00 \<notin> set fp" "CHR 0x00 \<notin> set fp'" "CHR 0x00 \<notin> set cl"
    "CHR 0x00 \<notin> set cl'" "CHR 0x00 \<notin> set s" "CHR 0x00 \<notin> set s'" by simp_all
  have "fp @ CHR 0x00 # cl @ CHR 0x00 # s @ CHR 0x00 # k = fp' @ CHR 0x00 # cl' @ CHR 0x00 # s' @ CHR 0x00 # k'"
    by (rule assms(1)) (use assms(2-4) in \<open>simp add: PlaybackTraceID_def hex_encode_inject split: if_splits\<close>)
  note fp = append_sep_inject [OF this n(1,2)]
  note cl = append_sep_inject [OF fp [THEN conjunct2] n(3,4)]
  note s = append_sep_inject [OF cl [THEN conjunct2] n(5,6)]
  show ?thesis using fp cl s by (simp only: simp_thms)
qed

end
