(* ===== verification/Grants.thy ===== *)
theory Grants
  imports Go_Strings
begin

text \<open>
  Authorization leases (\<^verbatim>\<open>internal/identity/authorization.go\<close>): a caller may reuse a cached
  response only within thirty seconds of having received that response from the media
  server itself. The contract is the locale \<open>authorization\<close>; its client theorem, for every
  history of grants, checks and revocations, is that a positive check is always backed by
  a recent grant to the same credential that was not revoked since.
\<close>

section \<open>Leases\<close>

definition ResourceAuthorizationTTL :: duration where
  "ResourceAuthorizationTTL = 30 * second"

definition resourceGrantMax :: nat where
  "resourceGrantMax = 4096"

record resourceGrantKey =
  fingerprint :: string
  resource :: string

type_synonym ResourceGrants = "(resourceGrantKey \<times> gotime) list"

definition NewResourceGrants :: ResourceGrants where
  "NewResourceGrants = []"

definition grantKey :: "(string \<Rightarrow> string) \<Rightarrow> string \<Rightarrow> string \<Rightarrow> resourceGrantKey" where
  "grantKey sha fp resourceKey = \<lparr>fingerprint = fp, resource = sha resourceKey\<rparr>"

text \<open>
  The eviction loop: expired leases are dropped, the soonest-expiring live one is found, and
  it is dropped too if the table is still full.
\<close>

definition evict :: "gotime \<Rightarrow> ResourceGrants \<Rightarrow> ResourceGrants" where
  "evict now g =
    (let live = filter (\<lambda>(_, x). now < x) g in
     if length live \<ge> resourceGrantMax
     then (case scan_least snd live of None \<Rightarrow> live | Some (k, _) \<Rightarrow> AList.delete k live)
     else live)"

text \<open>The receiver is a pointer: \<open>None\<close> is nil.\<close>

definition Grant ::
  "(string \<Rightarrow> string) \<Rightarrow> gotime \<Rightarrow> string \<Rightarrow> string \<Rightarrow> ResourceGrants option \<Rightarrow> ResourceGrants option" where
  "Grant sha now fp resourceKey go =
    (case go of
       None \<Rightarrow> None
     | Some g \<Rightarrow>
         if fp = [] \<or> resourceKey = [] then Some g
         else let key = grantKey sha fp resourceKey;
                  g' = (if map_of g key = None \<and> length g \<ge> resourceGrantMax then evict now g else g)
           in Some (AList.update key (now + ResourceAuthorizationTTL) g'))"

definition Authorized ::
  "(string \<Rightarrow> string) \<Rightarrow> gotime \<Rightarrow> string \<Rightarrow> string \<Rightarrow> ResourceGrants option \<Rightarrow> ResourceGrants option \<times> bool" where
  "Authorized sha now fp resourceKey go =
    (case go of
       None \<Rightarrow> (None, False)
     | Some g \<Rightarrow>
         if fp = [] \<or> resourceKey = [] then (Some g, False)
         else let key = grantKey sha fp resourceKey in
           case map_of g key of
             None \<Rightarrow> (Some g, False)
           | Some expires \<Rightarrow> if \<not> now < expires then (Some (AList.delete key g), False) else (Some g, True))"

definition Revoke :: "string \<Rightarrow> ResourceGrants option \<Rightarrow> ResourceGrants option" where
  "Revoke fp go =
    (case go of
       None \<Rightarrow> None
     | Some g \<Rightarrow> if fp = [] then Some g else Some (filter (\<lambda>(k, _). fingerprint k \<noteq> fp) g))"

section \<open>The table stays bounded\<close>

definition grants_inv :: "ResourceGrants option \<Rightarrow> bool" where
  "grants_inv go \<longleftrightarrow> (case go of None \<Rightarrow> True | Some g \<Rightarrow> wf_map g \<and> length g \<le> resourceGrantMax)"

lemma evict_bound:
  assumes "length g \<le> resourceGrantMax"
  shows "length (evict now g) < resourceGrantMax"
proof -
  let ?live = "filter (\<lambda>(_, x). now < x) g"
  have le: "length ?live \<le> resourceGrantMax"
    by (rule order_trans [OF length_filter_le assms])
  show ?thesis
  proof (cases "scan_least snd ?live")
    case None
    then show ?thesis by (auto simp: evict_def Let_def scan_least_None resourceGrantMax_def)
  next
    case (Some kx)
    then show ?thesis
      using le length_delete_scanned [of snd ?live "fst kx" "snd kx"]
      by (auto simp: evict_def Let_def case_prod_beta)
  qed
qed

lemma wf_map_evict: "wf_map g \<Longrightarrow> wf_map (evict now g)"
  by (auto simp: evict_def Let_def split: option.split)

lemma evict_keeps: "map_of (evict now g) k = Some x \<Longrightarrow> wf_map g \<Longrightarrow> map_of g k = Some x"
  by (auto simp: evict_def Let_def map_of_delete map_of_filter_wf split: option.splits if_splits)

lemma grants_inv_ops:
  assumes "grants_inv go"
  shows "grants_inv (Grant sha now fp k go)" "grants_inv (fst (Authorized sha now fp k go))" "grants_inv (Revoke fp go)"
proof -
  show "grants_inv (Grant sha now fp k go)"
  proof (cases go)
    case (Some g)
    with assms have g: "wf_map g" "length g \<le> resourceGrantMax" by (simp_all add: grants_inv_def)
    let ?key = "grantKey sha fp k"
    show ?thesis
    proof (cases "map_of g ?key = None \<and> length g \<ge> resourceGrantMax")
      case True
      then show ?thesis
        using Some g wf_map_evict [OF g(1), of now] evict_bound [OF g(2), of now]
          length_update_le [of ?key "now + ResourceAuthorizationTTL" "evict now g"]
        by (auto simp: Grant_def grants_inv_def Let_def)
    next
      case False
      then show ?thesis
        using Some g length_update [of ?key "now + ResourceAuthorizationTTL" g]
        by (auto simp: Grant_def grants_inv_def Let_def map_of_eq_None_iff)
    qed
  qed (simp add: Grant_def grants_inv_def)
  show "grants_inv (fst (Authorized sha now fp k go))"
    using assms
    by (auto simp: Authorized_def grants_inv_def Let_def intro: order_trans [OF AList.length_delete_le]
        split: option.splits)
  show "grants_inv (Revoke fp go)"
    using assms by (auto simp: Revoke_def grants_inv_def intro: order_trans [OF length_filter_le] split: option.splits)
qed

section \<open>The contract\<close>

datatype grant_event = EvGrant gotime string string | EvCheck gotime string string | EvRevoke string

text \<open>
  \<open>backed same evs fp k t\<close>: the history \<open>evs\<close> (latest event first) contains a grant to \<open>fp\<close> for a
  resource that the store does not distinguish from \<open>k\<close>, less than the lease time before
  \<open>t\<close>, and no revocation of \<open>fp\<close> since.
\<close>

fun backed :: "(string \<Rightarrow> string \<Rightarrow> bool) \<Rightarrow> grant_event list \<Rightarrow> string \<Rightarrow> string \<Rightarrow> gotime \<Rightarrow> bool" where
  "backed same [] fp k t = False"
| "backed same (EvGrant t0 fp0 k0 # evs) fp k t =
    (fp0 = fp \<and> fp \<noteq> [] \<and> k0 \<noteq> [] \<and> same k0 k \<and> t < t0 + ResourceAuthorizationTTL \<or> backed same evs fp k t)"
| "backed same (EvCheck _ _ _ # evs) fp k t = backed same evs fp k t"
| "backed same (EvRevoke fp0 # evs) fp k t = ((fp0 \<noteq> fp \<or> fp = []) \<and> backed same evs fp k t)"

text \<open>The state after a history, latest event first.\<close>

fun replay ::
  "(gotime \<Rightarrow> string \<Rightarrow> string \<Rightarrow> 's \<Rightarrow> 's) \<Rightarrow> (gotime \<Rightarrow> string \<Rightarrow> string \<Rightarrow> 's \<Rightarrow> 's \<times> bool) \<Rightarrow> (string \<Rightarrow> 's \<Rightarrow> 's) \<Rightarrow>
    grant_event list \<Rightarrow> 's \<Rightarrow> 's" where
  "replay grant authorized revoke [] s = s"
| "replay grant authorized revoke (EvGrant t fp k # evs) s =
    grant t fp k (replay grant authorized revoke evs s)"
| "replay grant authorized revoke (EvCheck t fp k # evs) s =
    fst (authorized t fp k (replay grant authorized revoke evs s))"
| "replay grant authorized revoke (EvRevoke fp # evs) s = revoke fp (replay grant authorized revoke evs s)"

locale authorization =
  fixes lease :: "'s \<Rightarrow> string \<Rightarrow> string \<Rightarrow> gotime option"
    and grant :: "gotime \<Rightarrow> string \<Rightarrow> string \<Rightarrow> 's \<Rightarrow> 's"
    and authorized :: "gotime \<Rightarrow> string \<Rightarrow> string \<Rightarrow> 's \<Rightarrow> 's \<times> bool"
    and revoke :: "string \<Rightarrow> 's \<Rightarrow> 's"
    and inv :: "'s \<Rightarrow> bool"
    and same :: "string \<Rightarrow> string \<Rightarrow> bool"
  assumes authorized_lease:
      "snd (authorized t fp k s) \<longleftrightarrow> fp \<noteq> [] \<and> k \<noteq> [] \<and> (\<exists>x. lease s fp k = Some x \<and> t < x)"
    and authorized_keeps: "lease (fst (authorized t fp k s)) fp' k' = Some x \<Longrightarrow> lease s fp' k' = Some x"
    and grant_adds: "inv s \<Longrightarrow> lease (grant t fp k s) fp' k' = Some x \<Longrightarrow>
      lease s fp' k' = Some x \<or>
      fp \<noteq> [] \<and> k \<noteq> [] \<and> fp' = fp \<and> same k k' \<and> x = t + ResourceAuthorizationTTL"
    and revoke_drops: "inv s \<Longrightarrow> lease (revoke fp s) fp' k' = Some x \<Longrightarrow>
      lease s fp' k' = Some x \<and> (fp' \<noteq> fp \<or> fp = [])"
    and inv_step: "inv s \<Longrightarrow> inv (grant t fp k s)" "inv s \<Longrightarrow> inv (fst (authorized t fp k s))"
      "inv s \<Longrightarrow> inv (revoke fp s)"
begin

abbreviation "state_after \<equiv> replay grant authorized revoke"

lemma inv_after: "inv s \<Longrightarrow> inv (state_after evs s)"
proof (induction evs)
  case (Cons ev evs)
  then show ?case by (cases ev) (simp_all add: inv_step)
qed simp

lemma lease_backed:
  assumes "inv s" "\<And>fp k. lease s fp k = None" "t < x"
  shows "lease (state_after evs s) fp k = Some x \<Longrightarrow> backed same evs fp k t"
proof (induction evs)
  case Nil
  then show ?case using assms(2) by simp
next
  case (Cons ev evs)
  note inv = inv_after [OF assms(1), of evs]
  show ?case
  proof (cases ev)
    case (EvGrant t0 fp0 k0)
    with Cons.prems grant_adds [OF inv, of t0 fp0 k0 fp k x]
    have "lease (state_after evs s) fp k = Some x \<or>
      fp0 \<noteq> [] \<and> k0 \<noteq> [] \<and> fp = fp0 \<and> same k0 k \<and> x = t0 + ResourceAuthorizationTTL" by simp
    with Cons.IH assms(3) EvGrant show ?thesis by auto
  next
    case (EvCheck t0 fp0 k0)
    with Cons authorized_keeps [of t0 fp0 k0 "state_after evs s" fp k x] show ?thesis by simp
  next
    case (EvRevoke fp0)
    with Cons revoke_drops [OF inv, of fp0 fp k x] show ?thesis by auto
  qed
qed

lemma authorized_backed:
  assumes "inv s" "\<And>fp k. lease s fp k = None" "snd (authorized t fp k (state_after evs s))"
  shows "fp \<noteq> [] \<and> k \<noteq> [] \<and> backed same evs fp k t"
proof -
  from assms(3) obtain x where "fp \<noteq> []" "k \<noteq> []" "lease (state_after evs s) fp k = Some x" "t < x"
    unfolding authorized_lease by blast
  then show ?thesis using lease_backed [OF assms(1,2)] by blast
qed

end

section \<open>The lease table meets the contract\<close>

definition leaseOf :: "(string \<Rightarrow> string) \<Rightarrow> ResourceGrants option \<Rightarrow> string \<Rightarrow> string \<Rightarrow> gotime option" where
  "leaseOf sha go fp k = (case go of None \<Rightarrow> None | Some g \<Rightarrow> map_of g (grantKey sha fp k))"

lemma grantKey_eq: "grantKey sha fp k = grantKey sha fp' k' \<longleftrightarrow> fp = fp' \<and> sha k = sha k'"
  by (simp add: grantKey_def)

lemma leaseOf_Authorized:
  "snd (Authorized sha t fp k go) \<longleftrightarrow> fp \<noteq> [] \<and> k \<noteq> [] \<and> (\<exists>x. leaseOf sha go fp k = Some x \<and> t < x)"
  by (auto simp: Authorized_def leaseOf_def Let_def split: option.split)

lemma leaseOf_Authorized_keeps:
  "leaseOf sha (fst (Authorized sha t fp k go)) fp' k' = Some x \<Longrightarrow> leaseOf sha go fp' k' = Some x"
  by (auto simp: Authorized_def leaseOf_def Let_def map_of_delete split: option.splits if_splits)

lemma leaseOf_Grant:
  assumes "grants_inv go" "leaseOf sha (Grant sha t fp k go) fp' k' = Some x"
  shows "leaseOf sha go fp' k' = Some x \<or>
    fp \<noteq> [] \<and> k \<noteq> [] \<and> fp' = fp \<and> sha k = sha k' \<and> x = t + ResourceAuthorizationTTL"
proof (cases go)
  case (Some g)
  with assms(1) have wf: "wf_map g" by (simp add: grants_inv_def)
  show ?thesis
    using assms(2) Some evict_keeps [OF _ wf, of t "grantKey sha fp' k'" x]
    by (auto simp: Grant_def leaseOf_def Let_def map_of_update grantKey_eq split: if_splits)
qed (use assms(2) in \<open>simp add: Grant_def\<close>)

lemma leaseOf_Revoke:
  assumes "grants_inv go" "leaseOf sha (Revoke fp go) fp' k' = Some x"
  shows "leaseOf sha go fp' k' = Some x \<and> (fp' \<noteq> fp \<or> fp = [])"
  using assms
  by (auto simp: Revoke_def leaseOf_def grants_inv_def map_of_filter_key grantKey_def split: option.splits if_splits)

interpretation grants: authorization "leaseOf sha" "Grant sha" "Authorized sha" Revoke grants_inv
  "\<lambda>k k'. sha k = sha k'"
  by unfold_locales
     (fact leaseOf_Authorized, erule leaseOf_Authorized_keeps, erule (1) leaseOf_Grant,
      erule (1) leaseOf_Revoke, (erule grants_inv_ops)+)

text \<open>
  C15. Reuse is always backed: after any history of grants, checks and revocations of a fresh
  lease table, a check succeeds only if the same credential was granted the resource less
  than thirty seconds before and was not revoked since. Checks never extend a lease, and an
  empty fingerprint or resource is never authorized. Resources are told apart by digest.
\<close>

theorem Authorized_backed:
  assumes "snd (Authorized sha t fp k (replay (Grant sha) (Authorized sha) Revoke evs (Some NewResourceGrants)))"
  shows "fp \<noteq> [] \<and> k \<noteq> [] \<and> backed (\<lambda>k k'. sha k = sha k') evs fp k t"
  by (rule grants.authorized_backed [OF _ _ assms])
     (simp_all add: grants_inv_def NewResourceGrants_def leaseOf_def)


section \<open>Witnesses\<close>

theorem Authorized_backed_witness:
  "snd (Authorized id 29 ''fp'' ''key'' (replay (Grant id) (Authorized id) Revoke
      [EvGrant 0 ''fp'' ''key''] (Some NewResourceGrants))) \<and>
   backed (\<lambda>k k'. id k = id k') [EvGrant 0 ''fp'' ''key''] ''fp'' ''key'' 29"
proof -
  have "snd (Authorized id 29 ''fp'' ''key'' (replay (Grant id) (Authorized id) Revoke
      [EvGrant 0 ''fp'' ''key''] (Some NewResourceGrants)))" by code_simp
  with Authorized_backed [OF this] show ?thesis by blast
qed


end
