(* ===== verification/Identity.thy ===== *)
theory Identity
  imports Trace Go_Strings
begin

text \<open>
  Identity resolution (\<^verbatim>\<open>internal/identity/identity.go\<close>): a request's token fingerprint is
  resolved to a Plex account and a client instance, through two process-local caches, the
  link table and plex.tv. What the database and plex.tv answer during one call is the
  record \<open>answers\<close>; what the call writes is returned as a list. All instants of one call are
  one clock reading \<open>now\<close>.
\<close>

section \<open>State\<close>

definition revalidateAfter :: duration where
  "revalidateAfter = hour"

definition credentialValidityPeriod :: duration where
  "credentialValidityPeriod = 24 * hour"

definition memTTL :: duration where
  "memTTL = 5 * minute"

definition memMax :: nat where
  "memMax = 4096"

record PlexClient =
  Identifier :: string
  cProduct :: string
  cVersion :: string
  cPlatform :: string
  cDevice :: string
  cModel :: string

definition FromTrace :: "Client \<Rightarrow> PlexClient" where
  "FromTrace c = \<lparr>Identifier = ID c, cProduct = Product c, cVersion = Version c,
     cPlatform = Platform c, cDevice = Device c, cModel = Model c\<rparr>"

record Resolved =
  Scope :: string
  IdentityID :: string
  ClientID :: string
  AccountID :: int
  Known :: bool
  Fresh :: bool
  Invalid :: bool
  Degraded :: bool

definition scoped :: "string \<Rightarrow> Resolved" where
  "scoped scope = \<lparr>Scope = scope, IdentityID = [], ClientID = [], AccountID = 0, Known = False,
     Fresh = False, Invalid = False, Degraded = False\<rparr>"

record acctEntry =
  scope :: string
  identityID :: string
  accountID :: int
  known :: bool
  fresh :: bool
  invalid :: bool
  acctAt :: gotime

record cliEntry =
  clientID :: string
  cliAt :: gotime

record Resolver =
  hasDB :: bool
  hasTV :: bool
  acct :: "(string \<times> acctEntry) list"
  cli :: "(string \<times> cliEntry) list"
  srv :: string
  srvAt :: gotime

definition NewResolver :: "bool \<Rightarrow> bool \<Rightarrow> Resolver" where
  "NewResolver db tv = \<lparr>hasDB = db, hasTV = tv, acct = [], cli = [], srv = [], srvAt = 0\<rparr>"

section \<open>The environment of one call\<close>

datatype tv_answer = TvUser int string | TvStatus int | TvError

record link_row =
  rowIdentity :: "string option"
  rowAccount :: "int option"
  rowStatus :: string
  rowValidatedAt :: "gotime option"

datatype db_write =
    WIdentity string int string
  | WUsername string string
  | WLink string string string
  | WInvalid string string
  | WTouch string string
  | WClient string PlexClient
  | WBinding string string

text \<open>
  \<open>qLink\<close> is \<open>None\<close> when the row is missing or the query fails, \<open>insIdentity\<close> and
  \<open>qIdentity\<close> are the insert and the select of \<^verbatim>\<open>upsertIdentity\<close>, and \<open>qClient\<close> is empty when the upsert of the client
  instance fails.
\<close>

record answers =
  qServer :: "string option"
  qLink :: "string \<Rightarrow> string \<Rightarrow> link_row option"
  getUser :: "string \<Rightarrow> tv_answer"
  insIdentity :: "string \<Rightarrow> int \<Rightarrow> bool"
  qIdentity :: "string \<Rightarrow> int \<Rightarrow> string option"
  qClient :: "string \<Rightarrow> PlexClient \<Rightarrow> string"

definition isAuthFailure :: "tv_answer \<Rightarrow> bool" where
  "isAuthFailure a = (case a of TvStatus code \<Rightarrow> code = 401 \<or> code = 403 | _ \<Rightarrow> False)"

definition enabledServer :: "answers \<Rightarrow> gotime \<Rightarrow> Resolver \<Rightarrow> Resolver \<times> string" where
  "enabledServer env now r =
    (if srv r \<noteq> [] \<and> now - srvAt r < minute then (r, srv r)
     else if \<not> hasDB r then (r, [])
     else (case qServer env of
             None \<Rightarrow> (r, [])
           | Some aid \<Rightarrow> (r\<lparr>srv := aid, srvAt := now\<rparr>, aid)))"

definition recordClient :: "answers \<Rightarrow> string \<Rightarrow> string \<Rightarrow> PlexClient \<Rightarrow> string \<times> db_write list" where
  "recordClient env serverID iid client =
    (if Identifier client = [] then ([], [])
     else let cid = qClient env serverID client in
       if cid = [] \<or> iid = [] then (cid, [WClient serverID client])
       else (cid, [WClient serverID client, WBinding iid cid]))"

definition upsertIdentity :: "answers \<Rightarrow> string \<Rightarrow> int \<Rightarrow> string \<Rightarrow> string \<times> db_write list" where
  "upsertIdentity env serverID acc username =
    (if \<not> insIdentity env serverID acc then ([], [])
     else (case qIdentity env serverID acc of
             None \<Rightarrow> ([], [WIdentity serverID acc username])
           | Some aid \<Rightarrow> (aid, [WIdentity serverID acc username, WUsername aid username])))"

definition tokScope :: "string \<Rightarrow> string" where
  "tokScope fp = ''tok:'' @ fp"

definition acctScope :: "int \<Rightarrow> string" where
  "acctScope aid = ''acct:'' @ itoa aid"

section \<open>The cold path\<close>

text \<open>An account plex.tv has just proven: bind it, or stay token-scoped if that fails.\<close>

definition bindProven ::
  "answers \<Rightarrow> string \<Rightarrow> string \<Rightarrow> PlexClient \<Rightarrow> int \<Rightarrow> string \<Rightarrow> Resolved \<times> bool \<times> db_write list" where
  "bindProven env serverID fp client aid username =
    (let (iid, w1) = upsertIdentity env serverID aid username;
         w2 = w1 @ [WLink serverID iid fp]
     in if iid = [] then (scoped (tokScope fp), True, w2)
        else let (cid, w3) = recordClient env serverID iid client in
          (\<lparr>Scope = acctScope aid, IdentityID = iid, ClientID = cid, AccountID = aid, Known = True,
             Fresh = True, Invalid = False, Degraded = False\<rparr>, True, w2 @ w3))"

definition resolveStale ::
  "answers \<Rightarrow> string \<Rightarrow> string \<Rightarrow> string \<Rightarrow> PlexClient \<Rightarrow> string \<Rightarrow> int \<Rightarrow> Resolved \<times> bool \<times> db_write list" where
  "resolveStale env serverID fp token client iid acc =
    (let answer = getUser env token;
         degraded = (let (cid, w) = recordClient env serverID iid client in
           (\<lparr>Scope = acctScope acc, IdentityID = iid, ClientID = cid, AccountID = acc, Known = True,
              Fresh = False, Invalid = False, Degraded = True\<rparr>, False, w))
     in if isAuthFailure answer
        then ((scoped (tokScope fp))\<lparr>Invalid := True\<rparr>, True, [WInvalid serverID fp])
        else (case answer of
                TvUser aid username \<Rightarrow> if aid \<noteq> 0 then bindProven env serverID fp client aid username else degraded
              | _ \<Rightarrow> degraded))"

definition resolveUnlinked ::
  "answers \<Rightarrow> Resolver \<Rightarrow> string \<Rightarrow> string \<Rightarrow> string \<Rightarrow> PlexClient \<Rightarrow> Resolved \<times> bool \<times> db_write list" where
  "resolveUnlinked env r serverID fp token client =
    (let fallback = scoped (tokScope fp) in
     if \<not> hasTV r \<or> token = [] then (fallback, True, [])
     else (case getUser env token of
             TvUser aid username \<Rightarrow>
               if aid = 0 then (fallback, True, []) else bindProven env serverID fp client aid username
           | a \<Rightarrow> if isAuthFailure a then (fallback\<lparr>Invalid := True\<rparr>, True, [WInvalid serverID fp])
                  else (fallback\<lparr>Degraded := True\<rparr>, False, [])))"

text \<open>The row variables keep their zero values when the query fails.\<close>

definition linkOrZero :: "link_row option \<Rightarrow> link_row" where
  "linkOrZero l = (case l of Some row \<Rightarrow> row
     | None \<Rightarrow> \<lparr>rowIdentity = None, rowAccount = None, rowStatus = [], rowValidatedAt = None\<rparr>)"

definition within :: "gotime \<Rightarrow> gotime option \<Rightarrow> duration \<Rightarrow> bool" where
  "within now at d = (case at of None \<Rightarrow> False | Some v \<Rightarrow> now - v < d)"

definition resolveCold ::
  "answers \<Rightarrow> gotime \<Rightarrow> string \<Rightarrow> string \<Rightarrow> PlexClient \<Rightarrow> Resolver \<Rightarrow> Resolver \<times> Resolved \<times> bool \<times> db_write list" where
  "resolveCold env now fp token client r =
    (let fallback = scoped (tokScope fp) in
     if \<not> hasDB r then (r, fallback, True, [])
     else let (r, serverID) = enabledServer env now r in
       if serverID = [] then (r, fallback, True, [])
       else let row = linkOrZero (qLink env serverID fp) in
         if rowStatus row = ''invalid'' then
           (if within now (rowValidatedAt row) revalidateAfter then (r, fallback\<lparr>Invalid := True\<rparr>, True, [])
            else (r, resolveUnlinked env r serverID fp token client))
         else (case (rowIdentity row, rowAccount row) of
                 (Some iid, Some acc) \<Rightarrow>
                   if iid = [] then (r, resolveUnlinked env r serverID fp token client)
                   else let isFresh = within now (rowValidatedAt row) credentialValidityPeriod in
                     if isFresh \<or> \<not> hasTV r \<or> token = [] then
                       (let (cid, w) = recordClient env serverID iid client in
                        (r, \<lparr>Scope = acctScope acc, IdentityID = iid, ClientID = cid, AccountID = acc,
                             Known = True, Fresh = isFresh, Invalid = False, Degraded = False\<rparr>,
                         True, w @ [WTouch serverID fp]))
                     else (r, resolveStale env serverID fp token client iid acc)
               | _ \<Rightarrow> (r, resolveUnlinked env r serverID fp token client)))"

section \<open>Resolution\<close>

definition resolveClient ::
  "answers \<Rightarrow> gotime \<Rightarrow> string \<Rightarrow> PlexClient \<Rightarrow> Resolver \<Rightarrow> Resolver \<times> string \<times> db_write list" where
  "resolveClient env now iid client r =
    (if \<not> hasDB r \<or> Identifier client = [] then (r, [], [])
     else let (r, serverID) = enabledServer env now r in
       if serverID = [] then (r, [], []) else (r, recordClient env serverID iid client))"

definition evictAcctLocked :: "(string \<times> acctEntry) list \<Rightarrow> (string \<times> acctEntry) list" where
  "evictAcctLocked m =
    AList.delete (case scan_least (\<lambda>(_, e). acctAt e) m of None \<Rightarrow> [] | Some (k, _) \<Rightarrow> k) m"

definition evictCliLocked :: "(string \<times> cliEntry) list \<Rightarrow> (string \<times> cliEntry) list" where
  "evictCliLocked m =
    AList.delete (case scan_least (\<lambda>(_, e). cliAt e) m of None \<Rightarrow> [] | Some (k, _) \<Rightarrow> k) m"

definition cliKey :: "string \<Rightarrow> PlexClient \<Rightarrow> string" where
  "cliKey fp client = fp @ CHR 0x00 # Identifier client"

definition ofEntry :: "acctEntry \<Rightarrow> Resolved" where
  "ofEntry a = \<lparr>Scope = scope a, IdentityID = identityID a, ClientID = [], AccountID = accountID a,
     Known = known a, Fresh = fresh a, Invalid = invalid a, Degraded = False\<rparr>"

definition toEntry :: "gotime \<Rightarrow> Resolved \<Rightarrow> acctEntry" where
  "toEntry now res = \<lparr>scope = Scope res, identityID = IdentityID res, accountID = AccountID res,
     known = Known res, fresh = Fresh res, invalid = Invalid res, acctAt = now\<rparr>"

text \<open>The warm path, for an account entry within its lifetime.\<close>

definition resolveWarm ::
  "answers \<Rightarrow> gotime \<Rightarrow> string \<Rightarrow> PlexClient \<Rightarrow> acctEntry \<Rightarrow> Resolver \<Rightarrow> Resolver \<times> Resolved \<times> db_write list" where
  "resolveWarm env now fp client a r =
    (let out = ofEntry a; key = cliKey fp client in
     if Identifier client = [] then (r, out, [])
     else let cached = map_of (cli r) key in
       if (case cached of Some c \<Rightarrow> now - cliAt c < memTTL | None \<Rightarrow> False)
       then (r, out\<lparr>ClientID := clientID (the cached)\<rparr>, [])
       else let (r, cid, w) = resolveClient env now (identityID a) client r;
                r' = (if cid \<noteq> [] then r\<lparr>cli := AList.update key \<lparr>clientID = cid, cliAt = now\<rparr> (cli r)\<rparr> else r)
         in (r', out\<lparr>ClientID := cid\<rparr>, w))"

text \<open>The cold path with its cache updates: a degraded outcome is not cached.\<close>

definition coldStore ::
  "answers \<Rightarrow> gotime \<Rightarrow> string \<Rightarrow> string \<Rightarrow> PlexClient \<Rightarrow> Resolver \<Rightarrow> Resolver \<times> Resolved \<times> db_write list" where
  "coldStore env now fp token client r =
    (let (r, res, store, w) = resolveCold env now fp token client r;
         r = (if store
              then r\<lparr>acct := AList.update fp (toEntry now res)
                     (if length (acct r) \<ge> memMax then evictAcctLocked (acct r) else acct r)\<rparr>
              else r)
     in if Identifier client = [] then (r, res, w)
        else let c = (if length (cli r) \<ge> memMax then evictCliLocked (cli r) else cli r);
                 c = (if ClientID res \<noteq> []
                      then AList.update (cliKey fp client) \<lparr>clientID = ClientID res, cliAt = now\<rparr> c else c)
          in (r\<lparr>cli := c\<rparr>, res, w))"

definition Resolve ::
  "answers \<Rightarrow> gotime \<Rightarrow> string \<Rightarrow> string \<Rightarrow> PlexClient \<Rightarrow> Resolver \<Rightarrow> Resolver \<times> Resolved \<times> db_write list" where
  "Resolve env now fp token client r =
    (if fp = [] then (r, scoped (tokScope fp), [])
     else (case map_of (acct r) fp of
       Some a \<Rightarrow>
         if now - acctAt a < memTTL then resolveWarm env now fp client a r
         else coldStore env now fp token client r
     | None \<Rightarrow> coldStore env now fp token client r))"

section \<open>Well-formed outcomes\<close>

text \<open>What an outcome may look like for a fingerprint.\<close>

definition wf_resolved :: "string \<Rightarrow> Resolved \<Rightarrow> bool" where
  "wf_resolved fp res \<longleftrightarrow>
    (if Known res then Scope res = acctScope (AccountID res) \<and> IdentityID res \<noteq> [] \<and> \<not> Invalid res
     else Scope res = tokScope fp \<and> IdentityID res = [] \<and> \<not> Fresh res) \<and>
    (Degraded res \<longrightarrow> \<not> Fresh res \<and> \<not> Invalid res)"

lemma wf_scoped [simp]: "wf_resolved fp (scoped (tokScope fp))"
  "wf_resolved fp ((scoped (tokScope fp))\<lparr>Invalid := True\<rparr>)"
  "wf_resolved fp ((scoped (tokScope fp))\<lparr>Degraded := True\<rparr>)"
  by (simp_all add: wf_resolved_def scoped_def)

lemma scoped_sel [simp]: "Degraded (scoped x) = False" "ClientID (scoped x) = []"
  by (simp_all add: scoped_def)

lemma bindProven_wf:
  assumes "bindProven env s fp client aid u = (res, store, w)"
  shows "wf_resolved fp res" "store = (\<not> Degraded res)"
  using assms by (auto simp: bindProven_def wf_resolved_def scoped_def Let_def split: prod.splits if_splits)

lemma resolveStale_wf:
  assumes "resolveStale env s fp token client iid acc = (res, store, w)" "iid \<noteq> []"
  shows "wf_resolved fp res" "store = (\<not> Degraded res)"
proof -
  consider (auth) "isAuthFailure (getUser env token)"
    | (user) aid u where "getUser env token = TvUser aid u" "aid \<noteq> 0"
    | (degraded) "\<not> isAuthFailure (getUser env token)" "\<nexists>aid u. getUser env token = TvUser aid u \<and> aid \<noteq> 0"
    by blast
  then have "wf_resolved fp res \<and> store = (\<not> Degraded res)"
  proof cases
    case auth
    then show ?thesis using assms(1) by (auto simp: resolveStale_def Let_def)
  next
    case user
    then have "bindProven env s fp client aid u = (res, store, w)"
      using assms(1) by (simp add: resolveStale_def Let_def isAuthFailure_def)
    then show ?thesis using bindProven_wf by blast
  next
    case degraded
    then show ?thesis
      using assms by (cases "getUser env token") (auto simp: resolveStale_def Let_def wf_resolved_def split: prod.splits)
  qed
  then show "wf_resolved fp res" "store = (\<not> Degraded res)" by blast+
qed

lemma resolveUnlinked_wf:
  assumes "resolveUnlinked env r s fp token client = (res, store, w)"
  shows "wf_resolved fp res" "store = (\<not> Degraded res)"
  using assms bindProven_wf [of env s fp client _ _ res store w]
  by (auto simp: resolveUnlinked_def Let_def split: if_splits tv_answer.splits)

lemma enabledServer_keeps:
  assumes "enabledServer env now r = (r', s)"
  shows "acct r' = acct r" "cli r' = cli r" "hasDB r' = hasDB r" "hasTV r' = hasTV r"
  using assms by (auto simp: enabledServer_def split: if_splits option.splits)

text \<open>The ways the cold path can end.\<close>

lemma resolveCold_cases:
  assumes "resolveCold env now fp token client r = (r', out)"
  obtains (fallback) "out = (scoped (tokScope fp), True, [])"
  | (invalid) "out = ((scoped (tokScope fp))\<lparr>Invalid := True\<rparr>, True, [])"
  | (unlinked) s where "out = resolveUnlinked env r' s fp token client"
  | (linked) s iid acc isFresh cid w where "iid \<noteq> []" "recordClient env s iid client = (cid, w)"
      "out = (\<lparr>Scope = acctScope acc, IdentityID = iid, ClientID = cid, AccountID = acc,
         Known = True, Fresh = isFresh, Invalid = False, Degraded = False\<rparr>, True, w @ [WTouch s fp])"
  | (stale) s iid acc where "iid \<noteq> []" "out = resolveStale env s fp token client iid acc"
proof -
  obtain r1 s where es: "enabledServer env now r = (r1, s)" by fastforce
  let ?row = "linkOrZero (qLink env s fp)"
  consider "\<not> hasDB r \<or> s = []" | "hasDB r" "s \<noteq> []" "rowStatus ?row = ''invalid''"
    | iid acc where "hasDB r" "s \<noteq> []" "rowStatus ?row \<noteq> ''invalid''" "rowIdentity ?row = Some iid"
        "rowAccount ?row = Some acc" "iid \<noteq> []"
    | "hasDB r" "s \<noteq> []" "rowStatus ?row \<noteq> ''invalid''"
        "\<nexists>iid acc. rowIdentity ?row = Some iid \<and> rowAccount ?row = Some acc \<and> iid \<noteq> []"
    by blast
  then show thesis
  proof cases
    case 1
    then show thesis using assms es fallback by (auto simp: resolveCold_def Let_def split: if_splits)
  next
    case 2
    then show thesis
      using assms es invalid unlinked [of s] by (auto simp: resolveCold_def Let_def split: if_splits)
  next
    case (3 iid acc)
    obtain cid w where rc: "recordClient env s iid client = (cid, w)" by fastforce
    let ?fresh = "within now (rowValidatedAt ?row) credentialValidityPeriod"
    show thesis
    proof (cases "?fresh \<or> \<not> hasTV r1 \<or> token = []")
      case True
      show thesis
        by (rule linked [OF 3(6) rc, of acc ?fresh]) (use True 3 assms es rc in \<open>simp add: resolveCold_def Let_def\<close>)
    next
      case False
      show thesis
        by (rule stale [OF 3(6), of s acc]) (use False 3 assms es rc in \<open>simp add: resolveCold_def Let_def\<close>)
    qed
  next
    case 4
    then have "out = resolveUnlinked env r' s fp token client"
      using assms es by (auto simp: resolveCold_def Let_def split: option.splits if_splits)
    then show thesis by (rule unlinked)
  qed
qed

lemma resolveCold_keeps:
  assumes "resolveCold env now fp token client r = (r', out)"
  shows "acct r' = acct r" "cli r' = cli r" "hasDB r' = hasDB r" "hasTV r' = hasTV r"
proof -
  obtain r1 s where es: "enabledServer env now r = (r1, s)" by fastforce
  have "r' = r \<or> r' = r1"
    using assms es by (auto simp: resolveCold_def Let_def split: if_splits option.splits prod.splits)
  then show "acct r' = acct r" "cli r' = cli r" "hasDB r' = hasDB r" "hasTV r' = hasTV r"
    using enabledServer_keeps [OF es] by auto
qed

lemma resolveCold_wf:
  assumes "resolveCold env now fp token client r = (r', res, store, w)"
  shows "wf_resolved fp res" "store = (\<not> Degraded res)"
proof -
  from assms have "wf_resolved fp res \<and> store = (\<not> Degraded res)"
  proof (cases rule: resolveCold_cases)
    case (linked s iid acc isFresh cid w')
    then show ?thesis by (simp add: wf_resolved_def)
  next
    case (unlinked s)
    then show ?thesis using resolveUnlinked_wf [of env r' s fp token client res store w] by simp
  next
    case (stale s iid acc)
    then show ?thesis using resolveStale_wf [of env s fp token client iid acc res store w] by simp
  qed simp_all
  then show "wf_resolved fp res" "store = (\<not> Degraded res)" by blast+
qed

section \<open>The caches stay well-formed\<close>

definition resolver_inv :: "Resolver \<Rightarrow> bool" where
  "resolver_inv r \<longleftrightarrow> wf_map (acct r) \<and> length (acct r) \<le> memMax \<and>
    (\<forall>fp e. map_of (acct r) fp = Some e \<longrightarrow> wf_resolved fp (ofEntry e))"

lemma ofEntry_toEntry: "\<not> Degraded res \<Longrightarrow> ofEntry (toEntry now res) = res\<lparr>ClientID := []\<rparr>"
  by (simp add: ofEntry_def toEntry_def)

lemma wf_resolved_ClientID [simp]: "wf_resolved fp (res\<lparr>ClientID := c\<rparr>) = wf_resolved fp res"
  by (simp add: wf_resolved_def)

lemma length_evictAcct: "m \<noteq> [] \<Longrightarrow> length (evictAcctLocked m) < length m"
  using length_delete_scanned [of "\<lambda>(_, e). acctAt e" m] scan_least_None [of "\<lambda>(_, e). acctAt e" m]
  by (auto simp: evictAcctLocked_def split: option.split)

lemma evictAcct_keeps:
  "map_of (evictAcctLocked m) k = Some e \<Longrightarrow> map_of m k = Some e" "wf_map m \<Longrightarrow> wf_map (evictAcctLocked m)"
  by (auto simp: evictAcctLocked_def map_of_delete split: if_splits)

lemma resolveClient_keeps:
  assumes "resolveClient env now iid client r = (r', c, w)"
  shows "acct r' = acct r" "cli r' = cli r"
  using assms enabledServer_keeps
  by (auto simp: resolveClient_def Let_def split: if_splits prod.splits)

lemma resolveWarm_acct:
  assumes "resolveWarm env now fp client a r = (r', res, w)"
  shows "acct r' = acct r" "res = (ofEntry a)\<lparr>ClientID := ClientID res\<rparr>"
  using assms resolveClient_keeps(1)
  by (auto simp: resolveWarm_def Let_def ofEntry_def split: if_splits prod.splits)

text \<open>The account table after the cold path.\<close>

lemma coldStore_acct:
  assumes "coldStore env now fp token client r = (r', res, w)"
  obtains r1 store where "resolveCold env now fp token client r = (r1, res, store, w)"
    "acct r' = (if store then AList.update fp (toEntry now res)
       (if length (acct r) \<ge> memMax then evictAcctLocked (acct r) else acct r) else acct r)"
proof -
  obtain r1 res1 store w1 where c: "resolveCold env now fp token client r = (r1, res1, store, w1)"
    by (metis prod_cases4)
  with assms have "res1 = res" "w1 = w"
    by (auto simp: coldStore_def Let_def split: if_splits)
  moreover have "acct r' = (if store then AList.update fp (toEntry now res)
       (if length (acct r) \<ge> memMax then evictAcctLocked (acct r) else acct r) else acct r)"
    using assms c resolveCold_keeps(1) [OF c] calculation
    by (auto simp: coldStore_def Let_def split: if_splits)
  ultimately show thesis using that c by blast
qed

lemma coldStore_inv:
  assumes "resolver_inv r" "coldStore env now fp token client r = (r', res, w)"
  shows "resolver_inv r' \<and> wf_resolved fp res"
proof -
  from assms(2) obtain r1 store where c: "resolveCold env now fp token client r = (r1, res, store, w)"
    and a: "acct r' = (if store then AList.update fp (toEntry now res)
       (if length (acct r) \<ge> memMax then evictAcctLocked (acct r) else acct r) else acct r)"
    by (rule coldStore_acct)
  note wf = resolveCold_wf [OF c]
  let ?base = "if length (acct r) \<ge> memMax then evictAcctLocked (acct r) else acct r"
  have base: "wf_map ?base" "length ?base < memMax"
    "map_of ?base k = Some e \<Longrightarrow> wf_resolved k (ofEntry e)" for k e
  proof -
    show "wf_map ?base" using assms(1) by (simp add: resolver_inv_def evictAcct_keeps(2))
    have "acct r \<noteq> []" if "length (acct r) \<ge> memMax" using that by (auto simp: memMax_def)
    then show "length ?base < memMax"
      using assms(1) length_evictAcct [of "acct r"] by (auto simp: resolver_inv_def)
    assume "map_of ?base k = Some e"
    then have "map_of (acct r) k = Some e" by (auto dest: evictAcct_keeps(1) split: if_splits)
    then show "wf_resolved k (ofEntry e)" using assms(1) by (simp add: resolver_inv_def)
  qed
  have "resolver_inv r'"
  proof (cases store)
    case True
    then have "wf_resolved fp (ofEntry (toEntry now res))" using wf by (simp add: ofEntry_toEntry)
    moreover have "length (AList.update fp (toEntry now res) ?base) \<le> memMax"
      using length_update_le [of fp "toEntry now res" ?base] base(2) by linarith
    ultimately show ?thesis
      using base a True by (simp add: resolver_inv_def map_of_update)
  next
    case False
    then show ?thesis using assms(1) a by (simp add: resolver_inv_def)
  qed
  with wf show ?thesis by blast
qed

lemma Resolve_inv:
  assumes "resolver_inv r" "Resolve env now fp token client r = (r', res, w)"
  shows "resolver_inv r' \<and> wf_resolved fp res"
proof (cases "map_of (acct r) fp")
  case (Some a)
  show ?thesis
  proof (cases "fp \<noteq> [] \<and> now - acctAt a < memTTL")
    case True
    then have "resolveWarm env now fp client a r = (r', res, w)"
      using assms(2) Some by (simp add: Resolve_def)
    from resolveWarm_acct [OF this] show ?thesis
      using assms(1) Some by (metis resolver_inv_def wf_resolved_ClientID)
  next
    case False
    then show ?thesis
      using assms Some coldStore_inv by (auto simp: Resolve_def split: if_splits)
  qed
next
  case None
  then show ?thesis
    using assms coldStore_inv by (auto simp: Resolve_def split: if_splits)
qed

section \<open>Histories\<close>

record call =
  callEnv :: answers
  callNow :: gotime
  callFp :: string
  callToken :: string
  callClient :: PlexClient

definition resolveCall :: "call \<Rightarrow> Resolver \<Rightarrow> Resolver \<times> Resolved \<times> db_write list" where
  "resolveCall c r = Resolve (callEnv c) (callNow c) (callFp c) (callToken c) (callClient c) r"

definition resolveRun :: "call list \<Rightarrow> Resolver \<Rightarrow> Resolver" where
  "resolveRun cs r = fold (\<lambda>c r. fst (resolveCall c r)) cs r"

lemma resolveRun_inv:
  assumes "P r" "\<And>c r. c \<in> set cs \<Longrightarrow> P r \<Longrightarrow> P (fst (resolveCall c r))"
  shows "P (resolveRun cs r)"
  using assms unfolding resolveRun_def by (induction cs arbitrary: r) simp_all

text \<open>
  \<open>owner\<close> is the client identifier of a client instance row. The environment respects it when
  the upsert for a device answers the row of that device, which the unique constraint of
  \<^verbatim>\<open>client_instances\<close> gives.
\<close>

definition env_owned :: "(string \<Rightarrow> string) \<Rightarrow> answers \<Rightarrow> bool" where
  "env_owned owner env \<longleftrightarrow> (\<forall>s c. qClient env s c \<noteq> [] \<longrightarrow> owner (qClient env s c) = Identifier c)"

definition call_owned :: "(string \<Rightarrow> string) \<Rightarrow> call \<Rightarrow> bool" where
  "call_owned owner c \<longleftrightarrow> env_owned owner (callEnv c) \<and> CHR 0x00 \<notin> set (callFp c)"

section \<open>A concrete environment\<close>

definition demoEnv :: answers where
  "demoEnv = \<lparr>qServer = Some ''srv'', qLink = (\<lambda>_ _. None),
     getUser = (\<lambda>t. if t = ''bad'' then TvStatus 401 else if t = ''slow'' then TvStatus 503 else TvUser 7 ''ann''),
     insIdentity = (\<lambda>_ _. True), qIdentity = (\<lambda>_ _. Some ''i7''), qClient = (\<lambda>_ c. ''row-'' @ Identifier c)\<rparr>"

definition demoDevice :: "string \<Rightarrow> PlexClient" where
  "demoDevice d = \<lparr>Identifier = d, cProduct = [], cVersion = [], cPlatform = [], cDevice = [], cModel = []\<rparr>"

definition demoCall :: "gotime \<Rightarrow> string \<Rightarrow> call" where
  "demoCall now d = \<lparr>callEnv = demoEnv, callNow = now, callFp = ''fp'', callToken = ''t'', callClient = demoDevice d\<rparr>"

lemma demo_owned: "call_owned (drop 4) (demoCall now d)"
  by (simp add: call_owned_def env_owned_def demoCall_def demoEnv_def)

lemma Resolve_split:
  "Resolve env now fp token client r = (fst (Resolve env now fp token client r),
     fst (snd (Resolve env now fp token client r)), snd (snd (Resolve env now fp token client r)))"
  by simp

text \<open>
  C17. Whatever the database and plex.tv answered before, an outcome is consistent: a known
  identity carries the account's scope and is never marked invalid, an unknown one is
  scoped by its own token fingerprint and carries no identity and no freshness, a degraded
  outcome is neither fresh nor invalid; and the account cache holds at most 4096 entries.
\<close>

theorem Resolve_consistent:
  assumes "Resolve env now fp token client (resolveRun calls (NewResolver db tv)) = (r', res, w)"
  shows "length (acct r') \<le> 4096 \<and>
    (if Known res then Scope res = ''acct:'' @ itoa (AccountID res) \<and> IdentityID res \<noteq> [] \<and> \<not> Invalid res
     else Scope res = ''tok:'' @ fp \<and> IdentityID res = [] \<and> \<not> Fresh res) \<and>
    (Degraded res \<longrightarrow> \<not> Fresh res \<and> \<not> Invalid res)"
proof -
  have "resolver_inv (resolveRun calls (NewResolver db tv))"
  proof (rule resolveRun_inv)
    show "resolver_inv (NewResolver db tv)" by (simp add: resolver_inv_def NewResolver_def)
    show "resolver_inv (fst (resolveCall c r))" if "resolver_inv r" for c r
      using Resolve_inv [OF that] by (metis prod.collapse resolveCall_def)
  qed
  from Resolve_inv [OF this assms] show ?thesis
    by (simp add: resolver_inv_def memMax_def wf_resolved_def acctScope_def tokScope_def)
qed

theorem Resolve_consistent_witness:
  "let r = resolveRun [demoCall 1 ''tv''] (NewResolver True True);
       out = Resolve demoEnv 5 ''fp'' ''t'' (demoDevice ''tv'') r
   in length (acct (fst out)) \<le> 4096 \<and> Known (fst (snd out)) \<and> Scope (fst (snd out)) = ''acct:7''"
proof -
  let ?out = "Resolve demoEnv 5 ''fp'' ''t'' (demoDevice ''tv'') (resolveRun [demoCall 1 ''tv''] (NewResolver True True))"
  have "Known (fst (snd ?out))" "''acct:'' @ itoa (AccountID (fst (snd ?out))) = ''acct:7''" by code_simp+
  with Resolve_consistent [OF Resolve_split, of demoEnv 5 "''fp''" "''t''" "demoDevice ''tv''" "[demoCall 1 ''tv'']" True True]
  show ?thesis unfolding Let_def by (simp only: if_True simp_thms)
qed

section \<open>Devices are kept apart\<close>

definition cli_owned :: "(string \<Rightarrow> string) \<Rightarrow> Resolver \<Rightarrow> bool" where
  "cli_owned owner r \<longleftrightarrow>
    (\<forall>k e. map_of (cli r) k = Some e \<longrightarrow>
       clientID e \<noteq> [] \<and> (\<exists>fp. CHR 0x00 \<notin> set fp \<and> k = fp @ CHR 0x00 # owner (clientID e)))"

lemma recordClient_owned:
  "env_owned owner env \<Longrightarrow> recordClient env s iid client = (cid, w) \<Longrightarrow> cid \<noteq> [] \<Longrightarrow> owner cid = Identifier client"
  by (auto simp: recordClient_def env_owned_def Let_def split: if_splits)

lemma bindProven_owned:
  "env_owned owner env \<Longrightarrow> bindProven env s fp client aid u = (res, st, w) \<Longrightarrow> ClientID res \<noteq> [] \<Longrightarrow>
    owner (ClientID res) = Identifier client"
  using recordClient_owned [of owner env s _ client]
  by (auto simp: bindProven_def Let_def split: prod.splits if_splits)

lemma resolveUnlinked_owned:
  assumes "env_owned owner env" "resolveUnlinked env r s fp token client = (res, st, w)" "ClientID res \<noteq> []"
  shows "owner (ClientID res) = Identifier client"
  using assms bindProven_owned [OF assms(1), of s fp client _ _ res st w]
  by (auto simp: resolveUnlinked_def Let_def split: tv_answer.splits if_splits)

lemma resolveStale_owned:
  assumes "env_owned owner env" "resolveStale env s fp token client iid acc = (res, st, w)" "ClientID res \<noteq> []"
  shows "owner (ClientID res) = Identifier client"
  using assms bindProven_owned [OF assms(1), of s fp client _ _ res st w]
    recordClient_owned [OF assms(1), of s iid client]
  by (auto simp: resolveStale_def Let_def split: tv_answer.splits if_splits prod.splits)

lemma resolveCold_owned:
  assumes "env_owned owner env" "resolveCold env now fp token client r = (r', res, st, w)" "ClientID res \<noteq> []"
  shows "owner (ClientID res) = Identifier client"
  using assms(2)
proof (cases rule: resolveCold_cases)
  case (unlinked s)
  then show ?thesis using resolveUnlinked_owned [OF assms(1) _ assms(3)] by metis
next
  case (linked s iid acc isFresh cid w')
  then show ?thesis using recordClient_owned [OF assms(1) linked(2)] assms(3) by simp
next
  case (stale s iid acc)
  then show ?thesis using resolveStale_owned [OF assms(1) _ assms(3)] by metis
qed (use assms(3) in simp_all)

lemma resolveClient_owned:
  assumes "env_owned owner env" "resolveClient env now iid client r = (r', cid, w)" "cid \<noteq> []"
  shows "owner cid = Identifier client"
  using assms recordClient_owned [OF assms(1), of _ iid client cid w]
  by (auto simp: resolveClient_def Let_def split: if_splits prod.splits)

lemma cli_owned_update:
  assumes "cli_owned owner r" "CHR 0x00 \<notin> set fp" "cid \<noteq> []" "owner cid = Identifier client"
    and "\<And>k e. map_of m k = Some e \<Longrightarrow> map_of (cli r) k = Some e"
  shows "cli_owned owner (r'\<lparr>cli := AList.update (cliKey fp client) \<lparr>clientID = cid, cliAt = now\<rparr> m\<rparr>)"
  using assms by (auto simp: cli_owned_def map_of_update cliKey_def)

lemma cli_owned_mono:
  assumes "cli_owned owner r" "\<And>k e. map_of (cli r') k = Some e \<Longrightarrow> map_of (cli r) k = Some e"
  shows "cli_owned owner r'"
  unfolding cli_owned_def
proof (intro allI impI)
  fix k e assume "map_of (cli r') k = Some e"
  then have "map_of (cli r) k = Some e" by (rule assms(2))
  with assms(1) show "clientID e \<noteq> [] \<and> (\<exists>fp. CHR 0x00 \<notin> set fp \<and> k = fp @ CHR 0x00 # owner (clientID e))"
    unfolding cli_owned_def by blast
qed

lemma evictCli_keeps: "map_of (evictCliLocked m) k = Some e \<Longrightarrow> map_of m k = Some e"
  by (auto simp: evictCliLocked_def delete_conv' restrict_map_def split: option.splits if_splits prod.splits)

lemma resolveWarm_owned:
  assumes "env_owned owner env" "cli_owned owner r" "CHR 0x00 \<notin> set fp"
    and "resolveWarm env now fp client a r = (r', res, w)"
  shows "cli_owned owner r' \<and> (ClientID res \<noteq> [] \<longrightarrow> owner (ClientID res) = Identifier client)"
proof -
  obtain r1 cid w1 where rc: "resolveClient env now (identityID a) client r = (r1, cid, w1)"
    by (cases "resolveClient env now (identityID a) client r")
  have r1: "cli_owned owner r1" "cli r1 = cli r"
    using resolveClient_keeps [OF rc] assms(2) by (simp_all add: cli_owned_def)
  have cached: "owner (clientID c) = Identifier client" if "map_of (cli r) (cliKey fp client) = Some c" for c
  proof -
    from assms(2) that obtain fp' where
      "CHR 0x00 \<notin> set fp'" "cliKey fp client = fp' @ CHR 0x00 # owner (clientID c)"
      unfolding cli_owned_def by metis
    then show ?thesis using assms(3) unfolding cliKey_def by (metis append_sep_inject)
  qed
  have new: "cid \<noteq> [] \<Longrightarrow> owner cid = Identifier client"
    using resolveClient_owned [OF assms(1) rc] .
  show ?thesis
    using assms(2,4) rc r1 cached new
      cli_owned_update [where m = "cli r1" and r' = r1 and now = now, OF r1(1) assms(3) _ new]
    by (auto simp: resolveWarm_def Let_def ofEntry_def split: if_splits option.splits)
qed

lemma coldStore_owned:
  assumes "env_owned owner env" "cli_owned owner r" "CHR 0x00 \<notin> set fp"
    and "coldStore env now fp token client r = (r', res, w)"
  shows "cli_owned owner r' \<and> (ClientID res \<noteq> [] \<longrightarrow> owner (ClientID res) = Identifier client)"
proof -
  obtain r1 res1 st w1 where rc: "resolveCold env now fp token client r = (r1, res1, st, w1)"
    by (cases "resolveCold env now fp token client r")
  then have [simp]: "res1 = res" using assms(4) by (auto simp: coldStore_def Let_def split: if_splits)
  have new: "ClientID res \<noteq> [] \<Longrightarrow> owner (ClientID res) = Identifier client"
    using resolveCold_owned [OF assms(1) rc] by simp
  have r1: "cli_owned owner r1" using resolveCold_keeps [OF rc] assms(2) by (simp add: cli_owned_def)
  let ?c = "if length (cli r1) \<ge> memMax then evictCliLocked (cli r1) else cli r1"
  let ?u = "if ClientID res \<noteq> [] then AList.update (cliKey fp client) \<lparr>clientID = ClientID res, cliAt = now\<rparr> ?c else ?c"
  have keep: "map_of ?c k = Some e \<Longrightarrow> map_of (cli r1) k = Some e" for k e
    by (auto dest: evictCli_keeps split: if_splits)
  have "cli r' = (if Identifier client = [] then cli r1 else ?u)"
    using assms(4) rc by (auto simp: coldStore_def Let_def split: if_splits)
  moreover have "cli_owned owner (r1\<lparr>cli := ?u\<rparr>)"
  proof (cases "ClientID res = []")
    case True
    then have "cli (r1\<lparr>cli := ?u\<rparr>) = ?c" by simp
    then show ?thesis by (intro cli_owned_mono [OF r1]) (simp only: keep)
  next
    case False
    then show ?thesis using cli_owned_update [where r' = r1 and now = now, OF r1 assms(3) False new [OF False] keep] by simp
  qed
  ultimately have "cli_owned owner r'" using r1 by (simp add: cli_owned_def)
  with new show ?thesis by blast
qed

lemma Resolve_owned:
  assumes "env_owned owner env" "cli_owned owner r" "CHR 0x00 \<notin> set fp"
    and "Resolve env now fp token client r = (r', res, w)"
  shows "cli_owned owner r' \<and> (ClientID res \<noteq> [] \<longrightarrow> owner (ClientID res) = Identifier client)"
  using assms(2,4) resolveWarm_owned [OF assms(1-3)] coldStore_owned [OF assms(1-3)]
  by (auto simp: Resolve_def split: if_splits option.splits)

text \<open>
  C18. Devices are kept apart: when the client upsert answers the row of the device it was
  asked for, the client instance in an outcome is always one of the device that sent the
  request, after any history of requests of other devices with the same token, on the warm
  path through the cache as on the cold one. Fingerprints hold no zero byte.
\<close>

theorem Resolve_keeps_devices_apart:
  assumes "\<forall>c \<in> set (calls @ [req]). call_owned owner c"
    and "resolveCall req (resolveRun calls (NewResolver db tv)) = (r', res, w)"
    and "ClientID res \<noteq> []"
  shows "owner (ClientID res) = Identifier (callClient req)"
proof -
  have "cli_owned owner (resolveRun calls (NewResolver db tv))"
  proof (rule resolveRun_inv)
    show "cli_owned owner (NewResolver db tv)" by (simp add: cli_owned_def NewResolver_def)
    fix c r assume "c \<in> set calls" "cli_owned owner r"
    with assms(1) Resolve_owned [of owner "callEnv c" r "callFp c"] show "cli_owned owner (fst (resolveCall c r))"
      by (metis call_owned_def in_set_conv_decomp_first prod.collapse resolveCall_def set_append Un_iff)
  qed
  with assms Resolve_owned [of owner "callEnv req" _ "callFp req"] show ?thesis
    by (simp add: call_owned_def resolveCall_def)
qed

theorem Resolve_keeps_devices_apart_witness:
  "let out = resolveCall (demoCall 5 ''phone'') (resolveRun [demoCall 1 ''tv'', demoCall 2 ''phone''] (NewResolver True True))
   in ClientID (fst (snd out)) \<noteq> [] \<and> drop 4 (ClientID (fst (snd out))) = ''phone''"
proof -
  let ?out = "resolveCall (demoCall 5 ''phone'') (resolveRun [demoCall 1 ''tv'', demoCall 2 ''phone''] (NewResolver True True))"
  have ne: "ClientID (fst (snd ?out)) \<noteq> []" by code_simp
  have "drop 4 (ClientID (fst (snd ?out))) = Identifier (callClient (demoCall 5 ''phone''))"
    by (rule Resolve_keeps_devices_apart [where r' = "fst ?out" and w = "snd (snd ?out)", OF _ _ ne]) (simp_all only: prod.collapse list.simps append.simps ball_simps demo_owned simp_thms set_simps Un_insert_left sup_bot_left)
  with ne show ?thesis by (simp add: Let_def demoCall_def demoDevice_def)
qed

section \<open>Only a definitive rejection is recorded\<close>

lemma recordClient_writes: "recordClient env s iid client = (cid, w) \<Longrightarrow> WInvalid s' f \<notin> set w"
  by (auto simp: recordClient_def Let_def split: if_splits)

lemma bindProven_writes: "bindProven env s fp client aid u = (res, st, w) \<Longrightarrow> WInvalid s' f \<notin> set w"
  using recordClient_writes [of env s _ client]
  by (auto simp: bindProven_def upsertIdentity_def Let_def split: prod.splits if_splits option.splits)

lemma resolveUnlinked_writes:
  "resolveUnlinked env r s fp token client = (res, st, w) \<Longrightarrow> WInvalid s' f \<in> set w \<Longrightarrow>
    f = fp \<and> isAuthFailure (getUser env token)"
  using bindProven_writes [of env s fp client _ _ res st w s' f]
  by (auto simp: resolveUnlinked_def Let_def split: tv_answer.splits if_splits)

lemma resolveStale_writes:
  "resolveStale env s fp token client iid acc = (res, st, w) \<Longrightarrow> WInvalid s' f \<in> set w \<Longrightarrow>
    f = fp \<and> isAuthFailure (getUser env token)"
  using bindProven_writes [of env s fp client _ _ res st w s' f] recordClient_writes [of env s iid client]
  by (auto simp: resolveStale_def Let_def split: tv_answer.splits if_splits prod.splits)

lemma resolveCold_writes:
  assumes "resolveCold env now fp token client r = (r', res, st, w)" "WInvalid s f \<in> set w"
  shows "f = fp \<and> isAuthFailure (getUser env token)"
  using assms(1)
proof (cases rule: resolveCold_cases)
  case (unlinked s')
  then show ?thesis using resolveUnlinked_writes [OF _ assms(2)] by metis
next
  case (linked s' iid acc isFresh cid w')
  then show ?thesis using recordClient_writes [OF linked(2)] assms(2) by auto
next
  case (stale s' iid acc)
  then show ?thesis using resolveStale_writes [OF _ assms(2)] by metis
qed (use assms(2) in simp_all)

lemma resolveWarm_writes:
  "resolveWarm env now fp client a r = (r', res, w) \<Longrightarrow> WInvalid s f \<notin> set w"
  using recordClient_writes [of env _ "identityID a" client]
  by (auto simp: resolveWarm_def resolveClient_def Let_def split: if_splits option.splits prod.splits)

text \<open>
  C19. A token is recorded as invalid, which breaks its link to the account, only in the
  request of that token's own fingerprint and only when plex.tv answered 401 or 403 for
  it; a degraded outcome (any other failure) leaves the account cache as it was.
\<close>

theorem Resolve_invalidates_only_on_rejection:
  assumes "Resolve env now fp token client r = (r', res, w)"
  shows "(WInvalid s f \<in> set w \<longrightarrow> f = fp \<and> getUser env token \<in> {TvStatus 401, TvStatus 403}) \<and>
    (Degraded res \<longrightarrow> acct r' = acct r)"
proof -
  have auth: "isAuthFailure a \<Longrightarrow> a \<in> {TvStatus 401, TvStatus 403}" for a
    by (auto simp: isAuthFailure_def split: tv_answer.splits)
  have cold: ?thesis if c: "coldStore env now fp token client r = (r', res, w)"
  proof -
    from c obtain r1 store where "resolveCold env now fp token client r = (r1, res, store, w)"
      and "acct r' = (if store then AList.update fp (toEntry now res)
         (if length (acct r) \<ge> memMax then evictAcctLocked (acct r) else acct r) else acct r)"
      by (rule coldStore_acct)
    then show ?thesis using resolveCold_writes resolveCold_wf auth by (metis (no_types, lifting))
  qed
  show ?thesis
    using assms cold resolveWarm_writes [of env now fp client _ r r' res w]
      resolveWarm_acct [of env now fp client _ r r' res w]
    by (auto simp: Resolve_def split: if_splits option.splits)
qed

theorem Resolve_invalidates_only_on_rejection_witness:
  "let r = NewResolver True True;
       bad = Resolve demoEnv 5 ''fp2'' ''bad'' (demoDevice ''tv'') r;
       slow = Resolve demoEnv 5 ''fp3'' ''slow'' (demoDevice ''tv'') r
   in WInvalid ''srv'' ''fp2'' \<in> set (snd (snd bad)) \<and> getUser demoEnv ''bad'' \<in> {TvStatus 401, TvStatus 403} \<and>
      Degraded (fst (snd slow)) \<and> acct (fst slow) = acct r"
proof -
  let ?r = "NewResolver True True"
  have "WInvalid ''srv'' ''fp2'' \<in> set (snd (snd (Resolve demoEnv 5 ''fp2'' ''bad'' (demoDevice ''tv'') ?r)))"
    "Degraded (fst (snd (Resolve demoEnv 5 ''fp3'' ''slow'' (demoDevice ''tv'') ?r)))"
    by code_simp+
  with Resolve_invalidates_only_on_rejection [OF Resolve_split, of "''srv''" "''fp2''" demoEnv 5 "''fp2''" "''bad''" "demoDevice ''tv''" ?r]
    Resolve_invalidates_only_on_rejection [OF Resolve_split, of "[]" "[]" demoEnv 5 "''fp3''" "''slow''" "demoDevice ''tv''" ?r]
  show ?thesis unfolding Let_def by blast
qed

section \<open>The client cache\<close>

text \<open>
  The bound of the client cache is not kept on the warm path: a request with a warm
  account entry and an unseen device adds its client instance without a look at the size, so
  that every new device identifier grows the cache by one, past \<^const>\<open>memMax\<close> too.
\<close>

theorem Resolve_warm_grows_clients:
  assumes "map_of (acct r) fp = Some a" "now - acctAt a < memTTL" "fp \<noteq> []"
    and "hasDB r" "srv r \<noteq> []" "now - srvAt r < minute"
    and "Identifier client \<noteq> []" "cliKey fp client \<notin> fst ` set (cli r)" "qClient env (srv r) client \<noteq> []"
  shows "length (cli (fst (Resolve env now fp token client r))) = Suc (length (cli r))"
proof -
  have "map_of (cli r) (cliKey fp client) = None" using assms(8) by (simp add: map_of_eq_None_iff)
  with assms show ?thesis
    by (simp add: Resolve_def resolveWarm_def resolveClient_def enabledServer_def recordClient_def Let_def length_update)
qed

theorem Resolve_warm_grows_clients_witness:
  "let r = (NewResolver True True)\<lparr>acct := [(''fp'', toEntry 1 (scoped (tokScope ''fp'')))], srv := ''srv'', srvAt := 1\<rparr>
   in length (cli (fst (Resolve demoEnv 5 ''fp'' ''t'' (demoDevice ''phone'') r))) = Suc (length (cli r))"
  unfolding Let_def
  by (rule Resolve_warm_grows_clients [where a = "toEntry 1 (scoped (tokScope ''fp''))"])
    (simp_all add: NewResolver_def toEntry_def memTTL_def minute_def second_def demoDevice_def demoEnv_def)

end
