(* ===== verification/Sessions.thy ===== *)
theory Sessions
  imports Prelude
begin

text \<open>
  Playback sessions (\<^verbatim>\<open>internal/playback/store.go\<close>): the negotiated selection, the in-process
  store and the Postgres store. The locale \<open>session_store\<close> is the contract of the interface
  \<^verbatim>\<open>SessionStore\<close> that the playback engine relies on; both stores are interpreted in it, so
  that each answers like one map from the session identifier to its latest selection.
\<close>

section \<open>Sessions and stores\<close>

record Session =
  SessionID :: string
  PlexSessionID :: string
  SessRatingKey :: string
  SessIdentityID :: string
  SessClientUUID :: string
  SelectedMediaIndex :: int
  SelectedPartPlexID :: string
  SelectedPartKey :: string
  SelectedVariantID :: string
  SelectedPartID :: string
  PlaybackMode :: string
  SessRoutingMode :: string
  EffectivePolicy :: string

datatype session_lookup = Found Session | Absent | StoreError

type_synonym MemoryStore = "string \<rightharpoonup> Session"

definition NewMemoryStore :: MemoryStore where
  "NewMemoryStore = Map.empty"

definition MemCreate :: "Session \<Rightarrow> MemoryStore \<Rightarrow> MemoryStore \<times> Session" where
  "MemCreate s m =
    (let s = (if PlexSessionID s = [] then s\<lparr>PlexSessionID := ''mem-'' @ SessRatingKey s\<rparr> else s)
     in (m(PlexSessionID s \<mapsto> s), s))"

definition MemFindActive :: "string \<Rightarrow> MemoryStore \<Rightarrow> session_lookup" where
  "MemFindActive k m = (case m k of Some s \<Rightarrow> Found s | None \<Rightarrow> Absent)"

definition MemEndSession :: "string \<Rightarrow> MemoryStore \<Rightarrow> MemoryStore" where
  "MemEndSession k m = m(k := None)"

text \<open>
  A row of \<^verbatim>\<open>playback_sessions\<close>. Optional columns are NULL for an empty string and read back as
  one, so a row keeps the session as it is, but for the policy, a \<^verbatim>\<open>jsonb\<close> column: \<open>jsonb\<close>
  is the text the database renders for it, and a missing one reads as an empty object.
\<close>

record session_row =
  rowSession :: Session
  rowPolicy :: "string option"
  startedAt :: gotime
  ended :: bool

definition nullIfEmpty :: "string \<Rightarrow> string option" where
  "nullIfEmpty s = (if s = [] then None else Some s)"

definition rowOf :: "(string \<Rightarrow> string) \<Rightarrow> gotime \<Rightarrow> Session \<Rightarrow> session_row" where
  "rowOf jsonb now s =
    \<lparr>rowSession = s, rowPolicy = map_option jsonb (nullIfEmpty (EffectivePolicy s)),
     startedAt = now, ended = False\<rparr>"

definition readRow :: "session_row \<Rightarrow> Session" where
  "readRow row =
    (rowSession row)\<lparr>EffectivePolicy := (case rowPolicy row of Some p \<Rightarrow> p | None \<Rightarrow> ''{}'')\<rparr>"

text \<open>\<open>ok\<close> tells whether the statement succeeds; \<open>newID\<close> is the identifier the insert returns.\<close>

definition PgCreate ::
  "(string \<Rightarrow> string) \<Rightarrow> bool \<Rightarrow> string \<Rightarrow> gotime \<Rightarrow> Session \<Rightarrow> session_row list \<Rightarrow> session_row list \<times> Session option" where
  "PgCreate jsonb ok newID now s rows =
    (if ok then (let s = s\<lparr>SessionID := newID\<rparr> in (rows @ [rowOf jsonb now s], Some s)) else (rows, None))"

definition PgFindActive :: "bool \<Rightarrow> string \<Rightarrow> session_row list \<Rightarrow> session_lookup" where
  "PgFindActive ok k rows =
    (if k = [] then Absent
     else if \<not> ok then StoreError
     else (case scan_least (\<lambda>row. - startedAt row)
                  (filter (\<lambda>row. PlexSessionID (rowSession row) = k \<and> \<not> ended row) rows) of
             None \<Rightarrow> Absent | Some row \<Rightarrow> Found (readRow row)))"

definition PgEndSession :: "bool \<Rightarrow> string \<Rightarrow> session_row list \<Rightarrow> session_row list \<times> bool" where
  "PgEndSession ok k rows =
    (if k = [] then (rows, True)
     else if \<not> ok then (rows, False)
     else (map (\<lambda>row. if PlexSessionID (rowSession row) = k \<and> \<not> ended row then row\<lparr>ended := True\<rparr> else row) rows, True))"

section \<open>The contract of a session store\<close>

text \<open>A history of a store: negotiations, each at its time, and stops.\<close>

datatype session_event = Opened gotime Session | Closed string

fun applyEvent ::
  "(gotime \<Rightarrow> Session \<Rightarrow> 'st \<Rightarrow> 'st) \<Rightarrow> (string \<Rightarrow> 'st \<Rightarrow> 'st) \<Rightarrow> session_event \<Rightarrow> 'st \<Rightarrow> 'st" where
  "applyEvent open_s close_s (Opened now s) = open_s now s"
| "applyEvent open_s close_s (Closed k) = close_s k"

text \<open>The specification: the last negotiation of a session that no stop followed.\<close>

definition specRun :: "(gotime \<Rightarrow> Session \<Rightarrow> Session) \<Rightarrow> session_event list \<Rightarrow> MemoryStore \<Rightarrow> MemoryStore" where
  "specRun reread = fold (applyEvent (\<lambda>now s m. m(PlexSessionID s \<mapsto> reread now s)) (\<lambda>k m. m(k := None)))"

definition asFound :: "Session option \<Rightarrow> session_lookup" where
  "asFound x = (case x of Some s \<Rightarrow> Found s | None \<Rightarrow> Absent)"

fun paced :: "gotime \<Rightarrow> session_event list \<Rightarrow> bool" where
  "paced t [] = True"
| "paced t (Opened now s # es) = (t < now \<and> PlexSessionID s \<noteq> [] \<and> paced now es)"
| "paced t (Closed k # es) = (k \<noteq> [] \<and> paced t es)"

definition event_key :: "session_event \<Rightarrow> string" where
  "event_key ev = (case ev of Opened _ s \<Rightarrow> PlexSessionID s | Closed k \<Rightarrow> k)"

text \<open>
  \<open>reread\<close> is what a stored selection reads back as. The law of opening asks for a clock that
  moves on, since the newest session wins.
\<close>

locale session_store =
  fixes open_s :: "gotime \<Rightarrow> Session \<Rightarrow> 'st \<Rightarrow> 'st"
    and find_s :: "string \<Rightarrow> 'st \<Rightarrow> session_lookup"
    and close_s :: "string \<Rightarrow> 'st \<Rightarrow> 'st"
    and inv :: "gotime \<Rightarrow> 'st \<Rightarrow> bool"
    and reread :: "gotime \<Rightarrow> Session \<Rightarrow> Session"
  assumes open_inv: "inv t st \<Longrightarrow> t < now \<Longrightarrow> PlexSessionID s \<noteq> [] \<Longrightarrow> inv now (open_s now s st)"
    and close_inv: "inv t st \<Longrightarrow> inv t (close_s k st)"
    and find_open: "inv t st \<Longrightarrow> t < now \<Longrightarrow> PlexSessionID s \<noteq> [] \<Longrightarrow>
      find_s k (open_s now s st) = (if k = PlexSessionID s then Found (reread now s) else find_s k st)"
    and find_close: "k \<noteq> [] \<Longrightarrow> find_s k' (close_s k st) = (if k' = k then Absent else find_s k' st)"
begin

abbreviation "runEvents \<equiv> fold (applyEvent open_s close_s)"

lemma run_refines:
  assumes "inv t st" "paced t es" "\<And>k. find_s k st = asFound (m k)"
  shows "find_s k (runEvents es st) = asFound (specRun reread es m k)"
  using assms
proof (induction t es arbitrary: st m rule: paced.induct)
  case (2 t now s es)
  have "find_s k (open_s now s st) = asFound ((m(PlexSessionID s \<mapsto> reread now s)) k)" for k
    using 2(3,4) by (simp add: find_open [OF 2(2)] asFound_def)
  moreover have "inv now (open_s now s st)" using 2(3) by (simp add: open_inv [OF 2(2)])
  ultimately have "find_s k (runEvents es (open_s now s st)) =
      asFound (specRun reread es (m(PlexSessionID s \<mapsto> reread now s)) k)"
    using 2(3) by (auto intro: 2(1))
  then show ?case by (simp add: specRun_def)
next
  case (3 t k' es)
  have "find_s j (close_s k' st) = asFound ((m(k' := None)) j)" for j
    using 3(3,4) by (simp add: find_close asFound_def)
  moreover have "inv t (close_s k' st)" using 3(2) by (rule close_inv)
  ultimately have "find_s k (runEvents es (close_s k' st)) = asFound (specRun reread es (m(k' := None)) k)"
    using 3(3) by (auto intro: 3(1))
  then show ?case by (simp add: specRun_def)
qed (simp add: specRun_def)

text \<open>A session stays as it is until it is negotiated anew or stopped.\<close>

lemma find_frame:
  assumes "inv t st" "paced t es" "k \<notin> event_key ` set es"
  shows "find_s k (runEvents es st) = find_s k st"
  using assms
proof (induction t es arbitrary: st rule: paced.induct)
  case (2 t now s es)
  then have "find_s k (runEvents es (open_s now s st)) = find_s k (open_s now s st)"
    by (intro 2(1)) (auto intro: open_inv)
  moreover have "find_s k (open_s now s st) = find_s k st"
    using 2(3,4) by (simp add: find_open [OF 2(2)] event_key_def)
  ultimately show ?case by simp
next
  case (3 t k' es)
  then have "find_s k (runEvents es (close_s k' st)) = find_s k (close_s k' st)"
    by (intro 3(1)) (auto intro: close_inv)
  moreover have "find_s k (close_s k' st) = find_s k st"
    using 3(3,4) by (simp add: find_close event_key_def)
  ultimately show ?case by simp
qed simp

lemma find_opened:
  assumes "inv t st" "t < now" "PlexSessionID s \<noteq> []" "paced now es" "PlexSessionID s \<notin> event_key ` set es"
  shows "find_s (PlexSessionID s) (runEvents es (open_s now s st)) = Found (reread now s)"
  using find_frame [OF open_inv [OF assms(1-3)] assms(4,5)] assms(3) by (simp add: find_open [OF assms(1,2)])

end

section \<open>Both stores keep it\<close>

definition memOpen :: "gotime \<Rightarrow> Session \<Rightarrow> MemoryStore \<Rightarrow> MemoryStore" where
  "memOpen now s m = fst (MemCreate s m)"

interpretation memory_sessions: session_store memOpen MemFindActive MemEndSession "\<lambda>_ _. True" "\<lambda>_ s. s"
  by unfold_locales (simp_all add: memOpen_def MemCreate_def MemFindActive_def MemEndSession_def)

definition pgOpen ::
  "(string \<Rightarrow> string) \<Rightarrow> (gotime \<Rightarrow> string) \<Rightarrow> gotime \<Rightarrow> Session \<Rightarrow> session_row list \<Rightarrow> session_row list" where
  "pgOpen jsonb newID now s rows = fst (PgCreate jsonb True (newID now) now s rows)"

definition pgClose :: "string \<Rightarrow> session_row list \<Rightarrow> session_row list" where
  "pgClose k rows = fst (PgEndSession True k rows)"

definition pgStarted :: "gotime \<Rightarrow> session_row list \<Rightarrow> bool" where
  "pgStarted t rows \<longleftrightarrow> (\<forall>row \<in> set rows. startedAt row \<le> t)"

definition pgReread :: "(string \<Rightarrow> string) \<Rightarrow> (gotime \<Rightarrow> string) \<Rightarrow> gotime \<Rightarrow> Session \<Rightarrow> Session" where
  "pgReread jsonb newID now s = readRow (rowOf jsonb now (s\<lparr>SessionID := newID now\<rparr>))"

lemma scan_least_snoc:
  assumes "\<And>e. e \<in> set es \<Longrightarrow> key x < key e"
  shows "scan_least key (es @ [x]) = Some x"
proof -
  have "scan_least key es = None \<or> (\<exists>b \<in> set es. scan_least key es = Some b)"
    using scan_least_Some(1) by (metis option.exhaust)
  with assms show ?thesis by (auto simp: scan_least_def scan_step_def)
qed

lemma PgFindActive_open:
  assumes "pgStarted t rows" "t < now" "PlexSessionID s \<noteq> []"
  shows "PgFindActive True k (pgOpen jsonb newID now s rows) =
    (if k = PlexSessionID s then Found (pgReread jsonb newID now s) else PgFindActive True k rows)"
proof (cases "k = PlexSessionID s")
  case True
  let ?row = "rowOf jsonb now (s\<lparr>SessionID := newID now\<rparr>)"
  let ?old = "filter (\<lambda>row. PlexSessionID (rowSession row) = k \<and> \<not> ended row) rows"
  have "scan_least (\<lambda>row. - startedAt row) (?old @ [?row]) = Some ?row"
    by (rule scan_least_snoc) (use assms in \<open>auto simp: pgStarted_def rowOf_def\<close>)
  with True assms(3) show ?thesis
    by (simp add: PgFindActive_def pgOpen_def PgCreate_def pgReread_def Let_def rowOf_def)
next
  case False
  then show ?thesis by (simp add: PgFindActive_def pgOpen_def PgCreate_def Let_def rowOf_def)
qed

lemma PgFindActive_close:
  assumes "k \<noteq> []"
  shows "PgFindActive True k' (pgClose k rows) = (if k' = k then Absent else PgFindActive True k' rows)"
proof -
  let ?fin = "\<lambda>row. if PlexSessionID (rowSession row) = k \<and> \<not> ended row then row\<lparr>ended := True\<rparr> else row"
  let ?sel = "\<lambda>row. PlexSessionID (rowSession row) = k' \<and> \<not> ended row"
  have "filter ?sel (map ?fin rows) = (if k' = k then [] else filter ?sel rows)"
    by (induction rows) auto
  then show ?thesis using assms
    by (cases "k' = k") (simp_all only: PgFindActive_def pgClose_def PgEndSession_def if_False if_True fst_conv
        scan_least_None [THEN iffD2] option.case simp_thms)
qed

interpretation pg_sessions:
  session_store "pgOpen jsonb newID" "PgFindActive True" pgClose pgStarted "pgReread jsonb newID"
proof
  show "pgStarted t rows \<Longrightarrow> t < now \<Longrightarrow> PlexSessionID s \<noteq> [] \<Longrightarrow> pgStarted now (pgOpen jsonb newID now s rows)"
    for t rows now s
    by (auto simp: pgStarted_def pgOpen_def PgCreate_def Let_def rowOf_def)
  show "pgStarted t rows \<Longrightarrow> pgStarted t (pgClose k rows)" for t rows k
    by (auto simp: pgStarted_def pgClose_def PgEndSession_def)
qed (rule PgFindActive_open PgFindActive_close; assumption)+

text \<open>
  C20. Both session stores answer like a map from session identifiers to the latest
  selection: after any history of negotiations, at increasing times and with nonempty session
  identifiers, and of stops, a session is found exactly when a negotiation of it was not
  followed by a stop, and what is found is that negotiation's selection. Postgres renders the
  policy anew and adds its row identifier; the selection itself reads back unchanged.
\<close>

theorem session_stores_refine_map:
  assumes "paced t es"
  shows "MemFindActive k (fold (applyEvent memOpen MemEndSession) es NewMemoryStore) =
      asFound (specRun (\<lambda>_ s. s) es Map.empty k) \<and>
    PgFindActive True k (fold (applyEvent (pgOpen jsonb newID) pgClose) es []) =
      asFound (specRun (pgReread jsonb newID) es Map.empty k) \<and>
    pgReread jsonb newID now s = s\<lparr>SessionID := newID now, EffectivePolicy := EffectivePolicy (pgReread jsonb newID now s)\<rparr>"
proof (intro conjI)
  show "MemFindActive k (fold (applyEvent memOpen MemEndSession) es NewMemoryStore) =
      asFound (specRun (\<lambda>_ s. s) es Map.empty k)"
    by (rule memory_sessions.run_refines [OF TrueI assms])
      (simp add: NewMemoryStore_def MemFindActive_def asFound_def)
  show "PgFindActive True k (fold (applyEvent (pgOpen jsonb newID) pgClose) es []) =
      asFound (specRun (pgReread jsonb newID) es Map.empty k)"
    by (rule pg_sessions.run_refines [OF _ assms])
      (simp_all add: pgStarted_def PgFindActive_def scan_least_def asFound_def)
qed (simp add: pgReread_def readRow_def rowOf_def)

definition exSession :: "string \<Rightarrow> int \<Rightarrow> Session" where
  "exSession k i = \<lparr>SessionID = [], PlexSessionID = k, SessRatingKey = ''7'', SessIdentityID = [],
     SessClientUUID = [], SelectedMediaIndex = i, SelectedPartPlexID = ''12'', SelectedPartKey = ''/library/parts/12/f.mkv'',
     SelectedVariantID = [], SelectedPartID = [], PlaybackMode = ''directPlay'', SessRoutingMode = ''automatic'',
     EffectivePolicy = ''{}''\<rparr>"

definition exHistory :: "session_event list" where
  "exHistory = [Opened 1 (exSession ''a'' 0), Opened 2 (exSession ''b'' 0), Opened 3 (exSession ''a'' 1), Closed ''b'']"

theorem session_stores_refine_map_witness:
  "MemFindActive ''a'' (fold (applyEvent memOpen MemEndSession) exHistory NewMemoryStore) = Found (exSession ''a'' 1) \<and>
   PgFindActive True ''b'' (fold (applyEvent (pgOpen (\<lambda>p. p) (\<lambda>_. ''u'')) pgClose) exHistory []) = Absent"
proof -
  have p: "paced 0 exHistory" by (simp add: exHistory_def exSession_def)
  have "specRun (\<lambda>_ s. s) exHistory Map.empty ''a'' = Some (exSession ''a'' 1)"
    "specRun (pgReread (\<lambda>p. p) (\<lambda>_. ''u'')) exHistory Map.empty ''b'' = None"
    by (simp_all add: specRun_def exHistory_def exSession_def)
  with session_stores_refine_map [OF p, of "''a''" "\<lambda>p. p" "\<lambda>_. ''u''"]
    session_stores_refine_map [OF p, of "''b''" "\<lambda>p. p" "\<lambda>_. ''u''"]
  show ?thesis by (simp add: asFound_def)
qed

end
