(* ===== verification/Normalize.thy ===== *)
theory Normalize
  imports Go_Strings
begin

text \<open>
  Dynamic range vocabulary (\<^verbatim>\<open>internal/sync/normalize.go\<close>): one classification of the textual
  signals of the origin, shared by the library index and live negotiation.
\<close>

abbreviation "DRSDR \<equiv> ''SDR''"
abbreviation "DRHDR10 \<equiv> ''HDR10''"
abbreviation "DRHDR10Plus \<equiv> ''HDR10_PLUS''"
abbreviation "DRHLG \<equiv> ''HLG''"
abbreviation "DRDolbyVision \<equiv> ''DOLBY_VISION''"
abbreviation "DRHDROther \<equiv> ''HDR_OTHER''"
abbreviation "DRUnknown \<equiv> ''UNKNOWN''"

definition hasAny :: "string \<Rightarrow> string list \<Rightarrow> bool" where
  "hasAny text needles = list_ex (contains text) needles"

definition NormalizeDynamicRange :: "string \<Rightarrow> string \<Rightarrow> string \<Rightarrow> string \<Rightarrow> string" where
  "NormalizeDynamicRange dynamicRange hdrFormat videoCodec videoProfile =
    (let text = to_lower (join_on CHR '' '' [dynamicRange, hdrFormat, videoCodec, videoProfile]);
         has = hasAny text
     in if has [''dovi'', ''dvhe'', ''dvav''] \<or> (has [''dolby''] \<and> has [''vision'']) then DRDolbyVision
        else if has [''hdr10+'', ''hdr10 plus'', ''hdr10plus''] then DRHDR10Plus
        else if has [''hdr10''] \<or> (has [''pq''] \<and> \<not> has [''hlg'']) then DRHDR10
        else if has [''hlg''] then DRHLG
        else if has [''hdr''] then DRHDROther
        else if has [''sdr''] then DRSDR
        else DRUnknown)"

text \<open>The result is a word of the vocabulary, and is HDR only on an explicit signal.\<close>

lemma NormalizeDynamicRange_vocabulary:
  "NormalizeDynamicRange d h c p \<in> {DRSDR, DRHDR10, DRHDR10Plus, DRHLG, DRDolbyVision, DRHDROther, DRUnknown}"
  unfolding NormalizeDynamicRange_def Let_def by (simp split: if_split)

lemma take_space [simp]:
  "take 2 (s @ CHR '' '' # b) = [CHR 0x84, CHR 0xAA] \<longleftrightarrow> take 2 s = [CHR 0x84, CHR 0xAA]"
  "take 1 (s @ CHR '' '' # b) = [CHR 0xB0] \<longleftrightarrow> take 1 s = [CHR 0xB0]"
  by (auto simp: take_Cons' numeral_2_eq_2 split: if_splits; cases s; cases "tl s"; simp)+

lemma to_lower_space: "to_lower (a @ CHR '' '' # b) = to_lower a @ CHR '' '' # to_lower b"
proof (induction a rule: to_lower.induct)
  case (2 c s)
  have "drop 2 (s @ CHR '' '' # b) = drop 2 s @ CHR '' '' # b" if "take 2 s = [CHR 0x84, CHR 0xAA]"
    using that by (cases s; cases "tl s") auto
  moreover have "drop 1 (s @ CHR '' '' # b) = drop 1 s @ CHR '' '' # b" if "take 1 s = [CHR 0xB0]"
    using that by (cases s) auto
  ultimately show ?case
    unfolding append_Cons to_lower.simps(2) take_space
    by (cases "c = CHR 0xE2 \<and> take 2 s = [CHR 0x84, CHR 0xAA]"; cases "c = CHR 0xC4 \<and> take 1 s = [CHR 0xB0]")
      (simp_all only: 2 if_True if_False append_Cons simp_thms)
qed (simp add: lower_char_def)

lemma sublist_join_space:
  "x \<in> set xs \<Longrightarrow> sublist t (to_lower x) \<Longrightarrow> sublist t (to_lower (join_on CHR '' '' xs))"
proof (induction "CHR '' ''" xs rule: join_on.induct)
  case (3 y z zs)
  have "sublist t (l @ CHR '' '' # r)" if "sublist t l \<or> sublist t r" for l r
    using that by (metis append.right_neutral append_Cons append_eq_append_conv2 sublist_append sublist_Cons_right)
  with 3 show ?case by (auto simp: to_lower_space)
qed auto

text \<open>A Dolby Vision marker in any signal, in any case, settles the classification.\<close>

lemma NormalizeDynamicRange_dolby:
  assumes "n \<in> {''dovi'', ''dvhe'', ''dvav''}" "s \<in> {d, h, c, p}" "contains (to_lower s) n"
  shows "NormalizeDynamicRange d h c p = DRDolbyVision"
proof -
  have "sublist n (to_lower (join_on CHR '' '' [d, h, c, p]))"
    by (rule sublist_join_space [of s]) (use assms in \<open>auto simp: contains_def\<close>)
  with assms(1) have "hasAny (to_lower (join_on CHR '' '' [d, h, c, p])) [''dovi'', ''dvhe'', ''dvav'']"
    by (auto simp: hasAny_def contains_def)
  then show ?thesis unfolding NormalizeDynamicRange_def Let_def by (simp only: simp_thms if_True)
qed

end
