(* ===== verification/Playback.thy ===== *)
theory Playback
  imports Policy Identity Sessions Normalize
begin

text \<open>
  Playback negotiation (\<^verbatim>\<open>internal/playback/decision.go\<close>, \<^verbatim>\<open>engine.go\<close>, \<^verbatim>\<open>flow.go\<close>): the universal
  decision request is parsed, the candidates are read from the owner index or from live
  metadata, the policy engine selects one, the rewritten request goes to the Plex server, and
  an accepted answer becomes a playback session. JSON coding, the Plex server and the
  database answers are the records \<open>codec\<close> and \<open>engine_db\<close> and the function \<open>pms\<close>; log lines
  are left out.
\<close>

section \<open>Requests and answers\<close>

record decisionRequest =
  RatingKey :: string
  RequestedIndex :: int
  DecisionSession :: string
  ExistingMaxBR :: "int option"
  Query :: multimap

definition parseDecision :: "request \<Rightarrow> decisionRequest" where
  "parseDecision r =
    (let q = url_query r in
     \<lparr>RatingKey = ExtractRatingKey r,
      RequestedIndex = (case atoi (values_get q ''mediaIndex'') of Some n \<Rightarrow> if n \<ge> 0 then n else 0 | None \<Rightarrow> 0),
      DecisionSession = ExtractSession r,
      ExistingMaxBR = (case atoi (values_get q ''maxVideoBitrate'') of
        Some n \<Rightarrow> if n > 0 then Some n else None | None \<Rightarrow> None),
      Query = q\<rparr>)"

definition rewriteQuery :: "multimap \<Rightarrow> int \<Rightarrow> int option \<Rightarrow> multimap" where
  "rewriteQuery q selected outputCap =
    (let out = values_set q ''mediaIndex'' (itoa selected) in
     case outputCap of
       None \<Rightarrow> out
     | Some cap \<Rightarrow>
         (case atoi (values_get out ''maxVideoBitrate'') of
            Some n \<Rightarrow> if n < cap then out else values_set out ''maxVideoBitrate'' (itoa cap)
          | None \<Rightarrow> values_set out ''maxVideoBitrate'' (itoa cap)))"

record decisionResponse =
  RespCode :: int
  RespDirectPlay :: bool
  RespDirectStream :: bool
  RespTranscode :: bool
  RespMediaIndex :: int
  HasIndex :: bool

text \<open>The decoded envelope of the answer: absent members of the JSON object are \<open>None\<close>.\<close>

record decisionEnvelope =
  envDecision :: "int option"
  envDirectPlay :: bool
  envDirectStream :: bool
  envTranscode :: bool
  envMediaIndex :: "int option"

definition parseDecisionResponse :: "(string \<Rightarrow> decisionEnvelope option) \<Rightarrow> string \<Rightarrow> decisionResponse option" where
  "parseDecisionResponse decode body =
    (case decode body of
       None \<Rightarrow> None
     | Some mc \<Rightarrow> Some
         \<lparr>RespCode = (case envDecision mc of Some c \<Rightarrow> c | None \<Rightarrow> 0),
          RespDirectPlay = envDirectPlay mc, RespDirectStream = envDirectStream mc,
          RespTranscode = envTranscode mc,
          RespMediaIndex = (case envMediaIndex mc of Some i \<Rightarrow> i | None \<Rightarrow> 0),
          HasIndex = (envMediaIndex mc \<noteq> None)\<rparr>)"

definition modeOf :: "decisionResponse \<Rightarrow> string" where
  "modeOf d =
    (if RespDirectPlay d then ''directPlay''
     else if RespDirectStream d then ''directStream'' else ''transcode'')"

section \<open>Candidates\<close>

record variantSource =
  SrcIndex :: int
  PlexMediaID :: string
  SrcWidth :: "int option"
  SrcHeight :: "int option"
  SrcBitrate :: "int option"
  SrcDynamicRange :: string
  SrcVideoCodec :: string
  SrcAudioChannels :: "int option"
  SrcPartAvailable :: bool
  PartKey :: string
  PartPlexID :: string
  VariantUUID :: string
  PartUUID :: string

definition toPolicy :: "variantSource \<Rightarrow> variant" where
  "toPolicy v =
    \<lparr>MediaIndex = SrcIndex v, Width = SrcWidth v, Height = SrcHeight v, BitrateKbps = SrcBitrate v,
     DynamicRange = SrcDynamicRange v, VideoCodec = SrcVideoCodec v, AudioChannels = SrcAudioChannels v,
     Playability = UnknownPlayability, PartAvailable = SrcPartAvailable v\<rparr>"

record liveStream =
  StreamCodec :: string
  StreamProfile :: string
  StreamTitle :: string
  StreamExtTitle :: string

record livePart =
  LivePartID :: "int option"
  LivePartKey :: string
  LiveStreams :: "liveStream list"

record liveMedia =
  LiveID :: "int option"
  LiveContainer :: string
  LiveVideoCodec :: string
  LiveVideoProfile :: string
  LiveWidth :: "int option"
  LiveHeight :: "int option"
  LiveBitrate :: "int option"
  LiveVideoResolution :: string
  LiveDynamicRange :: string
  LiveHDRFormat :: string
  LiveHDR :: string
  LiveTitle :: string
  LiveExtTitle :: string
  LiveAudioCodec :: string
  LiveAudioChannels :: "int option"
  LiveParts :: "livePart list"

definition streamText :: "liveStream \<Rightarrow> string" where
  "streamText st = '' '' @ StreamTitle st @ '' '' @ StreamExtTitle st @ '' '' @ StreamCodec st @ '' '' @ StreamProfile st"

text \<open>The loop over the parts of a media: it ends at the first part with a key.\<close>

fun scanParts :: "livePart list \<Rightarrow> string \<Rightarrow> bool \<times> string \<times> string \<times> string" where
  "scanParts [] text = (False, [], [], text)"
| "scanParts (p # ps) text =
    (let text = text @ concat (map streamText (LiveStreams p)) in
     if LivePartKey p \<noteq> [] then
       (True, LivePartKey p, (case LivePartID p of Some i \<Rightarrow> itoa i | None \<Rightarrow> []), text)
     else scanParts ps text)"

definition liveVariant :: "nat \<Rightarrow> liveMedia \<Rightarrow> variantSource" where
  "liveVariant idx m =
    (let (partOK, partKey, partPlexID, text) = scanParts (LiveParts m) [] in
     \<lparr>SrcIndex = int idx, PlexMediaID = (case LiveID m of Some i \<Rightarrow> itoa i | None \<Rightarrow> []),
      SrcWidth = LiveWidth m, SrcHeight = LiveHeight m, SrcBitrate = LiveBitrate m,
      SrcDynamicRange = NormalizeDynamicRange
        (trim_space (LiveDynamicRange m @ '' '' @ LiveHDRFormat m @ '' '' @ LiveHDR m @ '' '' @ LiveTitle m @ '' '' @ LiveExtTitle m @ text))
        [] (LiveVideoCodec m) (LiveVideoProfile m),
      SrcVideoCodec = LiveVideoCodec m, SrcAudioChannels = LiveAudioChannels m,
      SrcPartAvailable = partOK, PartKey = partKey, PartPlexID = partPlexID,
      VariantUUID = [], PartUUID = []\<rparr>)"

definition parseLiveVariants :: "(string \<Rightarrow> liveMedia list list option) \<Rightarrow> string \<Rightarrow> variantSource list option" where
  "parseLiveVariants decode raw =
    (case decode raw of
       None \<Rightarrow> None
     | Some [] \<Rightarrow> None
     | Some (ms # _) \<Rightarrow> Some (map (\<lambda>(i, m). liveVariant i m) (enumerate 0 ms)))"

section \<open>The engine and its surroundings\<close>

text \<open>
  What the database answers: the enabled server, the policy rows, the candidate rows of a
  title (\<open>None\<close> when the query or its iteration fails; the part identifier of a row is NULL
  when the variant has no first part), the row of a part with the rating key of its item, and
  the variant of a part within a title.
\<close>

record index_row =
  irSource :: variantSource
  irPartUUID :: "string option"

record engine_db =
  dbServer :: "string option"
  dbPolicies :: "string \<Rightarrow> string \<Rightarrow> string option \<Rightarrow> query_result"
  dbIndex :: "string \<Rightarrow> index_row list option"
  dbPart :: "string \<Rightarrow> (variantSource \<times> string) option"
  dbVariantOf :: "string \<Rightarrow> string \<Rightarrow> string option"

record codec =
  decodePolicy :: "string \<Rightarrow> policy option"
  marshalPolicy :: "policy \<Rightarrow> string"
  storedTranscode :: "string \<Rightarrow> string"
  decodeLive :: "string \<Rightarrow> liveMedia list list option"
  decodeDecision :: "string \<Rightarrow> decisionEnvelope option"
  hmacSHA256 :: "string \<Rightarrow> string \<Rightarrow> string"

record pms_call =
  callMethod :: string
  callTarget :: string
  callHeader :: multimap

record pms_answer =
  ansStatus :: int
  ansHeader :: multimap
  ansBody :: "string option"

record Engine =
  EngineDB :: "engine_db option"
  Origin :: string
  Secret :: string
  HasStore :: bool
  LoadPolicy :: "(string option \<Rightarrow> string option \<Rightarrow> (policy \<times> string) option) option"

definition strOrNil :: "string \<Rightarrow> string option" where
  "strOrNil s = (if s = [] then None else Some s)"

definition routingMode :: "policy \<Rightarrow> string" where
  "routingMode p = (if RoutingMode p \<noteq> [] then RoutingMode p else ''automatic'')"

fun indexOfFrom :: "nat \<Rightarrow> variantSource list \<Rightarrow> int \<Rightarrow> int" where
  "indexOfFrom i [] idx = - 1"
| "indexOfFrom i (s # ss) idx = (if SrcIndex s = idx then int i else indexOfFrom (Suc i) ss idx)"

definition indexOf :: "variantSource list \<Rightarrow> int \<Rightarrow> int" where
  "indexOf sources idx = indexOfFrom 0 sources idx"

definition DefaultPolicyLoader ::
  "codec \<Rightarrow> engine_db option \<Rightarrow> string option \<Rightarrow> string option \<Rightarrow> (policy \<times> string) option" where
  "DefaultPolicyLoader c db iid cid =
    (case db of
       None \<Rightarrow> Some (Defaults, ''GLOBAL'')
     | Some d \<Rightarrow>
         (case dbServer d of
            None \<Rightarrow> None
          | Some serverID \<Rightarrow>
              (case LoadEffective (Some (dbPolicies d)) (decodePolicy c) serverID iid cid of
                 Inl _ \<Rightarrow> None
               | Inr r \<Rightarrow> Some r)))"

definition loadPolicy :: "codec \<Rightarrow> Engine \<Rightarrow> string \<Rightarrow> string \<Rightarrow> (policy \<times> string) option" where
  "loadPolicy c e iid cid =
    (let load = (case LoadPolicy e of Some f \<Rightarrow> f | None \<Rightarrow> DefaultPolicyLoader c (EngineDB e))
     in load (strOrNil iid) (strOrNil cid))"

section \<open>Candidates of a title\<close>

text \<open>
  \<^verbatim>\<open>rows.Scan\<close> stores the part identifier in a string: a NULL fails the scan, which gives up the
  index for the title.
\<close>

fun scanIndexRows :: "index_row list \<Rightarrow> variantSource list option" where
  "scanIndexRows [] = Some []"
| "scanIndexRows (row # rows) =
    (case irPartUUID row of
       None \<Rightarrow> None
     | Some pid \<Rightarrow>
         (case scanIndexRows rows of
            None \<Rightarrow> None
          | Some out \<Rightarrow>
              Some ((irSource row)\<lparr>PartUUID := pid, SrcPartAvailable := (PartKey (irSource row) \<noteq> [])\<rparr> # out)))"

definition indexVariants :: "Engine \<Rightarrow> string \<Rightarrow> variantSource list" where
  "indexVariants e ratingKey =
    (case EngineDB e of
       None \<Rightarrow> []
     | Some db \<Rightarrow>
         if ratingKey = [] then []
         else (case dbIndex db ratingKey of
                 None \<Rightarrow> []
               | Some rows \<Rightarrow> (case scanIndexRows rows of None \<Rightarrow> [] | Some out \<Rightarrow> out)))"

definition liveVariants ::
  "codec \<Rightarrow> (pms_call \<Rightarrow> pms_answer option) \<Rightarrow> Engine \<Rightarrow> string \<Rightarrow> string \<Rightarrow> variantSource list option" where
  "liveVariants c pms e rawPath token =
    (let target = trim_suffix (Origin e) ''/'' @ rawPath in
     case pms \<lparr>callMethod = ''GET'', callTarget = target,
                callHeader = [(''Accept'', [''application/json'']), (''X-Plex-Token'', [token])]\<rparr> of
       None \<Rightarrow> None
     | Some resp \<Rightarrow>
         if ansStatus resp \<noteq> 200 then None
         else (case ansBody resp of
                 None \<Rightarrow> None
               | Some body \<Rightarrow> parseLiveVariants (decodeLive c) (limit_read 8388609 body)))"

definition unescaped :: "string \<Rightarrow> string" where
  "unescaped p = (if p = [] then [] else (case query_unescape p of Some d \<Rightarrow> d | None \<Rightarrow> []))"

definition variants ::
  "codec \<Rightarrow> (pms_call \<Rightarrow> pms_answer option) \<Rightarrow> Engine \<Rightarrow> decisionRequest \<Rightarrow> string \<Rightarrow> variantSource list \<times> bool" where
  "variants c pms e d token =
    (let out = indexVariants e (RatingKey d) in
     if out \<noteq> [] then (out, True)
     else let rawPath = unescaped (values_get (Query d) ''path'');
              rawPath = (if rawPath = [] then unescaped (values_get (Query d) ''key'') else rawPath)
       in if rawPath = [] then ([], False)
          else (case liveVariants c pms e rawPath token of None \<Rightarrow> ([], False) | Some out \<Rightarrow> (out, False)))"

section \<open>Forwarding\<close>

definition dropsDecisionHeader :: "string \<Rightarrow> bool" where
  "dropsDecisionHeader k \<longleftrightarrow> to_lower k \<in>
    {''connection'', ''keep-alive'', ''te'', ''trailer'', ''transfer-encoding'', ''upgrade'',
     ''proxy-authenticate'', ''proxy-authorization'', ''x-plex-token'', ''content-length''}"

definition copyDecisionHeaders :: "multimap \<Rightarrow> multimap \<Rightarrow> multimap" where
  "copyDecisionHeaders dst src =
    fold (\<lambda>(k, vv) dst. if dropsDecisionHeader k then dst
        else fold (\<lambda>v dst. values_add dst (canonical_header_key k) v) vv dst) src dst"

record forwarded =
  fwdStatus :: int
  fwdContentType :: string
  fwdBody :: string

definition forward ::
  "(pms_call \<Rightarrow> pms_answer option) \<Rightarrow> Engine \<Rightarrow> request \<Rightarrow> decisionRequest \<Rightarrow> string \<Rightarrow> int \<Rightarrow> int option \<Rightarrow> forwarded option" where
  "forward pms e r d token selected cap =
    (let target = trim_suffix (Origin e) ''/'' @ URLPath r @ ''?'' @ values_encode (rewriteQuery (Query d) selected cap);
         hdr = values_set (copyDecisionHeaders [] (Header r)) ''X-Plex-Token'' token
     in case pms \<lparr>callMethod = Method r, callTarget = target, callHeader = hdr\<rparr> of
          None \<Rightarrow> None
        | Some resp \<Rightarrow>
            (case ansBody resp of
               None \<Rightarrow> None
             | Some body \<Rightarrow> Some \<lparr>fwdStatus = ansStatus resp,
                 fwdContentType = header_get (ansHeader resp) ''Content-Type'', fwdBody = limit_read 1048577 body\<rparr>))"

section \<open>The decision handler\<close>

text \<open>
  What the handler does besides answering: audit rows, the session it asks the store to
  create, and the decision counter.
\<close>

datatype playback_event =
    Audit string int int string string int "rejection list"
  | Create Session
  | CountDecision

datatype answer_body = ErrorBody string string | PolicyErrorBody string string "string list" | RawBody string

record playback_response =
  respStatus :: int
  respContentType :: string
  respNoStore :: bool
  respBody :: answer_body

record refusal =
  RefusalCode :: string
  RefusalMessage :: string

datatype decision_outcome = Transparent | Refused refusal | Wrote playback_response

abbreviation "DecisionUnsupported \<equiv> ''POLICY_DECISION_UNSUPPORTED''"

definition writeError :: "int \<Rightarrow> string \<Rightarrow> string \<Rightarrow> decision_outcome" where
  "writeError status code message =
    Wrote \<lparr>respStatus = status, respContentType = ''application/json'', respNoStore = True,
           respBody = ErrorBody code message\<rparr>"

definition writePolicyError :: "string \<Rightarrow> string \<Rightarrow> rejection list \<Rightarrow> decision_outcome" where
  "writePolicyError code message rejected =
    Wrote \<lparr>respStatus = 403, respContentType = ''application/json'', respNoStore = True,
           respBody = PolicyErrorBody code message (map RenderReason rejected)\<rparr>"

definition persistDecision ::
  "Engine \<Rightarrow> string \<Rightarrow> int \<Rightarrow> int \<Rightarrow> string \<Rightarrow> string \<Rightarrow> int \<Rightarrow> rejection list \<Rightarrow> playback_event list" where
  "persistDecision e sid requested selected dec reason code rejected =
    (if EngineDB e = None then [] else [Audit sid requested selected dec reason code rejected])"

text \<open>The last part of the handler: the accepted answer becomes a session.\<close>

definition recordSession ::
  "codec \<Rightarrow> (Session \<Rightarrow> Session option) \<Rightarrow> Engine \<Rightarrow> decisionRequest \<Rightarrow> string \<Rightarrow> string \<Rightarrow> string \<Rightarrow> policy \<Rightarrow>
    decision \<Rightarrow> variantSource \<Rightarrow> decisionResponse \<Rightarrow> forwarded \<Rightarrow> decision_outcome \<times> playback_event list" where
  "recordSession c create e d sid iid cid pol dec selected resp fwd =
    (let s = \<lparr>SessionID = [], PlexSessionID = sid, SessRatingKey = RatingKey d, SessIdentityID = iid,
              SessClientUUID = cid, SelectedMediaIndex = SelectedIndex dec,
              SelectedPartPlexID = PartPlexID selected, SelectedPartKey = PartKey selected,
              SelectedVariantID = VariantUUID selected, SelectedPartID = PartUUID selected,
              PlaybackMode = modeOf resp, SessRoutingMode = routingMode pol,
              EffectivePolicy = marshalPolicy c pol\<rparr>
     in case create s of
          None \<Rightarrow> (writeError 500 ''SESSION_PERSIST_FAILED'' ''playback session could not be recorded'', [Create s])
        | Some sess \<Rightarrow>
            (Wrote \<lparr>respStatus = fwdStatus fwd, respContentType = fwdContentType fwd, respNoStore = False,
                    respBody = RawBody (fwdBody fwd)\<rparr>,
             Create s # persistDecision e (SessionID sess) (RequestedIndex d) (SelectedIndex dec) ''allow'' (modeOf resp)
               (RespCode resp) (Rejected dec) @ [CountDecision]))"

text \<open>The answer of the Plex server is checked against the selection.\<close>

definition acceptAnswer ::
  "codec \<Rightarrow> (Session \<Rightarrow> Session option) \<Rightarrow> Engine \<Rightarrow> decisionRequest \<Rightarrow> string \<Rightarrow> string \<Rightarrow> string \<Rightarrow> policy \<Rightarrow>
    variantSource list \<Rightarrow> decision \<Rightarrow> variantSource \<Rightarrow> decisionResponse \<Rightarrow> forwarded \<Rightarrow>
    decision_outcome \<times> playback_event list" where
  "acceptAnswer c create e d sid iid cid pol sources dec selected resp fwd =
    (let audit = (\<lambda>sel reason code. persistDecision e [] (RequestedIndex d) sel ''deny'' reason code (Rejected dec)) in
     if fwdStatus fwd < 200 \<or> fwdStatus fwd > 299 then
       (writeError 502 ''PMS_DECISION_REJECTED'' ''PMS rejected the playback negotiation'',
        audit (RequestedIndex d) ''PMS_DECISION_REJECTED'' (RespCode resp))
     else if RespCode resp = 0 \<and> \<not> RespDirectPlay resp \<and> \<not> RespDirectStream resp \<and> \<not> RespTranscode resp then
       (writeError 502 ''PMS_DECISION_REJECTED'' ''PMS decision carries no usable negotiation outcome'',
        audit (RequestedIndex d) ''PMS_DECISION_REJECTED'' 0)
     else if HasIndex resp \<and> RespMediaIndex resp \<noteq> SelectedIndex dec \<and>
             list_ex (\<lambda>rj. RejIndex rj = RespMediaIndex resp) (Rejected dec) then
       (writePolicyError OriginMismatch ''PMS selected a policy-rejected source'' (Rejected dec),
        audit (RespMediaIndex resp) OriginMismatch (RespCode resp))
     else
       let pos = indexOf sources (RespMediaIndex resp);
           moved = HasIndex resp \<and> RespMediaIndex resp \<noteq> SelectedIndex dec \<and> pos \<ge> 0;
           selected = (if moved then sources ! nat pos else selected);
           dec = (if moved then dec\<lparr>SelectedIndex := RespMediaIndex resp\<rparr> else dec)
       in if modeOf resp = ''transcode'' \<and> Normalize (AllowTranscode pol) = Deny then
            (writePolicyError TranscodeForbidden ''transcoding is denied and the eligible source requires it'' (Rejected dec),
             audit (SelectedIndex dec) TranscodeForbidden (RespCode resp))
          else recordSession c create e d sid iid cid pol dec selected resp fwd)"

definition HandleDecision ::
  "codec \<Rightarrow> (pms_call \<Rightarrow> pms_answer option) \<Rightarrow> (Session \<Rightarrow> Session option) \<Rightarrow> Engine \<Rightarrow> request \<Rightarrow> string \<Rightarrow> string \<Rightarrow> string \<Rightarrow>
    decision_outcome \<times> playback_event list" where
  "HandleDecision c pms create e r sid iid cid =
    (if \<not> HasStore e then (Transparent, [])
     else let d = parseDecision r; token = ExtractToken r in
       if RatingKey d = [] then
         (Refused \<lparr>RefusalCode = DecisionUnsupported,
            RefusalMessage = ''playback decision without an identifiable rating key cannot be policy-checked''\<rparr>, [])
       else if token = [] then
         (Refused \<lparr>RefusalCode = DecisionUnsupported,
            RefusalMessage = ''playback decision without user context cannot be policy-checked''\<rparr>, [])
       else case loadPolicy c e iid cid of
         None \<Rightarrow> (writeError 502 ''POLICY_LOAD_FAILED'' ''effective policy unavailable'', [])
       | Some (pol, sc) \<Rightarrow>
           let (sources, indexed) = variants c pms e d token in
           if sources = [] then (writeError 502 ''NO_ORIGIN_VARIANTS'' ''origin returned no media variants'', [])
           else let (dec, err) = Evaluate pol sc (map toPolicy sources) in
             case err of
               Some perr \<Rightarrow>
                 if Code perr = NoAllowedVariant then
                   (writePolicyError (Code perr) ''no media variant satisfies effective policy'' (Rejected dec),
                    persistDecision e [] (RequestedIndex d) (- 1) ''deny'' (Code perr) 0 (Rejected dec))
                 else (writeError 500 ''POLICY_EVAL_FAILED'' ''policy evaluation failed'', [])
             | None \<Rightarrow>
                 let spos = indexOf sources (SelectedIndex dec) in
                 if spos < 0 then (writeError 500 ''POLICY_EVAL_FAILED'' ''selected index not in candidates'', [])
                 else (case forward pms e r d token (SelectedIndex dec) (OutputBitrateKbps dec) of
                         None \<Rightarrow> (writeError 502 ''ORIGIN_UNAVAILABLE'' ''PMS decision unreachable'', [])
                       | Some fwd \<Rightarrow>
                           (case parseDecisionResponse (decodeDecision c) (fwdBody fwd) of
                              None \<Rightarrow> (writeError 502 ''DECISION_PARSE_FAILED'' ''PMS decision unreadable'', [])
                            | Some resp \<Rightarrow>
                                acceptAnswer c create e d sid iid cid pol sources dec (sources ! nat spos) resp fwd)))"

section \<open>Lemmas\<close>

lemma indexOfFrom_cases:
  obtains "indexOfFrom i ss idx = - 1" "\<forall>v \<in> set ss. SrcIndex v \<noteq> idx"
  | n where "indexOfFrom i ss idx = int (i + n)" "n < length ss" "SrcIndex (ss ! n) = idx"
      "\<forall>m < n. SrcIndex (ss ! m) \<noteq> idx"
proof (induction i ss idx arbitrary: thesis rule: indexOfFrom.induct)
  case (2 i v ss idx)
  show ?case
  proof (cases "SrcIndex v = idx")
    case True
    then show ?thesis using 2(3) [of 0] by simp
  next
    case False
    show ?thesis
    proof (rule 2(1) [OF False])
      assume "indexOfFrom (Suc i) ss idx = - 1" "\<forall>v \<in> set ss. SrcIndex v \<noteq> idx"
      then show thesis using False by (intro 2(2)) simp_all
    next
      fix n assume "indexOfFrom (Suc i) ss idx = int (Suc i + n)" "n < length ss" "SrcIndex (ss ! n) = idx"
        "\<forall>m < n. SrcIndex (ss ! m) \<noteq> idx"
      then show thesis using False by (intro 2(3) [of "Suc n"]) (auto simp: less_Suc_eq_0_disj)
    qed
  qed
qed simp

lemma indexOf_nonneg:
  assumes "indexOf ss idx \<ge> 0"
  shows "ss ! nat (indexOf ss idx) \<in> set ss" "SrcIndex (ss ! nat (indexOf ss idx)) = idx"
  using assms by (cases rule: indexOfFrom_cases [of 0 ss idx]; simp add: indexOf_def)+

lemma indexOf_mem: "v \<in> set ss \<Longrightarrow> SrcIndex v = idx \<Longrightarrow> indexOf ss idx \<ge> 0"
  by (cases rule: indexOfFrom_cases [of 0 ss idx]) (auto simp: indexOf_def)

lemma toPolicy_sel [simp]: "MediaIndex (toPolicy v) = SrcIndex v" "Playability (toPolicy v) = UnknownPlayability"
  by (simp_all add: toPolicy_def)

text \<open>A candidate whose index the policy engine did not reject is permitted.\<close>

lemma not_rejected_permitted:
  assumes "v \<in> set ss" "\<not> list_ex (\<lambda>rj. RejIndex rj = SrcIndex v) (rejections pol sc (map toPolicy ss))"
  shows "permitted pol (toPolicy v)"
proof (rule ccontr)
  assume "\<not> permitted pol (toPolicy v)"
  then obtain rj where rj: "screenVariant pol (eval_scope sc) (toPolicy v) = Some rj"
    using screenVariant_None by blast
  then have "rj \<in> set (rejections pol sc (map toPolicy ss))"
    using assms(1) by (force simp: rejections_def List.map_filter_def image_iff)
  with assms(2) screenVariant_index [OF rj] show False by (auto simp: list_ex_iff)
qed

text \<open>Evaluation of candidates of unknown playability selects a permitted one or finds none.\<close>

lemma Evaluate_sources:
  obtains (refused) dec perr where "Evaluate pol sc (map toPolicy ss) = (dec, Some perr)" "Code perr = NoAllowedVariant"
  | (chosen) dec v where "Evaluate pol sc (map toPolicy ss) = (dec, None)" "v \<in> set ss" "permitted pol (toPolicy v)"
      "SelectedIndex dec = SrcIndex v" "Rejected dec = rejections pol sc (map toPolicy ss)"
proof (cases rule: Evaluate_cases [of pol "map toPolicy ss" sc])
  case none
  then show ?thesis by (intro refused) auto
next
  case (forbidden b)
  then show ?thesis by auto
next
  case (selected b)
  then obtain v where "v \<in> set ss" "b = toPolicy v" by auto
  with selected show ?thesis by (intro chosen) auto
qed

lemma parseDecision_sel [simp]: "RatingKey (parseDecision r) = ExtractRatingKey r" "Query (parseDecision r) = url_query r"
  by (simp_all add: parseDecision_def Let_def)

lemma Audit_not_Create: "Create s \<notin> set (persistDecision e sid req sel dec reason code rj)"
  by (simp add: persistDecision_def)

text \<open>The ways an evaluated request can end with a session.\<close>

lemma acceptAnswer_Create:
  assumes "acceptAnswer c create e d sid iid cid pol sources dec selected resp fwd = (out, evs)" "Create s \<in> set evs"
  obtains (kept) "SelectedMediaIndex s = SelectedIndex dec" "SelectedPartKey s = PartKey selected"
      "SelectedPartPlexID s = PartPlexID selected" "PlexSessionID s = sid" "SessIdentityID s = iid"
      "SessClientUUID s = cid" "SessRatingKey s = RatingKey d" "PlaybackMode s = modeOf resp"
      "EffectivePolicy s = marshalPolicy c pol"
      "modeOf resp = ''transcode'' \<longrightarrow> Normalize (AllowTranscode pol) \<noteq> Deny"
  | (moved) v where "v \<in> set sources" "\<not> list_ex (\<lambda>rj. RejIndex rj = SrcIndex v) (Rejected dec)"
      "SelectedMediaIndex s = SrcIndex v" "SelectedPartKey s = PartKey v"
      "SelectedPartPlexID s = PartPlexID v" "PlexSessionID s = sid" "SessIdentityID s = iid"
      "SessClientUUID s = cid" "SessRatingKey s = RatingKey d" "PlaybackMode s = modeOf resp"
      "EffectivePolicy s = marshalPolicy c pol"
      "modeOf resp = ''transcode'' \<longrightarrow> Normalize (AllowTranscode pol) \<noteq> Deny"
proof -
  let ?moved = "HasIndex resp \<and> RespMediaIndex resp \<noteq> SelectedIndex dec \<and> indexOf sources (RespMediaIndex resp) \<ge> 0"
  let ?sel = "if ?moved then sources ! nat (indexOf sources (RespMediaIndex resp)) else selected"
  let ?dec = "if ?moved then dec\<lparr>SelectedIndex := RespMediaIndex resp\<rparr> else dec"
  have rej: "\<not> (HasIndex resp \<and> RespMediaIndex resp \<noteq> SelectedIndex dec \<and>
      list_ex (\<lambda>rj. RejIndex rj = RespMediaIndex resp) (Rejected dec))"
    and rs: "recordSession c create e d sid iid cid pol ?dec ?sel resp fwd = (out, evs)"
    and mode: "modeOf resp = ''transcode'' \<longrightarrow> Normalize (AllowTranscode pol) \<noteq> Deny"
    using assms by (auto simp: acceptAnswer_def Let_def Audit_not_Create split: if_splits)
  have s: "SelectedMediaIndex s = SelectedIndex ?dec \<and> SelectedPartKey s = PartKey ?sel \<and>
      SelectedPartPlexID s = PartPlexID ?sel \<and> PlexSessionID s = sid \<and> SessIdentityID s = iid \<and>
      SessClientUUID s = cid \<and> SessRatingKey s = RatingKey d \<and> PlaybackMode s = modeOf resp \<and>
      EffectivePolicy s = marshalPolicy c pol"
    using rs assms(2) by (auto simp: recordSession_def Let_def Audit_not_Create split: option.splits)
  show thesis
  proof (cases ?moved)
    case True
    then have "?sel \<in> set sources" "SrcIndex ?sel = RespMediaIndex resp"
      using indexOf_nonneg [of sources "RespMediaIndex resp"] by simp_all
    with True s rej mode show thesis by (intro moved [of ?sel]) auto
  next
    case False
    with s mode show thesis by (intro kept) auto
  qed
qed

lemma HandleDecision_Create:
  assumes "HandleDecision c pms create e r sid iid cid = (out, evs)" "Create s \<in> set evs"
  obtains pol sc sources dec resp fwd where
    "HasStore e" "ExtractToken r \<noteq> []" "loadPolicy c e iid cid = Some (pol, sc)"
    "sources = fst (variants c pms e (parseDecision r) (ExtractToken r))"
    "Evaluate pol sc (map toPolicy sources) = (dec, None)" "indexOf sources (SelectedIndex dec) \<ge> 0"
    "acceptAnswer c create e (parseDecision r) sid iid cid pol sources dec
       (sources ! nat (indexOf sources (SelectedIndex dec))) resp fwd = (out, evs)"
proof -
  obtain sources indexed where v: "variants c pms e (parseDecision r) (ExtractToken r) = (sources, indexed)"
    by (cases "variants c pms e (parseDecision r) (ExtractToken r)")
  have store: "HasStore e" "ExtractToken r \<noteq> []" "RatingKey (parseDecision r) \<noteq> []"
    using assms by (auto simp: HandleDecision_def Let_def split: if_splits)
  then obtain pol sc where l: "loadPolicy c e iid cid = Some (pol, sc)"
    using assms by (auto simp: HandleDecision_def Let_def split: option.splits)
  obtain dec err where ev: "Evaluate pol sc (map toPolicy sources) = (dec, err)"
    by (cases "Evaluate pol sc (map toPolicy sources)")
  have ne: "sources \<noteq> []"
    using assms store l v by (auto simp: HandleDecision_def Let_def split: if_splits)
  have None: "err = None"
    using assms store l v ev ne
    by (auto simp: HandleDecision_def Let_def Audit_not_Create split: option.splits if_splits)
  have ge: "indexOf sources (SelectedIndex dec) \<ge> 0"
    using assms store l v ev ne None by (auto simp: HandleDecision_def Let_def split: if_splits)
  obtain fwd where f: "forward pms e r (parseDecision r) (ExtractToken r) (SelectedIndex dec) (OutputBitrateKbps dec) = Some fwd"
    using assms store l v ev ne None ge by (auto simp: HandleDecision_def Let_def split: option.splits)
  obtain resp where p: "parseDecisionResponse (decodeDecision c) (fwdBody fwd) = Some resp"
    using assms store l v ev ne None ge f by (auto simp: HandleDecision_def Let_def split: option.splits)
  have "acceptAnswer c create e (parseDecision r) sid iid cid pol sources dec
       (sources ! nat (indexOf sources (SelectedIndex dec))) resp fwd = (out, evs)"
    using assms(1) store l v ev ne None ge f p by (simp add: HandleDecision_def Let_def)
  then show thesis using that store l v ev None ge by (metis fst_conv)
qed

lemma distinct_same_index:
  "distinct (map SrcIndex ss) \<Longrightarrow> u \<in> set ss \<Longrightarrow> v \<in> set ss \<Longrightarrow> SrcIndex u = SrcIndex v \<Longrightarrow> u = v"
  by (simp add: distinct_map inj_on_def)

lemma HandleDecision_selects:
  assumes "HandleDecision c pms create e r sid iid cid = (out, evs)" "Create s \<in> set evs"
    and "distinct (map SrcIndex (fst (variants c pms e (parseDecision r) (ExtractToken r))))"
  obtains pol sc v where "loadPolicy c e iid cid = Some (pol, sc)"
    "v \<in> set (fst (variants c pms e (parseDecision r) (ExtractToken r)))"
    "permitted pol (toPolicy v)" "SelectedMediaIndex s = SrcIndex v"
    "SelectedPartKey s = PartKey v" "SelectedPartPlexID s = PartPlexID v"
    "PlaybackMode s = ''transcode'' \<longrightarrow> \<not> denied (AllowTranscode pol)"
    "SessIdentityID s = iid" "SessClientUUID s = cid" "PlexSessionID s = sid"
    "SessRatingKey s = ExtractRatingKey r" "EffectivePolicy s = marshalPolicy c pol"
proof -
  from assms(1,2) obtain pol sc sources dec resp fwd where
    l: "loadPolicy c e iid cid = Some (pol, sc)"
    and v: "sources = fst (variants c pms e (parseDecision r) (ExtractToken r))"
    and ev: "Evaluate pol sc (map toPolicy sources) = (dec, None)"
    and ge: "indexOf sources (SelectedIndex dec) \<ge> 0"
    and a: "acceptAnswer c create e (parseDecision r) sid iid cid pol sources dec
       (sources ! nat (indexOf sources (SelectedIndex dec))) resp fwd = (out, evs)"
    by (rule HandleDecision_Create)
  let ?sel = "sources ! nat (indexOf sources (SelectedIndex dec))"
  obtain b where b: "b \<in> set sources" "permitted pol (toPolicy b)" "SelectedIndex dec = SrcIndex b"
    "Rejected dec = rejections pol sc (map toPolicy sources)"
    by (rule Evaluate_sources [of pol sc sources]) (use ev in auto)
  have sel: "?sel = b"
    using indexOf_nonneg [OF ge] b(1,3) assms(3) v by (metis distinct_same_index)
  from a assms(2) show thesis
  proof (cases rule: acceptAnswer_Create)
    case kept
    with l b sel v show thesis by (intro that [of pol sc b]) (auto simp: denied_def)
  next
    case (moved u)
    with b(4) not_rejected_permitted have "permitted pol (toPolicy u)" by metis
    with l moved v show thesis by (intro that [of pol sc u]) (auto simp: denied_def)
  qed
qed

text \<open>An available candidate has a part key, on the index path as on the live one.\<close>

lemma scanIndexRows_part: "scanIndexRows rows = Some out \<Longrightarrow> v \<in> set out \<Longrightarrow> SrcPartAvailable v = (PartKey v \<noteq> [])"
  by (induction rows arbitrary: out) (auto split: option.splits)

lemma scanParts_part: "scanParts ps x = (ok, key, pid, x') \<Longrightarrow> ok = (key \<noteq> [])"
  by (induction ps arbitrary: x) (auto simp: Let_def split: if_splits)

lemma liveVariant_part: "SrcPartAvailable (liveVariant i m) = (PartKey (liveVariant i m) \<noteq> [])"
  using scanParts_part [of "LiveParts m" "[]"] by (auto simp: liveVariant_def split: prod.splits)

lemma variants_part:
  "v \<in> set (fst (variants c pms e d token)) \<Longrightarrow> SrcPartAvailable v = (PartKey v \<noteq> [])"
  by (auto simp: variants_def indexVariants_def liveVariants_def parseLiveVariants_def Let_def liveVariant_part
      split: option.splits if_splits list.splits dest: scanIndexRows_part)

text \<open>
  C21. A negotiation is recorded as a session only for a candidate the policy permits. When the
  candidates of a title carry distinct media indices, the session names the index, the part and
  the part key of one candidate that the effective policy of exactly the resolved identity and
  client permits, whether the policy engine chose it or the Plex server moved to it; a session
  in transcode mode exists only if that policy does not deny transcoding; and the session is
  bound to the identity, client, session identifier and title of the request.
\<close>

theorem HandleDecision_session_permitted:
  assumes "HandleDecision c pms create e r sid iid cid = (out, evs)" "Create s \<in> set evs"
    and "distinct (map SrcIndex (fst (variants c pms e (parseDecision r) (ExtractToken r))))"
  shows "\<exists>pol sc. loadPolicy c e iid cid = Some (pol, sc) \<and>
    (\<exists>v \<in> set (fst (variants c pms e (parseDecision r) (ExtractToken r))).
       permitted pol (toPolicy v) \<and> SelectedMediaIndex s = SrcIndex v \<and>
       SelectedPartKey s = PartKey v \<and> SelectedPartPlexID s = PartPlexID v) \<and>
    (PlaybackMode s = ''transcode'' \<longrightarrow> \<not> denied (AllowTranscode pol)) \<and>
    SessIdentityID s = iid \<and> SessClientUUID s = cid \<and> PlexSessionID s = sid \<and>
    SessRatingKey s = ExtractRatingKey r \<and> EffectivePolicy s = marshalPolicy c pol"
  by (rule HandleDecision_selects [OF assms]) blast

definition answers_without :: "string \<Rightarrow> decision_outcome \<Rightarrow> bool" where
  "answers_without code out \<longleftrightarrow> (\<exists>resp. out = Wrote resp \<and> (\<forall>m. respBody resp \<noteq> ErrorBody code m))"

lemma answers_without_write [simp]:
  "answers_without code (writeError st code' m) \<longleftrightarrow> code' \<noteq> code"
  "answers_without code (writePolicyError code' m rj)"
  by (auto simp: answers_without_def writeError_def writePolicyError_def)

lemma acceptAnswer_answers:
  "answers_without ''POLICY_EVAL_FAILED'' (fst (acceptAnswer c create e d sid iid cid pol sources dec selected resp fwd))"
  by (simp add: acceptAnswer_def recordSession_def Let_def split: option.split if_split)
    (simp add: answers_without_def)

lemma HandleDecision_answers:
  assumes "HasStore e" "ExtractRatingKey r \<noteq> []" "ExtractToken r \<noteq> []"
  shows "answers_without ''POLICY_EVAL_FAILED'' (fst (HandleDecision c pms create e r sid iid cid))"
proof -
  obtain sources indexed where v: "variants c pms e (parseDecision r) (ExtractToken r) = (sources, indexed)"
    by (cases "variants c pms e (parseDecision r) (ExtractToken r)")
  show ?thesis
  proof (cases "loadPolicy c e iid cid")
    case None
    then show ?thesis using assms by (simp add: HandleDecision_def Let_def)
  next
    case (Some p)
    obtain pol sc where p: "p = (pol, sc)" by (cases p)
    show ?thesis
    proof (cases rule: Evaluate_sources [of pol sc sources])
      case (refused dec perr)
      then show ?thesis using assms Some p v by (simp add: HandleDecision_def Let_def)
    next
      case (chosen dec b)
      then have "indexOf sources (SelectedIndex dec) \<ge> 0" using indexOf_mem [of b] by simp
      then show ?thesis using assms Some p v chosen(1) acceptAnswer_answers
        by (simp add: HandleDecision_def Let_def split: option.split)
    qed
  qed
qed

text \<open>
  C22. A wired engine never lets a decision request through unchecked: the outcome is a refusal,
  which happens exactly when the request has no rating key or no token, or an answer; and
  the code \<^verbatim>\<open>POLICY_EVAL_FAILED\<close> is never answered, because the candidates carry unknown
  playability and the selection is always one of them.
\<close>

theorem HandleDecision_never_transparent:
  assumes "HasStore e" "HandleDecision c pms create e r sid iid cid = (out, evs)"
  shows "out \<noteq> Transparent \<and>
    ((\<exists>d. out = Refused d) \<longleftrightarrow> ExtractRatingKey r = [] \<or> ExtractToken r = []) \<and>
    (\<forall>resp m. out = Wrote resp \<longrightarrow> respBody resp \<noteq> ErrorBody ''POLICY_EVAL_FAILED'' m)"
proof (cases "ExtractRatingKey r = [] \<or> ExtractToken r = []")
  case True
  then have "\<exists>d. out = Refused d"
    using assms by (cases "ExtractRatingKey r = []") (auto simp: HandleDecision_def Let_def)
  with True show ?thesis by auto
next
  case False
  with assms HandleDecision_answers [of e r c pms create sid iid cid]
  have "answers_without ''POLICY_EVAL_FAILED'' out" by simp
  with False show ?thesis by (auto simp: answers_without_def)
qed


section \<open>A concrete negotiation\<close>

text \<open>A title with a 4K and a 1080p variant under a global policy that denies 4K.\<close>

definition exSource :: "int \<Rightarrow> int \<Rightarrow> string \<Rightarrow> variantSource" where
  "exSource i w part = \<lparr>SrcIndex = i, PlexMediaID = [], SrcWidth = Some w, SrcHeight = None, SrcBitrate = Some 8000,
     SrcDynamicRange = DRSDR, SrcVideoCodec = ''hevc'', SrcAudioChannels = Some 2, SrcPartAvailable = True,
     PartKey = ''/library/parts/'' @ part @ ''/file.mkv'', PartPlexID = part, VariantUUID = ''v'' @ part, PartUUID = ''p'' @ part\<rparr>"

definition exDB :: engine_db where
  "exDB = \<lparr>dbServer = Some ''srv'',
     dbPolicies = (\<lambda>_ level _. if level = ''global'' then Row ''no4k'' else NoRows),
     dbIndex = (\<lambda>_. Some [\<lparr>irSource = exSource 0 3840 ''301'', irPartUUID = Some ''p301''\<rparr>,
                           \<lparr>irSource = exSource 1 1920 ''302'', irPartUUID = Some ''p302''\<rparr>]),
     dbPart = (\<lambda>p. if p = ''301'' then Some (exSource 0 3840 ''301'', ''7'')
                   else if p = ''302'' then Some (exSource 1 1920 ''302'', ''7'') else None),
     dbVariantOf = (\<lambda>p _. if p \<in> {''301'', ''302''} then Some (''v'' @ p) else None)\<rparr>"

definition exCodec :: codec where
  "exCodec = \<lparr>decodePolicy = (\<lambda>raw. if raw = ''no4k'' then Some (zeroPolicy\<lparr>Allow4K := Deny, AllowTranscode := Deny\<rparr>) else None),
     marshalPolicy = AllowTranscode, storedTranscode = (\<lambda>raw. raw), decodeLive = (\<lambda>_. None),
     decodeDecision = (\<lambda>_. Some \<lparr>envDecision = Some 1000, envDirectPlay = True, envDirectStream = False,
        envTranscode = False, envMediaIndex = None\<rparr>),
     hmacSHA256 = (\<lambda>_ m. m)\<rparr>"

definition exEngine :: Engine where
  "exEngine = \<lparr>EngineDB = Some exDB, Origin = ''http://pms'', Secret = ''k'', HasStore = True, LoadPolicy = None\<rparr>"

definition exPms :: "pms_call \<Rightarrow> pms_answer option" where
  "exPms _ = Some \<lparr>ansStatus = 200, ansHeader = [], ansBody = Some ''{}''\<rparr>"

definition exPlay :: "string \<Rightarrow> string \<Rightarrow> request" where
  "exPlay path query = \<lparr>Method = ''GET'', URLHost = [], URLPath = path, RawQuery = query,
     Header = [(''X-Plex-Token'', [''tok''])], ContentLength = 0, RemoteAddr = [], ReqBody = []\<rparr>"

definition exDecisionCall :: request where
  "exDecisionCall = exPlay ''/video/:/transcode/universal/decision'' ''ratingKey=7&mediaIndex=0''"

definition exNegotiated :: Session where
  "exNegotiated = \<lparr>SessionID = [], PlexSessionID = ''sess'', SessRatingKey = ''7'', SessIdentityID = ''i'', SessClientUUID = ''c'',
     SelectedMediaIndex = 1, SelectedPartPlexID = ''302'', SelectedPartKey = ''/library/parts/302/file.mkv'',
     SelectedVariantID = ''v302'', SelectedPartID = ''p302'', PlaybackMode = ''directPlay'',
     SessRoutingMode = ''automatic'', EffectivePolicy = ''deny''\<rparr>"

lemma exDecision_creates:
  "Create exNegotiated \<in> set (snd (HandleDecision exCodec exPms Some exEngine exDecisionCall ''sess'' ''i'' ''c''))"
  by code_simp

theorem HandleDecision_session_permitted_witness:
  "\<exists>pol sc. loadPolicy exCodec exEngine ''i'' ''c'' = Some (pol, sc) \<and>
     permitted pol (toPolicy (exSource 1 1920 ''302'')) \<and> SelectedMediaIndex exNegotiated = 1"
proof -
  have sources: "fst (variants exCodec exPms exEngine (parseDecision exDecisionCall) (ExtractToken exDecisionCall)) =
    [exSource 0 3840 ''301'', exSource 1 1920 ''302'']" by code_simp
  have d: "distinct (map SrcIndex [exSource 0 3840 ''301'', exSource 1 1920 ''302''])" by (simp add: exSource_def)
  from HandleDecision_session_permitted [OF prod.collapse [symmetric] exDecision_creates, unfolded sources, OF d]
  show ?thesis by (auto simp: exSource_def exNegotiated_def)
qed

theorem HandleDecision_never_transparent_witness:
  "fst (HandleDecision exCodec exPms Some exEngine (exPlay ''/decision'' []) ''sess'' ''i'' ''c'') \<noteq> Transparent \<and>
   (\<exists>d. fst (HandleDecision exCodec exPms Some exEngine (exPlay ''/decision'' []) ''sess'' ''i'' ''c'') = Refused d)"
proof -
  have "HasStore exEngine" by (simp add: exEngine_def)
  moreover have "ExtractRatingKey (exPlay ''/decision'' []) = []" by code_simp
  ultimately show ?thesis
    using HandleDecision_never_transparent [OF _ prod.collapse [symmetric], of exEngine exCodec exPms Some "exPlay ''/decision'' []" "''sess''" "''i''" "''c''"]
    by blast
qed


end
