(* ===== verification/Boundary.thy ===== *)
theory Boundary
  imports Playback
begin

text \<open>
  The media boundary (\<^verbatim>\<open>internal/playback/boundary.go\<close>): raw parts and manifests are checked against the
  recorded negotiation, bound to the identity that negotiated, and without one the policy is
  evaluated anew for user, client and part. The identity resolver is threaded as state.
\<close>

section \<open>Part paths\<close>

text \<open>
  The scan for \<^verbatim>\<open>library/parts/<id>\<close>. \<^verbatim>\<open>SplitN\<close> with a count of one returns its argument
  whole, so a question mark would stay part of the identifier.
\<close>

fun partScan :: "string list \<Rightarrow> string" where
  "partScan (a # b # c # rest) =
    (if a = ''library'' \<and> b = ''parts'' \<and> c \<noteq> [] then c else partScan (b # c # rest))"
| "partScan _ = []"

definition PartIDFromPath :: "string \<Rightarrow> string" where
  "PartIDFromPath path = partScan (split_on CHR ''/'' (to_lower path))"

section \<open>Session binding\<close>

abbreviation "SessionIdentityMismatch \<equiv> ''POLICY_SESSION_IDENTITY_MISMATCH''"
abbreviation "DecisionRequired \<equiv> ''POLICY_DECISION_REQUIRED''"

definition bindingMismatch :: "string \<Rightarrow> string \<Rightarrow> string \<Rightarrow> string \<Rightarrow> bool" where
  "bindingMismatch storedIdentity storedClient curIdentity curClient =
    (if storedIdentity = [] \<and> storedClient = [] then False
     else if storedIdentity \<noteq> [] \<and> storedIdentity \<noteq> curIdentity then True
     else if storedClient \<noteq> [] \<and> storedClient \<noteq> curClient then True
     else False)"

record surroundings =
  Codec :: codec
  Answers :: answers
  Now :: gotime
  FindSession :: "string \<Rightarrow> session_lookup"

text \<open>The identity and the client of a request, empty when no resolver is wired.\<close>

definition resolveRequest ::
  "surroundings \<Rightarrow> Engine \<Rightarrow> request \<Rightarrow> Resolver option \<Rightarrow> Resolver option \<times> db_write list \<times> string \<times> string" where
  "resolveRequest w e r rv =
    (case rv of
       None \<Rightarrow> (None, [], [], [])
     | Some v \<Rightarrow>
         let token = ExtractToken r;
             (v, res, writes) = Resolve (Answers w) (Now w) (Fingerprint (hmacSHA256 (Codec w)) (Secret e) token) token
               (FromTrace (ExtractClient r)) v
         in (Some v, writes, IdentityID res, ClientID res))"

type_synonym verdict = "string \<times> bool \<times> string"

abbreviation "pass \<equiv> ([], False, [])"

definition refuse :: "string \<Rightarrow> verdict" where
  "refuse reason = ([], True, reason)"

definition checkSessionBinding ::
  "surroundings \<Rightarrow> Engine \<Rightarrow> request \<Rightarrow> Session \<Rightarrow> Resolver option \<Rightarrow> Resolver option \<times> db_write list \<times> bool \<times> string" where
  "checkSessionBinding w e r sess rv =
    (if SessIdentityID sess = [] \<and> SessClientUUID sess = [] then (rv, [], False, [])
     else if ExtractToken r = [] then (rv, [], True, SessionIdentityMismatch)
     else let (rv, writes, curIdentity, curClient) = resolveRequest w e r rv in
       if bindingMismatch (SessIdentityID sess) (SessClientUUID sess) curIdentity curClient
       then (rv, writes, True, SessionIdentityMismatch) else (rv, writes, False, []))"

section \<open>Parts\<close>

definition lookupPart :: "Engine \<Rightarrow> string \<Rightarrow> (variantSource \<times> string) option" where
  "lookupPart e partPlexID =
    (case EngineDB e of
       None \<Rightarrow> None
     | Some db \<Rightarrow>
         if partPlexID = [] then None
         else (case dbPart db partPlexID of
                 None \<Rightarrow> None
               | Some (v, ratingKey) \<Rightarrow> Some (v\<lparr>SrcPartAvailable := (PartKey v \<noteq> [])\<rparr>, ratingKey)))"

definition sameVariant :: "Engine \<Rightarrow> Session \<Rightarrow> string \<Rightarrow> bool" where
  "sameVariant e sess partPlexID =
    (case EngineDB e of
       None \<Rightarrow> False
     | Some db \<Rightarrow>
         if partPlexID = [] then False
         else if SelectedVariantID sess \<noteq> [] then
           (case dbVariantOf db partPlexID (SessRatingKey sess) of
              None \<Rightarrow> False | Some vid \<Rightarrow> vid = SelectedVariantID sess)
         else if SelectedMediaIndex sess < 0 \<or> SessRatingKey sess = [] then False
         else (case lookupPart e partPlexID of
                 None \<Rightarrow> False
               | Some (v, ratingKey) \<Rightarrow> ratingKey = SessRatingKey sess \<and> SrcIndex v = SelectedMediaIndex sess))"

definition enforceStateless ::
  "surroundings \<Rightarrow> Engine \<Rightarrow> request \<Rightarrow> string \<Rightarrow> Resolver option \<Rightarrow> Resolver option \<times> db_write list \<times> verdict" where
  "enforceStateless w e r partID rv =
    (if ExtractToken r = [] then (rv, [], refuse DecisionRequired)
     else (case lookupPart e partID of
             None \<Rightarrow> (rv, [], refuse DecisionRequired)
           | Some (v, ratingKey) \<Rightarrow>
               let (rv, writes, iid, cid) = resolveRequest w e r rv in
               (case loadPolicy (Codec w) e iid cid of
                  None \<Rightarrow> (rv, writes, refuse DecisionRequired)
                | Some (pol, sc) \<Rightarrow>
                    (case snd (Evaluate pol sc [toPolicy v]) of
                       Some _ \<Rightarrow> (rv, writes, refuse DecisionRequired)
                     | None \<Rightarrow> (rv, writes, pass)))))"

section \<open>Manifests\<close>

definition enforceManifest ::
  "surroundings \<Rightarrow> Engine \<Rightarrow> request \<Rightarrow> string \<Rightarrow> Resolver option \<Rightarrow> Resolver option \<times> db_write list \<times> verdict" where
  "enforceManifest w e r sid rv =
    (case FindSession w sid of
       Found sess \<Rightarrow>
         (case checkSessionBinding w e r sess rv of
            (rv, writes, True, reason) \<Rightarrow> (rv, writes, refuse reason)
          | (rv, writes, False, _) \<Rightarrow>
              let reqRating = ExtractRatingKey r; q = url_query r in
              (rv, writes,
               if reqRating \<noteq> [] \<and> reqRating \<noteq> SessRatingKey sess then refuse OriginMismatch
               else if values_get q ''directPlay'' = ''0'' \<and> values_get q ''directStream'' = ''0'' \<and>
                       equal_fold (if EffectivePolicy sess \<noteq> [] then storedTranscode (Codec w) (EffectivePolicy sess) else [])
                         ''deny''
                    then refuse ''POLICY_TRANSCODE_FORBIDDEN''
               else if SelectedMediaIndex sess < 0 then refuse DecisionRequired
               else (let mi = values_get q ''mediaIndex'' in
                     case (if mi \<noteq> [] then atoi mi else Some 0) of
                       None \<Rightarrow> refuse OriginMismatch
                     | Some n \<Rightarrow>
                         if n < 0 then refuse OriginMismatch
                         else if n \<noteq> SelectedMediaIndex sess then refuse OriginMismatch
                         else pass)))
     | _ \<Rightarrow> (rv, [], refuse DecisionRequired))"

section \<open>The boundary\<close>

definition EnforcePart ::
  "surroundings \<Rightarrow> Engine \<Rightarrow> request \<Rightarrow> string \<Rightarrow> string \<Rightarrow> Resolver option \<Rightarrow> Resolver option \<times> db_write list \<times> verdict" where
  "EnforcePart w e r partID sid rv =
    (if \<not> HasStore e then (rv, [], pass)
     else if partID = [] then enforceManifest w e r sid rv
     else if sid = [] then enforceStateless w e r partID rv
     else (case FindSession w sid of
             Found sess \<Rightarrow>
               (case checkSessionBinding w e r sess rv of
                  (rv, writes, True, reason) \<Rightarrow> (rv, writes, refuse reason)
                | (rv, writes, False, _) \<Rightarrow>
                    (rv, writes,
                     if SelectedPartPlexID sess \<noteq> [] \<and> partID = SelectedPartPlexID sess then pass
                     else if SelectedPartPlexID sess \<noteq> [] \<and> sameVariant e sess partID then pass
                     else if SelectedPartKey sess \<noteq> [] then (SelectedPartKey sess, False, ''substituted'')
                     else refuse DecisionRequired))
           | _ \<Rightarrow> enforceStateless w e r partID rv))"

definition EndSession :: "(string \<Rightarrow> 'st \<Rightarrow> 'st) \<Rightarrow> Engine \<Rightarrow> request \<Rightarrow> 'st \<Rightarrow> 'st" where
  "EndSession close_s e r st =
    (if \<not> HasStore e then st
     else let sid = ExtractSession r in if sid = [] then st else close_s sid st)"

section \<open>What the boundary lets through\<close>

text \<open>The identity a request proves with the resolver as it stands.\<close>

definition proves :: "surroundings \<Rightarrow> Engine \<Rightarrow> Resolver option \<Rightarrow> request \<Rightarrow> string \<Rightarrow> string \<Rightarrow> bool" where
  "proves w e rv r iid cid \<longleftrightarrow> snd (snd (resolveRequest w e r rv)) = (iid, cid)"

text \<open>A bound session is proven when each stored binding is the one of the request.\<close>

definition binding_proven :: "surroundings \<Rightarrow> Engine \<Rightarrow> Resolver option \<Rightarrow> request \<Rightarrow> Session \<Rightarrow> bool" where
  "binding_proven w e rv r sess \<longleftrightarrow>
    SessIdentityID sess = [] \<and> SessClientUUID sess = [] \<or>
    ExtractToken r \<noteq> [] \<and> (\<exists>iid cid. proves w e rv r iid cid \<and>
      (SessIdentityID sess \<noteq> [] \<longrightarrow> SessIdentityID sess = iid) \<and> (SessClientUUID sess \<noteq> [] \<longrightarrow> SessClientUUID sess = cid))"

lemma checkSessionBinding_cases:
  obtains (bound) rv' writes where "checkSessionBinding w e r sess rv = (rv', writes, False, [])" "binding_proven w e rv r sess"
  | (unbound) rv' writes where "checkSessionBinding w e r sess rv = (rv', writes, True, SessionIdentityMismatch)"
      "\<not> binding_proven w e rv r sess"
proof -
  obtain rv1 w1 iid cid where rr: "resolveRequest w e r rv = (rv1, w1, iid, cid)"
    by (cases "resolveRequest w e r rv")
  have p: "proves w e rv r i c \<longleftrightarrow> i = iid \<and> c = cid" for i c using rr by (auto simp: proves_def)
  show thesis
  proof (cases "binding_proven w e rv r sess")
    case True
    then show ?thesis
      using rr p by (intro bound [of "fst (checkSessionBinding w e r sess rv)" "fst (snd (checkSessionBinding w e r sess rv))"])
        (auto simp: checkSessionBinding_def bindingMismatch_def binding_proven_def)
  next
    case False
    then show ?thesis
      using rr p by (intro unbound [of "fst (checkSessionBinding w e r sess rv)" "fst (snd (checkSessionBinding w e r sess rv))"])
        (auto simp: checkSessionBinding_def bindingMismatch_def binding_proven_def split: if_splits)
  qed
qed

lemma Evaluate_single: "snd (Evaluate pol sc [toPolicy v]) = None \<longleftrightarrow> permitted pol (toPolicy v)"
proof (cases rule: Evaluate_sources [of pol sc "[v]"])
  case (refused dec perr)
  then show ?thesis by (cases rule: Evaluate_cases [of pol "[toPolicy v]" sc]) (auto split: if_splits)
next
  case (chosen dec u)
  then show ?thesis by auto
qed

lemma Evaluate_refused: "snd (Evaluate pol sc [toPolicy v]) = Some perr \<Longrightarrow> \<not> permitted pol (toPolicy v)"
  using Evaluate_single [of pol sc v] by auto

text \<open>A stateless pass means that the policy of the proven identity permits the part's variant.\<close>

definition stateless_permitted :: "surroundings \<Rightarrow> Engine \<Rightarrow> Resolver option \<Rightarrow> request \<Rightarrow> string \<Rightarrow> bool" where
  "stateless_permitted w e rv r partID \<longleftrightarrow> ExtractToken r \<noteq> [] \<and>
    (\<exists>v rk iid cid pol sc. lookupPart e partID = Some (v, rk) \<and> proves w e rv r iid cid \<and>
       loadPolicy (Codec w) e iid cid = Some (pol, sc) \<and> permitted pol (toPolicy v))"

lemma enforceStateless_verdict:
  "snd (snd (enforceStateless w e r partID rv)) =
    (if stateless_permitted w e rv r partID then pass else refuse DecisionRequired)"
proof -
  obtain rv1 w1 iid cid where rr: "resolveRequest w e r rv = (rv1, w1, iid, cid)"
    by (cases "resolveRequest w e r rv")
  then have p: "proves w e rv r i c \<longleftrightarrow> i = iid \<and> c = cid" for i c by (auto simp: proves_def)
  show ?thesis
    unfolding stateless_permitted_def p
    by (auto simp: enforceStateless_def rr Evaluate_single split: option.split dest: Evaluate_refused)
qed

text \<open>
  C24. A part flows only when it is allowed. Whenever the boundary does not deny, either
  the session is on record, the request proves the identity and client bound to it, and the
  part is the negotiated one or one of the same variant, or it is replaced by the negotiated
  part; or no session can be consulted, the request carries a token, the part is known, and the
  policy in force for the proven identity permits the variant of the part. A store failure
  counts as no session.
\<close>

theorem EnforcePart_sound:
  assumes "HasStore e" "partID \<noteq> []" "EnforcePart w e r partID sid rv = (rv', writes, key, False, reason)"
  shows "(\<exists>sess. sid \<noteq> [] \<and> FindSession w sid = Found sess \<and> binding_proven w e rv r sess \<and>
      (key = [] \<and> SelectedPartPlexID sess \<noteq> [] \<and> (partID = SelectedPartPlexID sess \<or> sameVariant e sess partID) \<or>
       key = SelectedPartKey sess \<and> key \<noteq> [])) \<or>
    (sid = [] \<or> (\<forall>sess. FindSession w sid \<noteq> Found sess)) \<and> key = [] \<and> stateless_permitted w e rv r partID"
proof (cases "\<exists>sess. sid \<noteq> [] \<and> FindSession w sid = Found sess")
  case True
  then obtain sess where sess: "sid \<noteq> []" "FindSession w sid = Found sess" by blast
  show ?thesis
    by (cases rule: checkSessionBinding_cases [of w e r sess rv])
      (use assms sess in \<open>auto simp: EnforcePart_def refuse_def split: if_splits\<close>)
next
  case False
  then have "EnforcePart w e r partID sid rv = enforceStateless w e r partID rv"
    using assms(1,2) by (auto simp: EnforcePart_def split: session_lookup.splits)
  with assms(3) False enforceStateless_verdict [of w e r partID rv] show ?thesis
    by (auto simp: refuse_def split: if_splits)
qed

text \<open>
  A manifest passes exactly when the session is on record, its binding is proven, the
  request names no other title, it is not an explicit transcode under a policy stored as
  denying it, the recorded index is usable and the requested media index, zero when
  missing, is the recorded one. Every other request is denied with a code and without a
  substitute.
\<close>

theorem enforceManifest_iff:
  assumes "enforceManifest w e r sid rv = (rv', writes, key, deny, reason)"
  shows "key = [] \<and> (deny \<longleftrightarrow> reason \<noteq> []) \<and>
    (\<not> deny \<longleftrightarrow> (\<exists>sess. FindSession w sid = Found sess \<and> binding_proven w e rv r sess \<and>
       ExtractRatingKey r \<in> {[], SessRatingKey sess} \<and>
       \<not> (values_get (url_query r) ''directPlay'' = ''0'' \<and> values_get (url_query r) ''directStream'' = ''0'' \<and>
          EffectivePolicy sess \<noteq> [] \<and> equal_fold (storedTranscode (Codec w) (EffectivePolicy sess)) ''deny'') \<and>
       0 \<le> SelectedMediaIndex sess \<and>
       (if values_get (url_query r) ''mediaIndex'' = [] then SelectedMediaIndex sess = 0
        else atoi (values_get (url_query r) ''mediaIndex'') = Some (SelectedMediaIndex sess))))"
proof (cases "FindSession w sid")
  case (Found sess)
  have "\<not> equal_fold [] ''deny''" by code_simp
  show ?thesis
    by (cases rule: checkSessionBinding_cases [of w e r sess rv])
      (use assms Found \<open>\<not> equal_fold [] ''deny''\<close> in
        \<open>auto simp: enforceManifest_def refuse_def Let_def split: if_splits option.splits\<close>)
qed (use assms in \<open>auto simp: enforceManifest_def refuse_def\<close>)

section \<open>From the negotiation to the part\<close>

lemma sameVariant_cong:
  "SelectedVariantID s = SelectedVariantID s' \<Longrightarrow> SessRatingKey s = SessRatingKey s' \<Longrightarrow>
   SelectedMediaIndex s = SelectedMediaIndex s' \<Longrightarrow> sameVariant e s p = sameVariant e s' p"
  by (simp only: sameVariant_def)

lemma pgReread_sel [simp]:
  "SelectedVariantID (pgReread jsonb newID now s) = SelectedVariantID s"
  "SessRatingKey (pgReread jsonb newID now s) = SessRatingKey s"
  "SelectedMediaIndex (pgReread jsonb newID now s) = SelectedMediaIndex s"
  "SelectedPartPlexID (pgReread jsonb newID now s) = SelectedPartPlexID s"
  "SelectedPartKey (pgReread jsonb newID now s) = SelectedPartKey s"
  "SessIdentityID (pgReread jsonb newID now s) = SessIdentityID s"
  "SessClientUUID (pgReread jsonb newID now s) = SessClientUUID s"
  by (simp_all add: pgReread_def readRow_def rowOf_def)

text \<open>
  C25. What was negotiated plays, and only that. Once a decision was recorded in the Postgres
  store, and until the session is negotiated anew or stopped, a request that proves the same
  identity and client is let through to the negotiated part as it is; for a part of any other
  variant it is answered with the key of the negotiated part in its place, never with the
  part it asked for.
\<close>

theorem negotiated_part_plays:
  assumes "HandleDecision c pms create e r sid iid cid = (out, evs)" "Create s \<in> set evs" "sid \<noteq> []"
    and "distinct (map SrcIndex (fst (variants c pms e (parseDecision r) (ExtractToken r))))"
    and "SelectedPartPlexID s \<noteq> []"
    and "pgStarted t rows" "t < now" "paced now later" "sid \<notin> event_key ` set later"
    and "FindSession w = (\<lambda>k. PgFindActive True k
          (fold (applyEvent (pgOpen jsonb newID) pgClose) later (pgOpen jsonb newID now s rows)))"
    and "proves w e rv r' iid cid" "ExtractToken r' \<noteq> []"
  shows "snd (snd (EnforcePart w e r' (SelectedPartPlexID s) sid rv)) = pass \<and>
    (\<forall>p. p \<noteq> [] \<longrightarrow> p \<noteq> SelectedPartPlexID s \<longrightarrow> \<not> sameVariant e s p \<longrightarrow>
       snd (snd (EnforcePart w e r' p sid rv)) = (SelectedPartKey s, False, ''substituted''))"
proof -
  from assms(1,2) have store: "HasStore e" by (rule HandleDecision_Create)
  from assms(1,2,4) obtain pol sc v where v: "v \<in> set (fst (variants c pms e (parseDecision r) (ExtractToken r)))"
    "permitted pol (toPolicy v)" "SelectedPartKey s = PartKey v"
    "SessIdentityID s = iid" "SessClientUUID s = cid" "PlexSessionID s = sid"
    by (rule HandleDecision_selects)
  have "SrcPartAvailable v" using v(2) by (simp add: permitted_def toPolicy_def)
  then have key: "SelectedPartKey s \<noteq> []" using variants_part [OF v(1)] v(3) by simp
  let ?s = "pgReread jsonb newID now s"
  have found: "FindSession w sid = Found ?s"
    using pg_sessions.find_opened [OF assms(6,7) _ assms(8), of s jsonb newID] assms(3,9,10) v(6) by simp
  have bound: "binding_proven w e rv r' ?s"
    using assms(11,12) v(4,5) by (auto simp: binding_proven_def)
  have same: "sameVariant e ?s p = sameVariant e s p" for p by (rule sameVariant_cong) simp_all
  show ?thesis
    by (cases rule: checkSessionBinding_cases [of w e r' ?s rv])
      (use store found bound same key assms(3,5) in \<open>auto simp: EnforcePart_def\<close>)
qed

section \<open>A concrete boundary\<close>

text \<open>The negotiated session is stored, and the resolver proves its identity for the token.\<close>

definition exWorld :: surroundings where
  "exWorld = \<lparr>Codec = exCodec, Answers = demoEnv\<lparr>qIdentity := (\<lambda>_ _. Some ''i''), qClient := (\<lambda>_ _. ''c'')\<rparr>, Now = 5,
     FindSession = (\<lambda>k. PgFindActive True k
       (fold (applyEvent (pgOpen (\<lambda>p. p) (\<lambda>_. ''row'')) pgClose) [] (pgOpen (\<lambda>p. p) (\<lambda>_. ''row'') 3 exNegotiated [])))\<rparr>"

definition exResolver :: "Resolver option" where
  "exResolver = Some (NewResolver True True)"

definition exMedia :: "string \<Rightarrow> string \<Rightarrow> request" where
  "exMedia path query = (exPlay path query)\<lparr>Header := [(''X-Plex-Token'', [''tok'']), (''X-Plex-Client-Identifier'', [''dev''])]\<rparr>"

lemma exProves: "proves exWorld exEngine exResolver (exMedia [] []) ''i'' ''c''"
  unfolding proves_def by code_simp

theorem EnforcePart_sound_witness:
  "\<exists>sess. FindSession exWorld ''sess'' = Found sess \<and> binding_proven exWorld exEngine exResolver (exMedia [] []) sess \<and>
     SelectedPartKey sess = ''/library/parts/302/file.mkv''"
proof -
  let ?out = "EnforcePart exWorld exEngine (exMedia [] []) ''301'' ''sess'' exResolver"
  have v: "snd (snd ?out) = (''/library/parts/302/file.mkv'', False, ''substituted'')" by code_simp
  then have "?out = (fst ?out, fst (snd ?out), ''/library/parts/302/file.mkv'', False, ''substituted'')"
    by (metis prod.collapse)
  from EnforcePart_sound [OF _ _ this] show ?thesis by (auto simp: exEngine_def)
qed

theorem enforceManifest_iff_witness:
  "\<exists>sess. FindSession exWorld ''sess'' = Found sess \<and> SelectedMediaIndex sess = 1 \<and>
     snd (snd (enforceManifest exWorld exEngine (exMedia [] ''ratingKey=7&mediaIndex=1'') ''sess'' exResolver)) = pass"
proof -
  let ?r = "exMedia [] ''ratingKey=7&mediaIndex=1''"
  let ?out = "enforceManifest exWorld exEngine ?r ''sess'' exResolver"
  have v: "snd (snd ?out) = pass" by code_simp
  then have o: "?out = (fst ?out, fst (snd ?out), [], False, [])" by (metis prod.collapse)
  have i: "values_get (url_query ?r) ''mediaIndex'' = ''1''" "atoi ''1'' = Some 1" by code_simp+
  from enforceManifest_iff [OF o] obtain sess where "FindSession exWorld ''sess'' = Found sess"
    "atoi ''1'' = Some (SelectedMediaIndex sess)" unfolding i(1) by auto
  with v i(2) show ?thesis by auto
qed

theorem negotiated_part_plays_witness:
  "snd (snd (EnforcePart exWorld exEngine (exMedia [] []) ''302'' ''sess'' exResolver)) = pass \<and>
   snd (snd (EnforcePart exWorld exEngine (exMedia [] []) ''301'' ''sess'' exResolver)) =
     (''/library/parts/302/file.mkv'', False, ''substituted'')"
proof -
  have d: "distinct (map SrcIndex (fst (variants exCodec exPms exEngine (parseDecision exDecisionCall) (ExtractToken exDecisionCall))))"
    by code_simp
  have "ExtractToken (exMedia [] []) \<noteq> []" "\<not> sameVariant exEngine exNegotiated ''301''" by code_simp+
  with negotiated_part_plays [OF prod.collapse [symmetric] exDecision_creates _ d, of 0 "[]" 3 "[]" exWorld "\<lambda>p. p" "\<lambda>_. ''row''"
      exResolver "exMedia [] []"] exProves
  show ?thesis by (auto simp: exNegotiated_def exWorld_def pgStarted_def)
qed

end
