(* ===== verification/Proxy_Http.thy ===== *)
theory Proxy_Http
  imports Gateway Cache_Keys
begin

text \<open>
  The helpers of the proxy (\<^verbatim>\<open>internal/proxy/proxy.go\<close>, \<^verbatim>\<open>streaming.go\<close>): header copying without
  hop-by-hop headers, the response-side media guard, watch-state writes, part substitution,
  and the classification of event streams and artwork requests.
\<close>

section \<open>Headers\<close>

definition hopByHop :: "string list" where
  "hopByHop = [''Connection'', ''Proxy-Connection'', ''Keep-Alive'', ''Te'', ''Trailer'', ''Transfer-Encoding'',
     ''Upgrade'', ''Proxy-Authenticate'', ''Proxy-Authorization'']"

definition textprotoCanonical :: "string \<Rightarrow> string" where
  "textprotoCanonical k = (case find (equal_fold k) hopByHop of Some hop \<Rightarrow> hop | None \<Rightarrow> k)"

definition connectedTokens :: "multimap \<Rightarrow> string list" where
  "connectedTokens src =
    map to_lower (filter (\<lambda>t. t \<noteq> []) (map trim_space (split_on CHR '','' (header_get src ''Connection''))))"

definition copyHeaders :: "multimap \<Rightarrow> multimap \<Rightarrow> multimap" where
  "copyHeaders dst src =
    (let connected = connectedTokens src in
     fold (\<lambda>(k, vv) dst.
         if textprotoCanonical k \<in> set hopByHop \<or> to_lower k \<in> set connected then dst
         else fold (\<lambda>v dst. values_add dst (canonical_header_key k) v) vv dst) src dst)"

definition isBulkMediaResponse :: "multimap \<Rightarrow> bool" where
  "isBulkMediaResponse h \<longleftrightarrow>
    (let ct = to_lower (trim_space (before CHR '';'' (header_get h ''Content-Type''))) in
     has_prefix ct ''video/'' \<or> has_prefix ct ''audio/'' \<or>
     ct = ''application/vnd.apple.mpegurl'' \<or> ct = ''application/x-mpegurl'' \<or> ct = ''application/dash+xml'')"

definition singleJoin :: "string \<Rightarrow> string \<Rightarrow> string" where
  "singleJoin a b = trim_suffix a ''/'' @ ''/'' @ trim_prefix b ''/''"

section \<open>Requests\<close>

definition isStateWrite :: "string \<Rightarrow> bool" where
  "isStateWrite path \<longleftrightarrow>
    (let p = to_lower path in
     list_ex (has_suffix (trim_suffix p ''/'')) [''/:/timeline'', ''/:/progress'', ''/:/scrobble'', ''/:/unscrobble''] \<or>
     IsSessionStop p)"

definition substitutePartRequest :: "request \<Rightarrow> string \<Rightarrow> request" where
  "substitutePartRequest r substitute =
    (let (path, query) = (case index_of substitute ''?'' of
           Some i \<Rightarrow> (take i substitute, drop (i + 1) substitute) | None \<Rightarrow> (substitute, RawQuery r))
     in if \<not> has_prefix path ''/'' then r else r\<lparr>URLPath := path, RawQuery := query\<rparr>)"

definition requestHasCondition :: "request \<Rightarrow> bool" where
  "requestHasCondition r \<longleftrightarrow> list_ex (\<lambda>(name, _). has_prefix (to_lower name) ''if-'') (Header r)"

datatype Priority = Low | Normal | High | Protected

definition artworkPriority :: "request \<Rightarrow> Priority" where
  "artworkPriority r =
    (let resource = to_lower (values_get (url_query r) ''url'') in
     if contains resource ''background'' \<or> has_suffix resource ''/art'' then Low
     else if has_suffix resource ''/thumb'' \<or> has_suffix resource ''/poster'' \<or> has_suffix resource ''/cover'' then High
     else Normal)"

definition artworkMatch :: "string \<Rightarrow> bool" where
  "artworkMatch path \<longleftrightarrow> has_prefix (to_lower path) ''/photo/:/transcode''"

definition artworkCacheKey :: "(string \<Rightarrow> string) \<Rightarrow> string \<Rightarrow> request \<Rightarrow> string" where
  "artworkCacheKey sha sc r = hex_encode (sha (RequestKeyGen sha sc ''artwork'' r 0 0))"

text \<open>The request guards of \<^verbatim>\<open>serveArtwork\<close>.\<close>

definition artworkReusable :: "request \<Rightarrow> bool" where
  "artworkReusable r \<longleftrightarrow>
    \<not> (Method r \<noteq> ''GET'' \<or> header_get (Header r) ''Range'' \<noteq> [] \<or> header_get (Header r) ''Cookie'' \<noteq> [] \<or>
       header_get (Header r) ''Authorization'' \<noteq> [] \<or> requestHasCondition r \<or>
       contains (to_lower (header_get (Header r) ''Cache-Control'')) ''no-store'' \<or>
       contains (to_lower (header_get (Header r) ''Cache-Control'')) ''no-cache'' \<or>
       contains (to_lower (header_get (Header r) ''Pragma'')) ''no-cache'')"

section \<open>Event streams\<close>

abbreviation "ssePath \<equiv> ''/:/eventsource/notifications''"
abbreviation "wsPath \<equiv> ''/:/websocket/notifications''"

definition isSSE :: "request \<Rightarrow> bool" where
  "isSSE r \<longleftrightarrow> URLPath r = ssePath"

definition isWebSocket :: "request \<Rightarrow> bool" where
  "isWebSocket r \<longleftrightarrow> URLPath r = wsPath \<and>
    list_ex (\<lambda>v. equal_fold (trim_space v) ''websocket'') (split_on CHR '','' (header_get (Header r) ''Upgrade''))"

section \<open>What copying keeps\<close>

definition hopHeader :: "string \<Rightarrow> bool" where
  "hopHeader k \<longleftrightarrow> list_ex (equal_fold k) hopByHop"

lemma textprotoCanonical_iff: "textprotoCanonical k \<in> set hopByHop \<longleftrightarrow> hopHeader k"
proof (cases "find (equal_fold k) hopByHop")
  case None
  then have "\<not> hopHeader k" "k \<notin> set hopByHop"
    by (auto simp: find_None_iff hopHeader_def list_ex_iff dest: bspec [of _ _ k])
  with None show ?thesis by (simp add: textprotoCanonical_def)
next
  case (Some hop)
  then have "hop \<in> set hopByHop" "equal_fold k hop" by (auto simp: find_Some_iff)
  with Some show ?thesis by (auto simp: textprotoCanonical_def hopHeader_def list_ex_iff)
qed

lemma values_of_add_all: "values_of (fold (\<lambda>v dst. values_add dst k v) vv dst) k' =
    (if k' = k then values_of dst k @ vv else values_of dst k')"
  by (induction vv arbitrary: dst) (simp_all add: go_map_simps)

lemma values_of_Nil: "values_of [] k = []"
  by (simp add: values_of_def)

lemma values_of_Cons: "values_of ((k0, vv) # src) k = (if k = k0 then vv else values_of src k)"
  by (simp add: values_of_def)

definition dropped :: "multimap \<Rightarrow> string \<Rightarrow> bool" where
  "dropped src k \<longleftrightarrow> hopHeader k \<or> to_lower k \<in> set (connectedTokens src)"

lemma values_of_copy_fold:
  assumes "wf_map src" "\<And>k. k \<in> fst ` set src \<Longrightarrow> canonical_header_key k = k"
  shows "values_of (fold (\<lambda>(k, vv) dst. if drops k then dst
           else fold (\<lambda>v dst. values_add dst (canonical_header_key k) v) vv dst) src dst) k =
    values_of dst k @ (if drops k then [] else values_of src k)"
  using assms
proof (induction src arbitrary: dst)
  case (Cons e src)
  obtain k0 vv where e: "e = (k0, vv)" by (cases e)
  have *: "canonical_header_key k0 = k0" "wf_map src" "k0 \<notin> fst ` set src"
    using Cons.prems e by (auto simp: wf_map_def)
  have nil: "values_of src k0 = []" using *(3) by (auto simp: values_of_def map_of_eq_None_iff [symmetric])
  show ?case
    using Cons.IH Cons.prems(2) * e nil
    by (auto simp: values_of_add_all values_of_Cons)
qed (simp add: values_of_Nil)

text \<open>
  Headers are copied exactly but for those of the connection: of a message whose header
  names are canonical, as the HTTP library delivers them, every value of every header
  arrives in order, except that a hop-by-hop header, in whatever case it is written, and a
  header named by a token of \<^verbatim>\<open>Connection\<close> never arrives.
\<close>

theorem copyHeaders_exact:
  assumes "wf_map src" "\<forall>k \<in> fst ` set src. canonical_header_key k = k"
  shows "header_values (copyHeaders [] src) k =
    (if (\<exists>hop \<in> set hopByHop. equal_fold k hop) \<or>
        (\<exists>t \<in> set (split_on CHR '','' (header_get src ''Connection'')). trim_space t \<noteq> [] \<and> to_lower k = to_lower (trim_space t))
     then [] else header_values src k)"
proof -
  have "dropped src k \<longleftrightarrow> (\<exists>hop \<in> set hopByHop. equal_fold k hop) \<or>
        (\<exists>t \<in> set (split_on CHR '','' (header_get src ''Connection'')). trim_space t \<noteq> [] \<and> to_lower k = to_lower (trim_space t))"
    by (auto simp: dropped_def hopHeader_def list_ex_iff connectedTokens_def)
  moreover have "copyHeaders [] src = fold (\<lambda>(k, vv) dst. if dropped src k then dst
      else fold (\<lambda>v dst. values_add dst (canonical_header_key k) v) vv dst) src []"
    by (simp add: copyHeaders_def Let_def textprotoCanonical_iff dropped_def)
  ultimately show ?thesis
    using values_of_copy_fold [OF assms(1) bspec [OF assms(2)], of "dropped src" "[]" k]
    by (simp only: header_values_def values_of_Nil append_Nil)
qed

definition exUpgrade :: multimap where
  "exUpgrade = [(''Connection'', [''close, X-Trace'']), (''X-Trace'', [''1'']), (''Accept'', [''text/html'', ''*/*''])]"

theorem copyHeaders_exact_witness:
  "header_values (copyHeaders [] exUpgrade) ''X-Trace'' = [] \<and>
   header_values (copyHeaders [] exUpgrade) ''Accept'' = [''text/html'', ''*/*'']"
proof -
  have w: "wf_map exUpgrade" "\<forall>k \<in> fst ` set exUpgrade. canonical_header_key k = k" by code_simp+
  have "\<exists>t \<in> set (split_on CHR '','' (header_get exUpgrade ''Connection'')).
      trim_space t \<noteq> [] \<and> to_lower ''X-Trace'' = to_lower (trim_space t)"
    "\<not> ((\<exists>hop \<in> set hopByHop. equal_fold ''Accept'' hop) \<or>
      (\<exists>t \<in> set (split_on CHR '','' (header_get exUpgrade ''Connection'')).
        trim_space t \<noteq> [] \<and> to_lower ''Accept'' = to_lower (trim_space t)))"
    "header_values exUpgrade ''Accept'' = [''text/html'', ''*/*'']" by code_simp+
  with copyHeaders_exact [OF w, of "''X-Trace''"] copyHeaders_exact [OF w, of "''Accept''"]
  show ?thesis by (simp only: simp_thms if_True if_False)
qed

end
