(* ===== verification/Proxy.thy ===== *)
theory Proxy
  imports Proxy_Http Cache_Store Grants Boundary
begin

text \<open>
  The proxy handler (\<^verbatim>\<open>internal/proxy/proxy.go\<close>, \<^verbatim>\<open>streaming.go\<close>): a request is observed
  (identity, cache key, generations), classified, checked at the media boundary, and then
  answered by a redirect, a refusal, the playback engine, the artwork store, the response cache or the
  origin. The state shared by requests is the record \<open>pstate\<close>; the cache store and the generation
  store are interfaces, the record \<open>stores\<close> of their operations, and so are the playback engine, the
  redirect resolver, the boundary hook and the artwork store, which the handler holds as
  functions. Effects on the warmer, the identity tables and playback sessions are returned as
  events. Metrics, log lines and protocol capture are left out.
\<close>

section \<open>Handler, state and surroundings\<close>

abbreviation "RequestIDHeader \<equiv> ''X-Replx-Edge-Request-ID''"
abbreviation "CacheHeader \<equiv> ''X-Replx-Edge-Cache''"
abbreviation "PlaybackTraceHeader \<equiv> ''X-Replx-Edge-Playback-Trace-ID''"
abbreviation "MediaRouteUnavailable \<equiv> ''MEDIA_ROUTE_UNAVAILABLE''"
abbreviation "tunnelMode \<equiv> ''cloudflare_tunnel''"
abbreviation "directMode \<equiv> ''direct''"

definition header_set :: "multimap \<Rightarrow> string \<Rightarrow> string \<Rightarrow> multimap" where
  "header_set h k v = values_set h (canonical_header_key k) v"

record base_url =
  BaseScheme :: string
  BaseHost :: string
  BasePath :: string

record ('c, 'g) stores =
  cacheGet :: "gotime \<Rightarrow> string \<Rightarrow> 'c \<Rightarrow> 'c \<times> store_answer"
  cacheSet :: "gotime \<Rightarrow> string \<Rightarrow> Entry \<Rightarrow> duration \<Rightarrow> 'c \<Rightarrow> 'c \<times> bool"
  gensGet :: "'g \<Rightarrow> string \<Rightarrow> string \<Rightarrow> (u64 \<times> u64) option"
  gensBump :: "bump_op \<Rightarrow> 'g \<Rightarrow> 'g option"

record playback_hooks =
  onDecision :: "request \<Rightarrow> string \<Rightarrow> string \<Rightarrow> string \<Rightarrow> decision_outcome \<times> playback_event list"

record artwork_hooks =
  artReady :: bool
  artGet :: "string \<Rightarrow> (string \<times> string) option"
  artReserve :: "string \<Rightarrow> Priority \<Rightarrow> bool"
  artCommit :: "string \<Rightarrow> string \<Rightarrow> string \<Rightarrow> bool"

type_synonym part_policy = "request \<Rightarrow> string \<Rightarrow> string \<Rightarrow> verdict"

record Handler =
  OriginURL :: base_url
  IngressMode :: string
  HandlerSecret :: string
  CacheWired :: bool
  WarmerWired :: bool
  PlaybackHooks :: "playback_hooks option"
  ArtworkHooks :: "artwork_hooks option"
  SpikeResolve :: "(request \<Rightarrow> string option) option"
  PartPolicy :: "part_policy option"
  SpikePartPolicy :: "part_policy option"
  MediaFallback :: "base_url option"

record ('c, 'g) pstate =
  pResolver :: "Resolver option"
  pGrants :: "ResourceGrants option"
  pCache :: 'c
  pGens :: 'g
  cacheBroken :: bool
  flight :: "string list"

record origin_call =
  ocMethod :: string
  ocScheme :: string
  ocHost :: string
  ocPath :: string
  ocQuery :: string
  ocHeader :: multimap
  ocBody :: string

text \<open>An answer of the origin; \<open>oaClean\<close> tells that its body ended without an error.\<close>

record origin_answer =
  oaStatus :: int
  oaHeader :: multimap
  oaBody :: string
  oaClean :: bool

record world =
  wNow :: gotime
  wRequestID :: string
  wSha :: "string \<Rightarrow> string"
  wHmac :: "string \<Rightarrow> string \<Rightarrow> string"
  wAnswers :: answers
  wForwardedFor :: "request \<Rightarrow> string"
  wOrigin :: "origin_call \<Rightarrow> origin_answer option"

datatype proxy_event =
    IdentityWrite db_write
  | ForgetScope string
  | TrackAuthorized string request string duration string
  | SessionEvent playback_event
  | StopSession string
  | CommitArtwork string string string

datatype body = Bytes string | ErrorJson string string "string list"

record http_response =
  hrStatus :: int
  hrHeader :: multimap
  hrBody :: body

datatype http_outcome =
    Respond http_response
  | EngineAnswer playback_response
  | EventStream
  | WebSocketTunnel

section \<open>Observation\<close>

record obs =
  oFingerprint :: string
  oScope :: string
  oIdentityID :: string
  oClientUUID :: string
  oFresh :: bool
  oInvalid :: bool
  oSession :: string
  oRatingKey :: string
  oPlayback :: string
  oCacheKey :: string
  oCacheTTL :: duration
  oCacheable :: bool
  oCacheState :: string
  oScopeGen :: u64
  oGlobalGen :: u64

definition newObs :: "request \<Rightarrow> obs" where
  "newObs r = \<lparr>oFingerprint = [], oScope = [], oIdentityID = [], oClientUUID = [], oFresh = False, oInvalid = False,
     oSession = ExtractSession r, oRatingKey = ExtractRatingKey r, oPlayback = [], oCacheKey = [], oCacheTTL = 0,
     oCacheable = False, oCacheState = ''bypass'', oScopeGen = 0, oGlobalGen = 0\<rparr>"

definition forgets :: "Handler \<Rightarrow> string \<Rightarrow> proxy_event list" where
  "forgets h sc = (if WarmerWired h then [ForgetScope sc] else [])"

text \<open>The part of \<^verbatim>\<open>observe\<close> that identifies the user.\<close>

definition observeUser ::
  "world \<Rightarrow> Handler \<Rightarrow> request \<Rightarrow> ('c, 'g) pstate \<Rightarrow> ('c, 'g) pstate \<times> obs \<times> proxy_event list" where
  "observeUser w h r st =
    (let o0 = newObs r; token = ExtractToken r in
     if token = [] then (st, o0, [])
     else let fp = Fingerprint (wHmac w) (HandlerSecret h) token;
              o1 = o0\<lparr>oFingerprint := fp, oScope := ''tok:'' @ fp\<rparr>
       in case pResolver st of
            None \<Rightarrow> (st, o1, [])
          | Some v \<Rightarrow>
              let (v, res, writes) = Resolve (wAnswers w) (wNow w) fp token (FromTrace (ExtractClient r)) v;
                  sc = (if IdentityID res \<noteq> [] then UserScope (IdentityID res)
                        else if Scope res \<noteq> [] then Scope res else oScope o1);
                  o2 = o1\<lparr>oScope := sc, oIdentityID := IdentityID res, oClientUUID := ClientID res,
                          oFresh := Fresh res, oInvalid := Invalid res\<rparr>;
                  st = st\<lparr>pResolver := Some v\<rparr>;
                  evs = map IdentityWrite writes
              in if Invalid res
                 then (st\<lparr>pGrants := Revoke fp (pGrants st)\<rparr>, o2, evs @ forgets h sc)
                 else (st, o2, evs))"

definition refreshCacheGeneration :: "world \<Rightarrow> ('c, 'g) stores \<Rightarrow> request \<Rightarrow> ('c, 'g) pstate \<Rightarrow> obs \<Rightarrow> obs \<times> bool" where
  "refreshCacheGeneration w ops r st ob =
    (let cls = ClassOf (URLPath r) in
     case gensGet ops (pGens st) (oScope ob) cls of
       None \<Rightarrow> (ob\<lparr>oScopeGen := 0, oGlobalGen := 0\<rparr>, False)
     | Some (sg, gg) \<Rightarrow>
         (ob\<lparr>oScopeGen := sg, oGlobalGen := gg, oCacheKey := RequestKeyGen (wSha w) (oScope ob) cls r sg gg\<rparr>, True))"

definition currentCacheGeneration :: "('c, 'g) stores \<Rightarrow> request \<Rightarrow> ('c, 'g) pstate \<Rightarrow> obs \<Rightarrow> bool" where
  "currentCacheGeneration ops r st ob =
    (gensGet ops (pGens st) (oScope ob) (ClassOf (URLPath r)) = Some (oScopeGen ob, oGlobalGen ob))"

definition observe ::
  "world \<Rightarrow> ('c, 'g) stores \<Rightarrow> Handler \<Rightarrow> request \<Rightarrow> ('c, 'g) pstate \<Rightarrow> ('c, 'g) pstate \<times> obs \<times> proxy_event list" where
  "observe w ops h r st =
    (let (st, ob, evs) = observeUser w h r st;
         ob = (if IsPlaybackRoute (URLPath r)
               then ob\<lparr>oPlayback := PlaybackTraceID (wHmac w) (HandlerSecret h) (oFingerprint ob)
                      (Client.ID (ExtractClient r)) (oSession ob) (oRatingKey ob)\<rparr> else ob);
         ob = (if CacheWired h \<and> oFingerprint ob \<noteq> [] \<and> oScope ob \<noteq> [] \<and> \<not> oInvalid ob
               then (case RequestCacheable r of
                       None \<Rightarrow> ob
                     | Some ttl \<Rightarrow>
                         let (ob, ok) = refreshCacheGeneration w ops r st (ob\<lparr>oCacheable := True, oCacheTTL := ttl\<rparr>)
                         in if \<not> ok \<or> cacheBroken st then ob\<lparr>oCacheable := False\<rparr> else ob)
               else ob)
     in (st, ob, evs))"

definition revokeRejectedAuthorization ::
  "Handler \<Rightarrow> obs \<Rightarrow> int \<Rightarrow> ('c, 'g) pstate \<Rightarrow> ('c, 'g) pstate \<times> proxy_event list" where
  "revokeRejectedAuthorization h ob status st =
    (if status \<noteq> 401 \<and> status \<noteq> 403 then (st, [])
     else (st\<lparr>pGrants := Revoke (oFingerprint ob) (pGrants st)\<rparr>, forgets h (oScope ob)))"

section \<open>The response cache\<close>

definition edgeHeaders :: "multimap \<Rightarrow> multimap" where
  "edgeHeaders h = header_set (header_set h ''CDN-Cache-Control'' ''no-store'') ''Cloudflare-CDN-Cache-Control'' ''no-store''"

definition hitResponse :: "world \<Rightarrow> multimap \<Rightarrow> Entry \<Rightarrow> http_response" where
  "hitResponse w hdr e =
    (let hd = header_set (header_set hdr RequestIDHeader (wRequestID w)) CacheHeader ''hit'';
         hd = edgeHeaders hd;
         hd = (if ContentType e \<noteq> [] then header_set hd ''Content-Type'' (ContentType e) else hd);
         hd = fold (\<lambda>(k, v) hd. header_set hd k v) (Headers e) hd
     in \<lparr>hrStatus = int (Status e), hrHeader = hd, hrBody = Bytes (Body e)\<rparr>)"

definition serveCache ::
  "world \<Rightarrow> ('c, 'g) stores \<Rightarrow> request \<Rightarrow> multimap \<Rightarrow> obs \<Rightarrow> ('c, 'g) pstate \<Rightarrow>
    ('c, 'g) pstate \<times> obs \<times> http_response option" where
  "serveCache w ops r hdr ob st =
    (if \<not> oCacheable ob \<or> oInvalid ob then (st, ob, None)
     else let miss = ob\<lparr>oCacheState := ''miss''\<rparr> in
       if cacheBroken st then (st, miss, None)
       else let (g, ok) = Authorized (wSha w) (wNow w) (oFingerprint ob) (oCacheKey ob) (pGrants st);
                st = st\<lparr>pGrants := g\<rparr>
         in if \<not> ok then (st, miss, None)
            else let (c, ans) = cacheGet ops (wNow w) (oCacheKey ob) (pCache st);
                     st = st\<lparr>pCache := c\<rparr>
              in case ans of
                   StoreHit e \<Rightarrow>
                     if \<not> currentCacheGeneration ops r st ob then (st, miss, None)
                     else (st, ob\<lparr>oCacheState := ''hit''\<rparr>, Some (hitResponse w hdr e))
                 | _ \<Rightarrow> (st, miss, None))"

section \<open>Refusals and redirects\<close>

definition refuseJson :: "multimap \<Rightarrow> int \<Rightarrow> string \<Rightarrow> string \<Rightarrow> string list \<Rightarrow> http_response" where
  "refuseJson hdr status code message rejected =
    \<lparr>hrStatus = status, hrHeader = header_set (header_set hdr ''Content-Type'' ''application/json'') ''Cache-Control'' ''no-store'',
     hrBody = ErrorJson code message rejected\<rparr>"

definition writeSessionsDeny :: "multimap \<Rightarrow> http_response" where
  "writeSessionsDeny hdr = refuseJson hdr 403 ''SESSIONS_OWNER_ADMIN_ONLY''
     ''GET /status/sessions is owner-admin only via the private admin API (GET /api/v1/sessions); companion control across Replx Edge is unsupported in 1.0'' []"

definition writeInvalidPath :: "multimap \<Rightarrow> http_response" where
  "writeInvalidPath hdr = refuseJson hdr 400 ''INVALID_PATH'' ''request target must be an origin-relative path'' []"

definition writePartDeny :: "multimap \<Rightarrow> string \<Rightarrow> http_response" where
  "writePartDeny hdr reason = refuseJson hdr 403 (if reason = [] then DecisionRequired else reason)
     ''playback policy forbids this media request'' []"

definition writeMediaUnavailable :: "multimap \<Rightarrow> http_response" where
  "writeMediaUnavailable hdr = refuseJson hdr 403 MediaRouteUnavailable
     ''bulk media must not traverse the Cloudflare control hostname; use direct origin routing or the media gateway'' []"

definition writePolicyDeny :: "multimap \<Rightarrow> refusal \<Rightarrow> http_response" where
  "writePolicyDeny hdr d = refuseJson hdr 403 (RefusalCode d) (RefusalMessage d) []"

definition writeBadGateway :: "multimap \<Rightarrow> http_response" where
  "writeBadGateway hdr = refuseJson hdr 502 ''ORIGIN_UNAVAILABLE'' ''PMS origin unreachable; retry or inspect origin health'' []"

definition WriteMediaRedirect :: "multimap \<Rightarrow> string \<Rightarrow> http_response" where
  "WriteMediaRedirect hdr location =
    \<lparr>hrStatus = 307, hrHeader = header_set (header_set hdr ''Location'' location) ''Cache-Control'' ''no-store'',
     hrBody = Bytes []\<rparr>"

text \<open>\<^verbatim>\<open>url.URL.String\<close> of an absolute URL with a path and a query.\<close>

definition path_escape :: "string \<Rightarrow> string" where
  "path_escape p = concat (map (\<lambda>c. if unreserved c \<or> c \<in> set ''$&+,/:;=@'' then [c]
     else [CHR ''%'', hex_digit (of_char c div 16), hex_digit (of_char c mod 16)]) p)"

definition url_string :: "base_url \<Rightarrow> string \<Rightarrow> string \<Rightarrow> string" where
  "url_string b path query =
    BaseScheme b @ ''://'' @ BaseHost b @ path_escape path @ (if query = [] then [] else ''?'' @ query)"

definition writeMediaGatewayRedirect :: "multimap \<Rightarrow> base_url \<Rightarrow> request \<Rightarrow> http_response" where
  "writeMediaGatewayRedirect hdr fb r =
    WriteMediaRedirect hdr (url_string fb (singleJoin (BasePath fb) (URLPath r)) (RawQuery r))"

section \<open>The origin\<close>

text \<open>The request to the origin, shared by the proxy, the artwork and the event stream paths.\<close>

definition originCall :: "world \<Rightarrow> Handler \<Rightarrow> request \<Rightarrow> bool \<Rightarrow> bool \<Rightarrow> string \<Rightarrow> origin_call" where
  "originCall w h r dropEncoding addFwd reqBody =
    (let hd = header_set (copyHeaders [] (Header r)) RequestIDHeader (wRequestID w);
         hd = (if dropEncoding then values_del hd ''Accept-Encoding'' else hd);
         fwd = wForwardedFor w r;
         hd = (if addFwd \<and> fwd \<noteq> [] then header_set hd ''X-Forwarded-For'' fwd else hd)
     in \<lparr>ocMethod = Method r, ocScheme = BaseScheme (OriginURL h), ocHost = BaseHost (OriginURL h),
         ocPath = singleJoin (BasePath (OriginURL h)) (URLPath r), ocQuery = RawQuery r, ocHeader = hd, ocBody = reqBody\<rparr>)"

definition bumpStateGeneration :: "('c, 'g) stores \<Rightarrow> string \<Rightarrow> ('c, 'g) pstate \<Rightarrow> ('c, 'g) pstate" where
  "bumpStateGeneration ops sc st =
    (if sc = [] then st
     else (case gensBump ops (OpBumpScope sc) (pGens st) of
             Some g \<Rightarrow> st\<lparr>pGens := g\<rparr> | None \<Rightarrow> st\<lparr>cacheBroken := True\<rparr>))"

text \<open>
  What \<^verbatim>\<open>copyBody\<close> stores. The body reaches the client in every case; it is kept only when it ended
  cleanly within the size limit, the cache is not broken and the generations are still those of
  the observation.
\<close>

definition copyBody ::
  "world \<Rightarrow> ('c, 'g) stores \<Rightarrow> Handler \<Rightarrow> request \<Rightarrow> obs \<Rightarrow> origin_answer \<Rightarrow> ('c, 'g) pstate \<Rightarrow>
    ('c, 'g) pstate \<times> proxy_event list" where
  "copyBody w ops h r ob resp st =
    (if \<not> oCacheable ob \<or> oaStatus resp \<noteq> 200 \<or> \<not> StorableResponse (oaHeader resp) then (st, [])
     else if length (oaBody resp) > MaxEntryBytes then (st, [])
     else if \<not> oaClean resp then (st, [])
     else if cacheBroken st \<or> \<not> currentCacheGeneration ops r st ob then (st, [])
     else let e = \<lparr>Status = 200, ContentType = header_get (oaHeader resp) ''Content-Type'',
                   Headers = SafeHeaders (oaHeader resp), Body = oaBody resp\<rparr>;
              (c, ok) = cacheSet ops (wNow w) (oCacheKey ob) e (oCacheTTL ob) (pCache st);
              st = st\<lparr>pCache := c\<rparr>
       in if \<not> ok then (st, [])
          else (st\<lparr>pGrants := Grant (wSha w) (wNow w) (oFingerprint ob) (oCacheKey ob) (pGrants st)\<rparr>,
                if WarmerWired h \<and> HeaderVariation (wSha w) (Header r) = []
                then [TrackAuthorized (oCacheKey ob) r (oScope ob) (oCacheTTL ob) (ExtractToken r)] else []))"

text \<open>The second half of \<^verbatim>\<open>proxy\<close>, when the origin has answered.\<close>

definition finishProxy ::
  "world \<Rightarrow> ('c, 'g) stores \<Rightarrow> Handler \<Rightarrow> request \<Rightarrow> multimap \<Rightarrow> obs \<Rightarrow> bool \<Rightarrow> origin_answer \<Rightarrow> ('c, 'g) pstate \<Rightarrow>
    ('c, 'g) pstate \<times> http_response \<times> proxy_event list" where
  "finishProxy w ops h r hdr ob control resp st =
    (let (st, evs) = revokeRejectedAuthorization h ob (oaStatus resp) st;
         st = (if Method r \<noteq> ''HEAD'' \<and> Method r \<noteq> ''OPTIONS'' \<and> 200 \<le> oaStatus resp \<and> oaStatus resp < 300 \<and>
                  isStateWrite (URLPath r)
               then bumpStateGeneration ops (oScope ob) st else st)
     in if IngressMode h = tunnelMode \<and> control \<and> isBulkMediaResponse (oaHeader resp)
        then (st, writeMediaUnavailable hdr, evs)
        else let hd = header_set (copyHeaders hdr (oaHeader resp)) RequestIDHeader (wRequestID w);
                 hd = (if control then edgeHeaders (header_set hd CacheHeader (oCacheState ob)) else hd);
                 (st, evs') = copyBody w ops h r ob resp st
          in (st, \<lparr>hrStatus = oaStatus resp, hrHeader = hd, hrBody = Bytes (oaBody resp)\<rparr>, evs @ evs'))"

definition proxy ::
  "world \<Rightarrow> ('c, 'g) stores \<Rightarrow> Handler \<Rightarrow> request \<Rightarrow> multimap \<Rightarrow> obs \<Rightarrow> bool \<Rightarrow> ('c, 'g) pstate \<Rightarrow>
    ('c, 'g) pstate \<times> http_response \<times> proxy_event list" where
  "proxy w ops h r hdr ob control st =
    (case wOrigin w (originCall w h r (oCacheable ob) True (ReqBody r)) of
       None \<Rightarrow> (st, writeBadGateway hdr, [])
     | Some resp \<Rightarrow> finishProxy w ops h r hdr ob control resp st)"

section \<open>Artwork\<close>

definition artworkMaxBody :: int where
  "artworkMaxBody = 8388608"

definition serveArtwork ::
  "world \<Rightarrow> Handler \<Rightarrow> request \<Rightarrow> multimap \<Rightarrow> obs \<Rightarrow> ('c, 'g) pstate \<Rightarrow>
    ('c, 'g) pstate \<times> http_response option \<times> proxy_event list" where
  "serveArtwork w h r hdr ob st =
    (case ArtworkHooks h of
       None \<Rightarrow> (st, None, [])
     | Some art \<Rightarrow>
         if oFingerprint ob = [] \<or> oScope ob = [] \<or> \<not> artworkMatch (URLPath r) \<or> \<not> artworkReusable r \<or>
            oInvalid ob \<or> (pResolver st \<noteq> None \<and> \<not> oFresh ob) \<or> \<not> artReady art
         then (st, None, [])
         else let key = artworkCacheKey (wSha w) (oScope ob) r;
                  (g, ok) = Authorized (wSha w) (wNow w) (oFingerprint ob) key (pGrants st);
                  st = st\<lparr>pGrants := g\<rparr>
           in case (if ok then artGet art key else None) of
                Some (ct, body) \<Rightarrow>
                  (let hd = header_set (header_set hdr RequestIDHeader (wRequestID w)) CacheHeader ''hit'';
                       hd = (if ct \<noteq> [] then header_set hd ''Content-Type'' ct else hd)
                   in (st, Some \<lparr>hrStatus = 200, hrHeader = hd, hrBody = Bytes body\<rparr>, []))
              | None \<Rightarrow>
                  if \<not> artReserve art key (artworkPriority r) then (st, None, [])
                  else (case wOrigin w (originCall w h r False True []) of
                          None \<Rightarrow> (st, None, [])
                        | Some resp \<Rightarrow>
                            let (st, evs) = revokeRejectedAuthorization h ob (oaStatus resp) st in
                            if \<not> oaClean resp \<or> int (length (oaBody resp)) > artworkMaxBody then (st, None, evs)
                            else let ct = header_get (oaHeader resp) ''Content-Type'';
                                     store = oaStatus resp = 200 \<and> StorableResponse (oaHeader resp) \<and>
                                       has_prefix (to_lower ct) ''image/'';
                                     st = (if store \<and> artCommit art key ct (oaBody resp)
                                           then st\<lparr>pGrants := Grant (wSha w) (wNow w) (oFingerprint ob) key (pGrants st)\<rparr> else st);
                                     hd = header_set (header_set (copyHeaders hdr (oaHeader resp)) RequestIDHeader (wRequestID w))
                                       CacheHeader ''miss''
                              in (st, Some \<lparr>hrStatus = oaStatus resp, hrHeader = hd, hrBody = Bytes (oaBody resp)\<rparr>,
                                  evs @ (if store then [CommitArtwork key ct (oaBody resp)] else []))))"

section \<open>Stampede control\<close>

text \<open>
  The wait for a request that already refreshes the key: every 50 milliseconds, plus whatever
  the scheduler adds, the cache and the flight table are looked at again, for at most two
  seconds. \<open>others\<close> is what other requests did to the shared state in between.
\<close>

record ('c, 'g) schedule =
  others :: "gotime \<Rightarrow> ('c, 'g) pstate \<Rightarrow> ('c, 'g) pstate"
  ctxDone :: "gotime \<Rightarrow> bool"
  delay :: "gotime \<Rightarrow> nat"

definition isHit :: "store_answer \<Rightarrow> bool" where
  "isHit ans \<longleftrightarrow> (case ans of StoreHit _ \<Rightarrow> True | _ \<Rightarrow> False)"

function waitLoop ::
  "('c, 'g) stores \<Rightarrow> ('c, 'g) schedule \<Rightarrow> string \<Rightarrow> gotime \<Rightarrow> gotime \<Rightarrow> ('c, 'g) pstate \<Rightarrow> ('c, 'g) pstate \<times> bool \<times> gotime" where
  "waitLoop ops sch key deadline now st =
    (if now \<ge> deadline then (st, False, now)
     else let now' = now + 50000000 + int (delay sch now); st = others sch now' st in
       if ctxDone sch now' then (st, False, now')
       else let (c, ans) = cacheGet ops now' key (pCache st); st = st\<lparr>pCache := c\<rparr> in
         if isHit ans \<or> key \<notin> set (flight st) then (st, True, now') else waitLoop ops sch key deadline now' st)"
  by pat_completeness auto
termination
  by (relation "measure (\<lambda>(ops, sch, key, deadline, now, st). nat (deadline - now))") auto

definition waitForFlight ::
  "('c, 'g) stores \<Rightarrow> ('c, 'g) schedule \<Rightarrow> gotime \<Rightarrow> string \<Rightarrow> ('c, 'g) pstate \<Rightarrow> ('c, 'g) pstate \<times> bool \<times> gotime" where
  "waitForFlight ops sch now key st =
    (if key \<notin> set (flight st) then (st, False, now)
     else waitLoop ops sch key (now + 2 * second) now st)"

definition tryBeginFlight :: "string \<Rightarrow> ('c, 'g) pstate \<Rightarrow> ('c, 'g) pstate \<times> bool" where
  "tryBeginFlight key st =
    (if key \<in> set (flight st) then (st, False) else (st\<lparr>flight := key # flight st\<rparr>, True))"

definition endFlight :: "string \<Rightarrow> ('c, 'g) pstate \<Rightarrow> ('c, 'g) pstate" where
  "endFlight key st = st\<lparr>flight := removeAll key (flight st)\<rparr>"

section \<open>The handler\<close>

definition boundaryPolicy :: "Handler \<Rightarrow> part_policy option" where
  "boundaryPolicy h = (case PartPolicy h of Some p \<Rightarrow> Some p | None \<Rightarrow> SpikePartPolicy h)"

text \<open>The media routes of tunnel mode: a redirect where one resolves, a refusal otherwise.\<close>

definition serveTunnelMedia :: "Handler \<Rightarrow> request \<Rightarrow> multimap \<Rightarrow> http_response" where
  "serveTunnelMedia h r hdr =
    (case (case SpikeResolve h of Some resolve \<Rightarrow> resolve r | None \<Rightarrow> None) of
       Some loc \<Rightarrow> WriteMediaRedirect hdr loc
     | None \<Rightarrow>
         (case MediaFallback h of
            Some fb \<Rightarrow> writeMediaGatewayRedirect hdr fb r
          | None \<Rightarrow> writeMediaUnavailable hdr))"

text \<open>The boundary of direct mode: the request to go on with, or a refusal.\<close>

definition directBoundary :: "Handler \<Rightarrow> request \<Rightarrow> multimap \<Rightarrow> obs \<Rightarrow> http_response + request" where
  "directBoundary h r hdr ob =
    (case boundaryPolicy h of
       None \<Rightarrow> Inr r
     | Some pol \<Rightarrow>
         let partID = PartIDFromPath (URLPath r) in
         if partID \<noteq> [] \<or> IsManifest (URLPath r) then
           (case pol r partID (oSession ob) of
              (sub, True, reason) \<Rightarrow> Inl (writePartDeny hdr reason)
            | (sub, False, reason) \<Rightarrow> Inr (if sub \<noteq> [] then substitutePartRequest r sub else r))
         else Inr r)"

text \<open>The playback engine on control routes: an answer, or the events of a stop verb.\<close>

definition servePlayback :: "Handler \<Rightarrow> request \<Rightarrow> multimap \<Rightarrow> obs \<Rightarrow> http_outcome option \<times> proxy_event list" where
  "servePlayback h r hdr ob =
    (case PlaybackHooks h of
       None \<Rightarrow> (None, [])
     | Some hooks \<Rightarrow>
         let stop = (if IsSessionStop (URLPath r) then [StopSession (ExtractSession r)] else []) in
         if \<not> IsDecision (URLPath r) then (None, stop)
         else (case onDecision hooks r (oSession ob) (oIdentityID ob) (oClientUUID ob) of
                 (Refused d, evs) \<Rightarrow> (Some (Respond (writePolicyDeny hdr d)), stop @ map SessionEvent evs)
               | (Wrote resp, evs) \<Rightarrow> (Some (EngineAnswer resp), stop @ map SessionEvent evs)
               | (Transparent, evs) \<Rightarrow> (None, stop @ map SessionEvent evs)))"

text \<open>The last part of the handler: cache, stampede control, origin.\<close>

definition serveControl ::
  "world \<Rightarrow> ('c, 'g) stores \<Rightarrow> ('c, 'g) schedule \<Rightarrow> Handler \<Rightarrow> request \<Rightarrow> multimap \<Rightarrow> obs \<Rightarrow> bool \<Rightarrow> ('c, 'g) pstate \<Rightarrow>
    ('c, 'g) pstate \<times> http_response \<times> proxy_event list" where
  "serveControl w ops sch h r hdr ob control st =
    (case (if control then serveCache w ops r hdr ob st else (st, ob, None)) of
       (st, ob, Some resp) \<Rightarrow> (st, resp, [])
     | (st, ob, None) \<Rightarrow>
         if \<not> (oCacheable ob \<and> CacheWired h) then proxy w ops h r hdr ob control st
         else let (st, waited, now) = waitForFlight ops sch (wNow w) (oCacheKey ob) st;
                  w = w\<lparr>wNow := now\<rparr>
           in case (if waited then serveCache w ops r hdr ob st else (st, ob, None)) of
                (st, ob, Some resp) \<Rightarrow> (st, resp, [])
              | (st, ob, None) \<Rightarrow>
                  (let (st, won) = tryBeginFlight (oCacheKey ob) st in
                   if won then
                     (let (st, resp, evs) = proxy w ops h r hdr ob control st
                      in (endFlight (oCacheKey ob) st, resp, evs))
                   else (case serveCache w ops r hdr ob st of
                           (st, ob, Some resp) \<Rightarrow> (st, resp, [])
                         | (st, ob, None) \<Rightarrow> proxy w ops h r hdr ob control st)))"

definition serveRoutes ::
  "world \<Rightarrow> ('c, 'g) stores \<Rightarrow> ('c, 'g) schedule \<Rightarrow> Handler \<Rightarrow> request \<Rightarrow> multimap \<Rightarrow> obs \<Rightarrow> bool \<Rightarrow> ('c, 'g) pstate \<Rightarrow>
    ('c, 'g) pstate \<times> http_outcome \<times> proxy_event list" where
  "serveRoutes w ops sch h r hdr ob control st =
    (if isWebSocket r then (st, WebSocketTunnel, [])
     else if isSSE r then (st, EventStream, [])
     else case (if control then servePlayback h r hdr ob else (None, [])) of
       (Some out, evs) \<Rightarrow> (st, out, evs)
     | (None, evs) \<Rightarrow>
         (case (if control then serveArtwork w h r hdr ob st else (st, None, [])) of
            (st, Some resp, evs') \<Rightarrow> (st, Respond resp, evs @ evs')
          | (st, None, evs') \<Rightarrow>
              (let (st, resp, evs'') = serveControl w ops sch h r hdr ob control st
               in (st, Respond resp, evs @ evs' @ evs''))))"

definition ServeHTTP ::
  "world \<Rightarrow> ('c, 'g) stores \<Rightarrow> ('c, 'g) schedule \<Rightarrow> Handler \<Rightarrow> request \<Rightarrow> ('c, 'g) pstate \<Rightarrow>
    ('c, 'g) pstate \<times> http_outcome \<times> proxy_event list" where
  "ServeHTTP w ops sch h r st =
    (let hdr = header_set [] RequestIDHeader (wRequestID w);
         (st, ob, evs) = observe w ops h r st;
         hdr = (if oPlayback ob \<noteq> [] then header_set hdr PlaybackTraceHeader (oPlayback ob) else hdr)
     in if URLHost r \<noteq> [] \<or> has_prefix (URLPath r) ''//'' then (st, Respond (writeInvalidPath hdr), evs)
        else let action = Classify (URLPath r); control = action \<noteq> ActionMediaRedirect in
          if action = ActionDenySessions then (st, Respond (writeSessionsDeny hdr), evs)
          else if action = ActionDenyUnknownMedia \<and> IngressMode h = tunnelMode
            then (st, Respond (writeMediaUnavailable hdr), evs)
          else if action = ActionMediaRedirect \<and> IngressMode h = tunnelMode
            then (st, Respond (serveTunnelMedia h r hdr), evs)
          else (case (if action = ActionMediaRedirect \<and> IngressMode h = directMode
                      then directBoundary h r hdr ob else Inr r) of
                  Inl resp \<Rightarrow> (st, Respond resp, evs)
                | Inr r \<Rightarrow>
                    (let (st, out, evs') = serveRoutes w ops sch h r hdr ob control st in (st, out, evs @ evs'))))"

section \<open>Invalidation\<close>

text \<open>\<^verbatim>\<open>InvalidateCacheContext\<close>; the flag tells whether it succeeded.\<close>

definition InvalidateCacheContext ::
  "('c, 'g) stores \<Rightarrow> string \<Rightarrow> string \<Rightarrow> ('c, 'g) pstate \<Rightarrow> ('c, 'g) pstate \<times> bool" where
  "InvalidateCacheContext ops sc cls st =
    (let broken = (st\<lparr>cacheBroken := True\<rparr>, False) in
     if (sc = ''all'' \<or> sc = []) \<and> cls \<noteq> [] then
       (case gensBump ops (OpBumpServerClass cls) (pGens st) of
          None \<Rightarrow> broken | Some g \<Rightarrow> (st\<lparr>pGens := g\<rparr>, True))
     else if sc = [] \<or> sc = ''all'' then
       (case gensBump ops OpBumpAll (pGens st) of
          None \<Rightarrow> broken | Some g \<Rightarrow> (st\<lparr>pGens := g, cacheBroken := False\<rparr>, True))
     else if cls = [] then
       (case gensBump ops (OpBumpScope sc) (pGens st) of
          None \<Rightarrow> broken | Some g \<Rightarrow> (st\<lparr>pGens := g\<rparr>, True))
     else
       (case gensBump ops (OpBump sc cls) (pGens st) of
          None \<Rightarrow> broken | Some g \<Rightarrow> (st\<lparr>pGens := g\<rparr>, True)))"

section \<open>The in-memory store behind the interface\<close>

definition memoryGetOp :: "gotime \<Rightarrow> string \<Rightarrow> Memory \<Rightarrow> Memory \<times> store_answer" where
  "memoryGetOp now k m =
    (case MemoryGet now k m of (m, Some e) \<Rightarrow> (m, StoreHit e) | (m, None) \<Rightarrow> (m, StoreMiss))"

definition memorySetOp :: "gotime \<Rightarrow> string \<Rightarrow> Entry \<Rightarrow> duration \<Rightarrow> Memory \<Rightarrow> Memory \<times> bool" where
  "memorySetOp now k e ttl m = (case MemorySet now k e ttl m of Some m' \<Rightarrow> (m', True) | None \<Rightarrow> (m, False))"

end
