(* ===== verification/Proxy_Safety.thy ===== *)
theory Proxy_Safety
  imports Proxy
begin

text \<open>
  What the proxy guarantees of its response cache: which responses come out of it, and that
  acknowledged watch writes retire earlier reads, even when an invalidation fails.
\<close>

section \<open>Cache hits\<close>

lemma serveCache_hit:
  assumes "serveCache w ops r hdr ob st = (st', ob', Some resp)"
  obtains e where "resp = hitResponse w hdr e" "oCacheable ob" "\<not> oInvalid ob" "\<not> cacheBroken st"
    "snd (Authorized (wSha w) (wNow w) (oFingerprint ob) (oCacheKey ob) (pGrants st))"
    "snd (cacheGet ops (wNow w) (oCacheKey ob) (pCache st)) = StoreHit e"
    "currentCacheGeneration ops r st ob"
proof -
  obtain g ok where a: "Authorized (wSha w) (wNow w) (oFingerprint ob) (oCacheKey ob) (pGrants st) = (g, ok)"
    by fastforce
  obtain c ans where b: "cacheGet ops (wNow w) (oCacheKey ob) (pCache st) = (c, ans)" by fastforce
  have gens: "currentCacheGeneration ops r (st\<lparr>pGrants := g, pCache := c\<rparr>) ob = currentCacheGeneration ops r st ob"
    by (simp add: currentCacheGeneration_def)
  have s: "oCacheable ob" "\<not> oInvalid ob" "\<not> cacheBroken st" ok
    using assms by (auto simp: serveCache_def a Let_def split: if_splits)
  with assms obtain e where "ans = StoreHit e" "currentCacheGeneration ops r st ob" "resp = hitResponse w hdr e"
    by (auto simp: serveCache_def a b Let_def gens split: if_splits store_answer.splits)
  with s a b show thesis by (intro that [of e]) auto
qed

text \<open>
  C26. A cache hit is earned. A response leaves the cache only for a cacheable request of a credential
  that is not rejected, while the cache is not broken; the same credential completed an origin
  request for the very resource less than thirty seconds before and was not revoked
  since; and the generations under which the key was computed are still in force. The hit carries
  the stored status and body.
\<close>

theorem serveCache_earned:
  assumes "serveCache w ops r hdr ob st = (st', ob', Some resp)"
    and "pGrants st = replay (Grant (wSha w)) (Authorized (wSha w)) Revoke evs (Some NewResourceGrants)"
  shows "oCacheable ob \<and> \<not> oInvalid ob \<and> \<not> cacheBroken st \<and>
    backed (\<lambda>k k'. wSha w k = wSha w k') evs (oFingerprint ob) (oCacheKey ob) (wNow w) \<and>
    gensGet ops (pGens st) (oScope ob) (ClassOf (URLPath r)) = Some (oScopeGen ob, oGlobalGen ob) \<and>
    (\<exists>e. snd (cacheGet ops (wNow w) (oCacheKey ob) (pCache st)) = StoreHit e \<and>
       hrStatus resp = int (Status e) \<and> hrBody resp = Bytes (Body e))"
proof -
  from assms(1) obtain e where e: "resp = hitResponse w hdr e" "oCacheable ob" "\<not> oInvalid ob" "\<not> cacheBroken st"
    "snd (Authorized (wSha w) (wNow w) (oFingerprint ob) (oCacheKey ob) (pGrants st))"
    "snd (cacheGet ops (wNow w) (oCacheKey ob) (pCache st)) = StoreHit e"
    "currentCacheGeneration ops r st ob" by (rule serveCache_hit)
  have "backed (\<lambda>k k'. wSha w k = wSha w k') evs (oFingerprint ob) (oCacheKey ob) (wNow w)"
    using grants.authorized_backed [of "Some NewResourceGrants" "wSha w", OF _ _ e(5) [unfolded assms(2)]]
    by (simp add: grants_inv_def NewResourceGrants_def leaseOf_def)
  with e show ?thesis by (simp add: currentCacheGeneration_def hitResponse_def Let_def)
qed

section \<open>Invalidation\<close>

lemma evolves_append:
  "evolves headroom bump env bs s s' \<Longrightarrow> evolves headroom bump env bs' s' s'' \<Longrightarrow>
    evolves headroom bump env (bs @ bs') s s''"
  by (induction rule: evolves.induct) (auto intro: evolves.intros)

lemma observeUser_state:
  assumes "observeUser w h r st = (st', ob, evs)"
  shows "pGens st' = pGens st" "cacheBroken st' = cacheBroken st" "pCache st' = pCache st" "flight st' = flight st"
    "oCacheable ob = False"
  using assms by (auto simp: observeUser_def newObs_def Let_def split: if_splits option.splits prod.splits)

lemma observe_cases:
  assumes "observe w ops h r st = (st', ob, evs)"
  obtains (bypass) "\<not> oCacheable ob" "pGens st' = pGens st" "cacheBroken st' = cacheBroken st"
  | (cacheable) "oCacheable ob" "\<not> cacheBroken st" "pGens st' = pGens st" "cacheBroken st' = cacheBroken st"
      "oScope ob \<noteq> []"
      "gensGet ops (pGens st) (oScope ob) (ClassOf (URLPath r)) = Some (oScopeGen ob, oGlobalGen ob)"
      "oCacheKey ob = RequestKeyGen (wSha w) (oScope ob) (ClassOf (URLPath r)) r (oScopeGen ob) (oGlobalGen ob)"
proof -
  obtain st1 ob1 evs1 where u: "observeUser w h r st = (st1, ob1, evs1)" by (cases "observeUser w h r st")
  note keep = observeUser_state [OF u]
  define ob2 where "ob2 = (if IsPlaybackRoute (URLPath r)
    then ob1\<lparr>oPlayback := PlaybackTraceID (wHmac w) (HandlerSecret h) (oFingerprint ob1)
                      (Client.ID (ExtractClient r)) (oSession ob1) (oRatingKey ob1)\<rparr> else ob1)"
  have ob2: "oCacheable ob2 = False" "oScope ob2 = oScope ob1" using keep(5) by (simp_all add: ob2_def)
  have st': "st' = st1" using assms u by (auto simp: observe_def Let_def split: if_splits option.splits prod.splits)
  show thesis
  proof (cases "oCacheable ob")
    case False
    then show thesis using keep st' by (intro bypass) simp_all
  next
    case True
    then obtain ttl where "oScope ob2 \<noteq> []" and
      o: "(let (ob, ok) = refreshCacheGeneration w ops r st1 (ob2\<lparr>oCacheable := True, oCacheTTL := ttl\<rparr>)
          in if \<not> ok \<or> cacheBroken st1 then ob\<lparr>oCacheable := False\<rparr> else ob) = ob"
      using assms u ob2(1) by (auto simp: observe_def Let_def ob2_def split: if_splits option.splits)
    with True ob2 keep st' show thesis
      by (intro cacheable) (auto simp: refreshCacheGeneration_def Let_def split: option.splits if_splits prod.splits)
  qed
qed

lemma copyBody_state:
  assumes "copyBody w ops h r ob resp st = (st', evs)"
  shows "pGens st' = pGens st" "cacheBroken st' = cacheBroken st"
  using assms by (auto simp: copyBody_def Let_def split: if_splits prod.splits)

lemma revoke_state:
  assumes "revokeRejectedAuthorization h ob status st = (st', evs)"
  shows "pGens st' = pGens st" "cacheBroken st' = cacheBroken st" "pCache st' = pCache st"
  using assms by (auto simp: revokeRejectedAuthorization_def split: if_splits)

text \<open>A watch write as the proxy sees it: acknowledged by the origin.\<close>

definition acknowledged :: "request \<Rightarrow> origin_answer \<Rightarrow> bool" where
  "acknowledged r resp \<longleftrightarrow> isStateWrite (URLPath r) \<and> Method r \<notin> {''HEAD'', ''OPTIONS''} \<and>
     200 \<le> oaStatus resp \<and> oaStatus resp < 300"

lemma finishProxy_write:
  assumes "finishProxy w ops h r hdr ob control resp st = (st', out, evs)" "acknowledged r resp" "oScope ob \<noteq> []"
  shows "cacheBroken st' \<or> gensBump ops (OpBumpScope (oScope ob)) (pGens st) = Some (pGens st')"
proof -
  obtain st1 e1 where r1: "revokeRejectedAuthorization h ob (oaStatus resp) st = (st1, e1)" by fastforce
  let ?st2 = "bumpStateGeneration ops (oScope ob) st1"
  obtain st3 e3 where c: "copyBody w ops h r ob resp ?st2 = (st3, e3)" by fastforce
  have "st' = ?st2 \<or> st' = st3"
    using assms(1,2) r1 c by (auto simp: finishProxy_def acknowledged_def Let_def split: if_splits)
  then have "pGens st' = pGens ?st2" "cacheBroken st' = cacheBroken ?st2" using copyBody_state [OF c] by auto
  moreover have "cacheBroken ?st2 \<or> gensBump ops (OpBumpScope (oScope ob)) (pGens st1) = Some (pGens ?st2)"
    using assms(3) by (auto simp: bumpStateGeneration_def split: option.splits)
  ultimately show ?thesis using revoke_state [OF r1] by simp
qed

text \<open>
  How the generations and the broken flag move while requests are served: the second halves of
  proxied requests, invalidations by the operator or the sync jobs, steps of the database
  (\<open>env\<close>), and any other step of a handler, which leaves both alone.
\<close>

inductive proxy_run ::
  "('c, 'g) stores \<Rightarrow> ('g \<Rightarrow> bool) \<Rightarrow> ('g \<Rightarrow> 'g \<Rightarrow> bool) \<Rightarrow> ('c, 'g) pstate \<Rightarrow> ('c, 'g) pstate \<Rightarrow> bool"
  for ops headroom env where
  run_done: "proxy_run ops headroom env st st"
| run_other: "pGens st' = pGens st \<Longrightarrow> cacheBroken st' = cacheBroken st \<Longrightarrow>
    proxy_run ops headroom env st' st'' \<Longrightarrow> proxy_run ops headroom env st st''"
| run_env: "env (pGens st) (pGens st') \<Longrightarrow> cacheBroken st' = cacheBroken st \<Longrightarrow>
    proxy_run ops headroom env st' st'' \<Longrightarrow> proxy_run ops headroom env st st''"
| run_finish: "headroom (pGens st) \<Longrightarrow> finishProxy w ops h r hdr ob control resp st = (st', out, evs) \<Longrightarrow>
    proxy_run ops headroom env st' st'' \<Longrightarrow> proxy_run ops headroom env st st''"
| run_invalidate: "headroom (pGens st) \<Longrightarrow> InvalidateCacheContext ops sc cls st = (st', ok) \<Longrightarrow>
    proxy_run ops headroom env st' st'' \<Longrightarrow> proxy_run ops headroom env st st''"

text \<open>The moves of both components.\<close>

definition gens_move :: "('c, 'g) stores \<Rightarrow> ('c, 'g) pstate \<Rightarrow> ('c, 'g) pstate \<Rightarrow> bump_op option \<Rightarrow> bool" where
  "gens_move ops st st' b \<longleftrightarrow>
    (case b of None \<Rightarrow> pGens st' = pGens st \<and> (cacheBroken st \<longrightarrow> cacheBroken st')
     | Some op \<Rightarrow> gensBump ops op (pGens st) = Some (pGens st') \<and>
         (cacheBroken st \<longrightarrow> cacheBroken st' \<or> op = OpBumpAll))"

lemma gens_move_cong:
  "pGens s1 = pGens s2 \<Longrightarrow> cacheBroken s1 = cacheBroken s2 \<Longrightarrow> pGens t1 = pGens t2 \<Longrightarrow> cacheBroken t1 = cacheBroken t2 \<Longrightarrow>
    gens_move ops s1 t1 b = gens_move ops s2 t2 b"
  by (simp only: gens_move_def)

lemma bumpStateGeneration_move: "\<exists>b. gens_move ops st (bumpStateGeneration ops sc st) b"
proof (cases "sc \<noteq> [] \<and> gensBump ops (OpBumpScope sc) (pGens st) \<noteq> None")
  case True
  then show ?thesis
    by (intro exI [of _ "Some (OpBumpScope sc)"]) (auto simp: gens_move_def bumpStateGeneration_def)
next
  case False
  then show ?thesis
    by (intro exI [of _ None]) (auto simp: gens_move_def bumpStateGeneration_def)
qed

lemma finishProxy_move:
  assumes "finishProxy w ops h r hdr ob control resp st = (st', out, evs)"
  shows "\<exists>b. gens_move ops st st' b"
proof -
  obtain st1 e1 where r1: "revokeRejectedAuthorization h ob (oaStatus resp) st = (st1, e1)" by fastforce
  define st2 where "st2 = (if Method r \<noteq> ''HEAD'' \<and> Method r \<noteq> ''OPTIONS'' \<and> 200 \<le> oaStatus resp \<and>
      oaStatus resp < 300 \<and> isStateWrite (URLPath r) then bumpStateGeneration ops (oScope ob) st1 else st1)"
  obtain st3 e3 where c: "copyBody w ops h r ob resp st2 = (st3, e3)" by fastforce
  have "st' = st2 \<or> st' = st3"
    using assms r1 c unfolding finishProxy_def st2_def by (auto simp: Let_def split: if_splits)
  then have same: "pGens st' = pGens st2" "cacheBroken st' = cacheBroken st2" using copyBody_state [OF c] by auto
  obtain b where "gens_move ops st1 st2 b"
  proof (cases "st2 = st1")
    case True
    then show ?thesis by (intro that [of None]) (simp add: gens_move_def)
  next
    case False
    then have "st2 = bumpStateGeneration ops (oScope ob) st1" by (simp add: st2_def split: if_splits)
    then show ?thesis using bumpStateGeneration_move that by blast
  qed
  moreover have "gens_move ops st st' b = gens_move ops st1 st2 b"
    by (rule gens_move_cong) (use same revoke_state(1,2) [OF r1] in simp_all)
  ultimately show ?thesis by blast
qed

lemma InvalidateCacheContext_move:
  assumes "InvalidateCacheContext ops sc cls st = (st', ok)"
  shows "\<exists>b. gens_move ops st st' b"
proof -
  have "gens_move ops st st' None \<or> (\<exists>op. gens_move ops st st' (Some op))"
    using assms by (auto simp: InvalidateCacheContext_def gens_move_def Let_def split: if_splits option.splits)
  then show ?thesis by blast
qed

lemma proxy_run_evolves:
  assumes "proxy_run ops headroom env st st'"
  shows "\<exists>bs. evolves headroom (gensBump ops) env bs (pGens st) (pGens st') \<and>
    (cacheBroken st \<longrightarrow> cacheBroken st' \<or> OpBumpAll \<in> set bs)"
  using assms
proof (induction rule: proxy_run.induct)
  case (run_done st)
  then show ?case by (blast intro: evolves_refl)
next
  case (run_other st' st st'')
  then show ?case by auto
next
  case (run_env st st' st'')
  then show ?case by (metis evolves_env)
next
  case (run_finish st w h r hdr ob control resp st' out evs st'')
  then obtain b where "gens_move ops st st' b" using finishProxy_move by blast
  with run_finish show ?case
    by (cases b) (auto simp: gens_move_def intro: evolves_bump)
next
  case (run_invalidate st sc cls st' ok st'')
  then obtain b where "gens_move ops st st' b" using InvalidateCacheContext_move by blast
  with run_invalidate show ?case
    by (cases b) (auto simp: gens_move_def intro: evolves_bump)
qed

lemma finishProxy_evolves:
  assumes "finishProxy w ops h r hdr ob control resp st = (st', out, evs)" "acknowledged r resp" "oScope ob \<noteq> []"
    and "headroom (pGens st)"
  obtains bs where "evolves headroom (gensBump ops) env bs (pGens st) (pGens st')"
    "cacheBroken st' \<or> OpBumpScope (oScope ob) \<in> set bs"
proof (cases "cacheBroken st'")
  case True
  obtain b where "gens_move ops st st' b" using finishProxy_move [OF assms(1)] by blast
  then show thesis
    using True assms(4) that [of "case b of None \<Rightarrow> [] | Some op \<Rightarrow> [op]"]
    by (cases b) (auto simp: gens_move_def intro: evolves_refl evolves_bump)
next
  case False
  then have "gensBump ops (OpBumpScope (oScope ob)) (pGens st) = Some (pGens st')"
    using finishProxy_write [OF assms(1-3)] by simp
  then show thesis
    using assms(4) that [of "[OpBumpScope (oScope ob)]"] by (auto intro: evolves_refl evolves_bump)
qed


section \<open>A concrete handler\<close>

definition exHandler :: Handler where
  "exHandler = \<lparr>OriginURL = \<lparr>BaseScheme = ''https'', BaseHost = ''pms:32400'', BasePath = []\<rparr>, IngressMode = tunnelMode,
     HandlerSecret = ''k'', CacheWired = True, WarmerWired = False, PlaybackHooks = None, ArtworkHooks = None,
     SpikeResolve = None, PartPolicy = None, SpikePartPolicy = None, MediaFallback = None\<rparr>"

definition exOps :: "(Memory, PostgresGenerations) stores" where
  "exOps = \<lparr>cacheGet = memoryGetOp, cacheSet = memorySetOp, gensGet = PgGet exSha, gensBump = pgBumpOp exSha\<rparr>"

definition exSchedule :: "(Memory, PostgresGenerations) schedule" where
  "exSchedule = \<lparr>others = (\<lambda>_ st. st), ctxDone = (\<lambda>_. False), delay = (\<lambda>_. 0)\<rparr>"

definition exOrigin :: "origin_call \<Rightarrow> origin_answer option" where
  "exOrigin c = Some \<lparr>oaStatus = 200, oaHeader = [(''Content-Type'', [''video/mp4''])], oaBody = ''x'', oaClean = True\<rparr>"

definition exWorldAt :: "gotime \<Rightarrow> world" where
  "exWorldAt t = \<lparr>wNow = t, wRequestID = ''id'', wSha = exSha, wHmac = (\<lambda>_ m. m), wAnswers = demoEnv,
     wForwardedFor = (\<lambda>_. []), wOrigin = exOrigin\<rparr>"

definition exState :: "(Memory, PostgresGenerations) pstate" where
  "exState = \<lparr>pResolver = None, pGrants = Some NewResourceGrants, pCache = NewMemory, pGens = exPg,
     cacheBroken = False, flight = []\<rparr>"

definition exBrowse :: "string \<Rightarrow> request" where
  "exBrowse path = \<lparr>Method = ''GET'', URLHost = [], URLPath = path, RawQuery = [],
     Header = [(''X-Plex-Token'', [''tok''])], ContentLength = 0, RemoteAddr = [], ReqBody = []\<rparr>"

definition exObs :: obs where
  "exObs = (newObs (exBrowse ''/library/metadata/7''))\<lparr>oFingerprint := ''fp'', oScope := ''user:a1'', oCacheKey := ''key'',
     oCacheTTL := 60, oCacheable := True\<rparr>"

definition exGranted :: "(Memory, PostgresGenerations) pstate" where
  "exGranted = exState\<lparr>pGrants := replay (Grant exSha) (Authorized exSha) Revoke [EvGrant 0 ''fp'' ''key''] (Some NewResourceGrants),
     pCache := [(''key'', \<lparr>entry = exEntry, exp = 60\<rparr>)]\<rparr>"

theorem serveCache_earned_witness:
  "\<exists>resp. snd (snd (serveCache (exWorldAt 5) exOps (exBrowse ''/library/metadata/7'') [] exObs exGranted)) = Some resp \<and>
     hrBody resp = Bytes (Body exEntry) \<and>
     backed (\<lambda>k k'. exSha k = exSha k') [EvGrant 0 ''fp'' ''key''] ''fp'' ''key'' 5"
proof -
  let ?out = "serveCache (exWorldAt 5) exOps (exBrowse ''/library/metadata/7'') [] exObs exGranted"
  have "(case snd (snd ?out) of Some resp \<Rightarrow> hrBody resp = Bytes (Body exEntry) | None \<Rightarrow> False)" by code_simp
  then obtain resp where o: "?out = (fst ?out, fst (snd ?out), Some resp)" "hrBody resp = Bytes (Body exEntry)"
    by (cases ?out) (auto split: option.splits)
  have g: "pGrants exGranted = replay (Grant (wSha (exWorldAt 5))) (Authorized (wSha (exWorldAt 5))) Revoke
      [EvGrant 0 ''fp'' ''key''] (Some NewResourceGrants)"
    by (simp add: exGranted_def exWorldAt_def)
  have f: "oFingerprint exObs = ''fp''" "oCacheKey exObs = ''key''" "wSha (exWorldAt 5) = exSha" "wNow (exWorldAt 5) = 5"
    by (simp_all add: exObs_def exWorldAt_def)
  from serveCache_earned [OF o(1) g] have
    "backed (\<lambda>k k'. exSha k = exSha k') [EvGrant 0 ''fp'' ''key''] ''fp'' ''key'' 5" unfolding f by blast
  with o show ?thesis by (metis snd_conv)
qed

text \<open>The scrobble of a user between two reads of the same title.\<close>

abbreviation "exUser1 \<equiv> ''tok:746f6b''"

definition exRead :: request where
  "exRead = exBrowse ''/library/metadata/7''"

definition exWrite :: request where
  "exWrite = exBrowse ''/:/scrobble''"

definition exAck :: origin_answer where
  "exAck = \<lparr>oaStatus = 200, oaHeader = [], oaBody = [], oaClean = True\<rparr>"

definition exBumped :: PostgresGenerations where
  "exBumped = exPg\<lparr>rows := [(''default'', generationScopeHash exSha exUser1, []) \<mapsto> 1]\<rparr>"

lemma wSha_exWorldAt: "wSha (exWorldAt t) = exSha"
  by (simp add: exWorldAt_def)

lemma exRead_facts:
  "ExtractToken exRead = ''tok''" "Fingerprint (\<lambda>_ m. m) ''k'' ''tok'' = ''746f6b''"
  "IsPlaybackRoute (URLPath exRead) = False" "RequestCacheable exRead = Some (5 * minute)"
  "ClassOf (URLPath exRead) = ''metadata''"
  by code_simp+

lemma exRead_observed:
  assumes "pResolver st = None" "\<not> cacheBroken st" "PgGet exSha (pGens st) exUser1 ''metadata'' = Some (a, b)"
  shows "oCacheable (fst (snd (observe (exWorldAt t) exOps exHandler exRead st)))"
    "oScope (fst (snd (observe (exWorldAt t) exOps exHandler exRead st))) = exUser1"
    "fst (observe (exWorldAt t) exOps exHandler exRead st) = st"
  using assms
  by (simp_all add: observe_def observeUser_def refreshCacheGeneration_def exRead_facts newObs_def exWorldAt_def
      exOps_def exHandler_def Let_def)

lemma exBump: "pgBumpOp exSha (OpBumpScope exUser1) exPg = Some exBumped"
proof -
  have "scopeClassCheck (generationScopeHash exSha exUser1) []" by code_simp
  then show ?thesis
    by (simp add: pgBumpOp_def PgBumpScope_def pgBump_def exPg_def exBumped_def NewPostgresGenerations_def Let_def)
qed

lemma exWrite_facts: "isStateWrite (URLPath exWrite)" "acknowledged exWrite exAck" "\<not> isBulkMediaResponse (oaHeader exAck)"
  by code_simp+

lemma exWrite_finished:
  "fst (finishProxy (exWorldAt 1) exOps exHandler exWrite [] ((newObs exWrite)\<lparr>oScope := exUser1\<rparr>) True exAck exState) =
    exState\<lparr>pGens := exBumped\<rparr>"
proof -
  have m: "Method exWrite = ''GET''" "oaStatus exAck = 200" by (simp_all add: exWrite_def exBrowse_def exAck_def)
  have "bumpStateGeneration exOps exUser1 exState = exState\<lparr>pGens := exBumped\<rparr>"
    using exBump by (simp add: bumpStateGeneration_def exOps_def exState_def)
  then show ?thesis
    using exWrite_facts m by (simp add: finishProxy_def revokeRejectedAuthorization_def copyBody_def newObs_def Let_def)
qed


end
