(* ===== verification/Proxy_Tunnel.thy ===== *)
theory Proxy_Tunnel
  imports Proxy_Safety
begin

text \<open>
  In tunnel mode no bulk media leaves through the proxy: the contract of a response store, the
  invariant that it holds browse responses only, and its preservation by every part of the
  handler; and the bound on waiting for another request.
\<close>

section \<open>Response stores\<close>

text \<open>
  The contract of a response store: a read invents nothing, and a write adds at most the entry it
  was given.
\<close>

locale response_store =
  fixes cget :: "gotime \<Rightarrow> string \<Rightarrow> 'c \<Rightarrow> 'c \<times> store_answer"
    and cset :: "gotime \<Rightarrow> string \<Rightarrow> Entry \<Rightarrow> duration \<Rightarrow> 'c \<Rightarrow> 'c \<times> bool"
  assumes get_keeps: "snd (cget now' k' (fst (cget now k c))) = StoreHit e \<Longrightarrow> snd (cget now' k' c) = StoreHit e"
    and set_adds: "snd (cget now' k' (fst (cset now k e ttl c))) = StoreHit e' \<Longrightarrow> e' = e \<or> snd (cget now' k' c) = StoreHit e'"
begin

definition holds_only :: "(Entry \<Rightarrow> bool) \<Rightarrow> 'c \<Rightarrow> bool" where
  "holds_only P c \<longleftrightarrow> (\<forall>now k e. snd (cget now k c) = StoreHit e \<longrightarrow> P e)"

lemma holds_only_get: "holds_only P c \<Longrightarrow> holds_only P (fst (cget now k c))"
  unfolding holds_only_def using get_keeps by blast

lemma holds_only_set: "holds_only P c \<Longrightarrow> P e \<Longrightarrow> holds_only P (fst (cset now k e ttl c))"
  unfolding holds_only_def using set_adds by blast

end

interpretation memory_responses: response_store memoryGetOp memorySetOp
proof
  show "snd (memoryGetOp now' k' (fst (memoryGetOp now k c))) = StoreHit e \<Longrightarrow> snd (memoryGetOp now' k' c) = StoreHit e"
    for now' k' now k c e
    by (auto simp: memoryGetOp_def MemoryGet_def map_of_delete split: option.splits if_splits)
  show "snd (memoryGetOp now' k' (fst (memorySetOp now k e ttl c))) = StoreHit e' \<Longrightarrow>
      e' = e \<or> snd (memoryGetOp now' k' c) = StoreHit e'" for now' k' now k e ttl c e'
    by (auto simp: memoryGetOp_def memorySetOp_def MemoryGet_def MemorySet_def map_of_update split: option.splits if_splits)
qed

definition mediaType :: "string \<Rightarrow> bool" where
  "mediaType ct \<longleftrightarrow> isBulkMediaResponse [(''Content-Type'', [ct])]"

definition browseEntry :: "Entry \<Rightarrow> bool" where
  "browseEntry e \<longleftrightarrow> \<not> mediaType (ContentType e) \<and> ''Content-Type'' \<notin> canonical_header_key ` fst ` set (Headers e)"

definition carriesMedia :: "http_response \<Rightarrow> bool" where
  "carriesMedia resp \<longleftrightarrow> isBulkMediaResponse (hrHeader resp) \<and> (\<exists>b. hrBody resp = Bytes b \<and> b \<noteq> [])"

definition plainHeader :: "multimap \<Rightarrow> bool" where
  "plainHeader hdr \<longleftrightarrow> values_of hdr ''Content-Type'' = []"

definition canonicalAnswer :: "origin_answer \<Rightarrow> bool" where
  "canonicalAnswer a \<longleftrightarrow> wf_map (oaHeader a) \<and> (\<forall>k \<in> fst ` set (oaHeader a). canonical_header_key k = k)"

lemma isBulk_mediaType: "isBulkMediaResponse h = mediaType (header_get h ''Content-Type'')"
  by (simp add: mediaType_def isBulkMediaResponse_def header_get_def values_get_def)

lemma mediaType_Nil [simp]: "\<not> mediaType []"
  by code_simp

lemma canonical_own_headers:
  "''Content-Type'' \<noteq> canonical_header_key RequestIDHeader" "''Content-Type'' \<noteq> canonical_header_key CacheHeader"
  "''Content-Type'' \<noteq> canonical_header_key PlaybackTraceHeader"
  "''Content-Type'' \<noteq> canonical_header_key ''CDN-Cache-Control''"
  "''Content-Type'' \<noteq> canonical_header_key ''Cloudflare-CDN-Cache-Control''"
  "canonical_header_key ''Content-Type'' = ''Content-Type''"
  by code_simp+

lemma header_get_set: "header_get (header_set h k v) k' = (if k' = canonical_header_key k then v else header_get h k')"
  by (simp add: header_get_def header_set_def go_map_simps)

lemma header_get_plain: "plainHeader hdr \<Longrightarrow> header_get hdr ''Content-Type'' = []"
  by (simp add: plainHeader_def header_get_def values_get_of)

lemma header_get_fold:
  "k' \<notin> canonical_header_key ` fst ` set kvs \<Longrightarrow> header_get (fold (\<lambda>(k, v) hd. header_set hd k v) kvs h) k' = header_get h k'"
  by (induction kvs arbitrary: h) (auto simp: header_get_set)

lemma hitResponse_media:
  assumes "browseEntry e" "plainHeader hdr"
  shows "\<not> carriesMedia (hitResponse w hdr e)"
proof -
  have "header_get (hrHeader (hitResponse w hdr e)) ''Content-Type'' \<in> {[], ContentType e}"
    using assms unfolding hitResponse_def Let_def browseEntry_def edgeHeaders_def
    by (simp add: header_get_fold header_get_set header_get_plain canonical_own_headers)
  then show ?thesis using assms(1) by (auto simp: carriesMedia_def isBulk_mediaType browseEntry_def)
qed

lemma values_of_header_set: "values_of (header_set h k v) k' = (if k' = canonical_header_key k then [v] else values_of h k')"
  by (simp add: header_set_def go_map_simps)

lemma copyHeaders_values:
  assumes "wf_map src" "\<forall>k \<in> fst ` set src. canonical_header_key k = k"
  shows "values_of (copyHeaders dst src) k \<in> {values_of dst k, values_of dst k @ values_of src k}"
proof -
  have "copyHeaders dst src = fold (\<lambda>(k, vv) dst. if dropped src k then dst
      else fold (\<lambda>v dst. values_add dst (canonical_header_key k) v) vv dst) src dst"
    by (simp add: copyHeaders_def Let_def textprotoCanonical_iff dropped_def)
  then show ?thesis
    using values_of_copy_fold [OF assms(1) bspec [OF assms(2)], of "dropped src" dst k] by simp
qed

lemma copied_content_type:
  assumes "plainHeader hdr" "canonicalAnswer a"
  shows "header_get (copyHeaders hdr (oaHeader a)) ''Content-Type'' \<in> {[], header_get (oaHeader a) ''Content-Type''}"
  using copyHeaders_values [of "oaHeader a" hdr "''Content-Type''"] assms
  by (auto simp: canonicalAnswer_def plainHeader_def header_get_def values_get_of)

lemma SafeHeaders_keys: "fst ` set (SafeHeaders h) \<subseteq> set safeHeaders"
proof -
  have "fst ` set (fold (\<lambda>(k, vv) out.
      let canonical = canonical_header_key k in
      if canonical \<notin> set safeHeaders \<or> vv = [] then out
      else AList.update canonical (if canonical = ''Vary'' then join_comma vv else hd vv) out) h out) \<subseteq> set safeHeaders \<union> fst ` set out" for out
  proof (induction h arbitrary: out)
    case (Cons e h)
    obtain k vv where e: "e = (k, vv)" by (cases e)
    let ?out = "let canonical = canonical_header_key k in if canonical \<notin> set safeHeaders \<or> vv = [] then out
      else AList.update canonical (if canonical = ''Vary'' then join_comma vv else hd vv) out"
    have "fst ` set ?out \<subseteq> set safeHeaders \<union> fst ` set out" by (auto simp: Let_def fst_set_update)
    with Cons.IH [of ?out] show ?case unfolding e by auto
  qed simp
  from this [of "[]"] show ?thesis by (simp add: SafeHeaders_def)
qed

lemma safeHeaders_canonical: "''Content-Type'' \<notin> canonical_header_key ` set safeHeaders"
  by code_simp

text \<open>The pieces of the handler keep a cache of browse entries and answer without media.\<close>

abbreviation "clean \<equiv> memory_responses.holds_only browseEntry"

definition memoryOps :: "(Memory, 'g) stores \<Rightarrow> bool" where
  "memoryOps ops \<longleftrightarrow> cacheGet ops = memoryGetOp \<and> cacheSet ops = memorySetOp"

lemma clean_hit: "memoryOps ops \<Longrightarrow> clean c \<Longrightarrow> snd (cacheGet ops now k c) = StoreHit e \<Longrightarrow> browseEntry e"
  by (auto simp: memoryOps_def memory_responses.holds_only_def)

lemma serveCache_tunnel:
  assumes "memoryOps ops" "clean (pCache st)" "plainHeader hdr" "serveCache w ops r hdr ob st = (st', ob', out)"
  shows "clean (pCache st') \<and> (\<forall>resp. out = Some resp \<longrightarrow> \<not> carriesMedia resp)"
proof -
  have "pCache st' = pCache st \<or> pCache st' = fst (memoryGetOp (wNow w) (oCacheKey ob) (pCache st))"
    using assms(1,4)
    by (auto simp: serveCache_def memoryOps_def Let_def split: if_splits prod.splits store_answer.splits)
  then have "clean (pCache st')" using assms(2) memory_responses.holds_only_get by metis
  moreover have "\<not> carriesMedia resp" if "out = Some resp" for resp
  proof -
    from assms(4) that have "serveCache w ops r hdr ob st = (st', ob', Some resp)" by simp
    then obtain e where "resp = hitResponse w hdr e" "snd (cacheGet ops (wNow w) (oCacheKey ob) (pCache st)) = StoreHit e"
      by (rule serveCache_hit)
    then show ?thesis using hitResponse_media clean_hit [OF assms(1,2)] assms(3) by blast
  qed
  ultimately show ?thesis by blast
qed

lemma copyBody_tunnel:
  assumes "memoryOps ops" "clean (pCache st)" "\<not> isBulkMediaResponse (oaHeader resp)"
    and "copyBody w ops h r ob resp st = (st', evs)"
  shows "clean (pCache st')"
proof -
  let ?e = "\<lparr>Status = 200, ContentType = header_get (oaHeader resp) ''Content-Type'',
    Headers = SafeHeaders (oaHeader resp), Body = oaBody resp\<rparr>"
  have "pCache st' = pCache st \<or>
      pCache st' = fst (memorySetOp (wNow w) (oCacheKey ob) ?e (oCacheTTL ob) (pCache st))"
    using assms(1,4) by (auto simp: copyBody_def memoryOps_def Let_def split: if_splits prod.splits)
  moreover have "browseEntry ?e"
    using assms(3) SafeHeaders_keys [of "oaHeader resp"] safeHeaders_canonical
    by (auto simp: browseEntry_def isBulk_mediaType)
  ultimately show ?thesis using assms(2) memory_responses.holds_only_set by metis
qed

lemma bumpStateGeneration_cache [simp]: "pCache (bumpStateGeneration ops sc st) = pCache st"
  by (simp add: bumpStateGeneration_def split: option.split)

lemma refuseJson_media [simp]: "\<not> carriesMedia (refuseJson hdr status code message rj)"
  by (simp add: carriesMedia_def refuseJson_def)

lemmas refusal_defs = writeSessionsDeny_def writeInvalidPath_def writePartDeny_def writeMediaUnavailable_def
  writePolicyDeny_def writeBadGateway_def

lemma WriteMediaRedirect_media [simp]: "\<not> carriesMedia (WriteMediaRedirect hdr loc)"
  by (simp add: carriesMedia_def WriteMediaRedirect_def)

lemma finishProxy_tunnel:
  assumes "memoryOps ops" "IngressMode h = tunnelMode" "clean (pCache st)" "plainHeader hdr" "canonicalAnswer a"
    and "finishProxy w ops h r hdr ob True a st = (st', resp, evs)"
  shows "clean (pCache st') \<and> \<not> carriesMedia resp"
proof -
  obtain st1 e1 where r1: "revokeRejectedAuthorization h ob (oaStatus a) st = (st1, e1)" by fastforce
  define st2 where "st2 = (if Method r \<noteq> ''HEAD'' \<and> Method r \<noteq> ''OPTIONS'' \<and> 200 \<le> oaStatus a \<and>
      oaStatus a < 300 \<and> isStateWrite (URLPath r) then bumpStateGeneration ops (oScope ob) st1 else st1)"
  have st2: "clean (pCache st2)" using revoke_state(3) [OF r1] assms(3) by (simp add: st2_def)
  show ?thesis
  proof (cases "isBulkMediaResponse (oaHeader a)")
    case True
    then have "st' = st2" "resp = writeMediaUnavailable hdr"
      using assms(2,6) r1 unfolding finishProxy_def st2_def by (auto simp: Let_def)
    then show ?thesis using st2 by (simp add: refusal_defs)
  next
    case False
    obtain st3 e3 where c: "copyBody w ops h r ob a st2 = (st3, e3)" by fastforce
    let ?hd = "header_set (copyHeaders hdr (oaHeader a)) RequestIDHeader (wRequestID w)"
    have "st' = st3" and resp: "resp = \<lparr>hrStatus = oaStatus a, hrHeader = edgeHeaders (header_set ?hd CacheHeader (oCacheState ob)),
        hrBody = Bytes (oaBody a)\<rparr>"
      using assms(6) r1 c False unfolding finishProxy_def st2_def by (auto simp: Let_def)
    have "header_get (hrHeader resp) ''Content-Type'' \<in> {[], header_get (oaHeader a) ''Content-Type''}"
      using copied_content_type [OF assms(4,5)]
      by (simp add: resp edgeHeaders_def header_get_set canonical_own_headers)
    then have "\<not> carriesMedia resp" using False by (auto simp: carriesMedia_def isBulk_mediaType)
    with copyBody_tunnel [OF assms(1) st2 False c] \<open>st' = st3\<close> show ?thesis by simp
  qed
qed

definition quietSchedule :: "(Memory, 'g) schedule \<Rightarrow> bool" where
  "quietSchedule sch \<longleftrightarrow> (\<forall>t st. clean (pCache st) \<longrightarrow> clean (pCache (others sch t st)))"

text \<open>One round of the wait, and what it does to the cache.\<close>

lemma waitLoop_clean:
  "memoryOps ops \<Longrightarrow> quietSchedule sch \<Longrightarrow> clean (pCache st) \<Longrightarrow>
    clean (pCache (fst (waitLoop ops sch key deadline now st)))"
proof (induction ops sch key deadline now st rule: waitLoop.induct [case_names step])
  case (step ops sch key deadline now st)
  let ?now = "now + 50000000 + int (delay sch now)"
  let ?st = "others sch ?now st"
  obtain c ans where g: "cacheGet ops ?now key (pCache ?st) = (c, ans)" by fastforce
  have o: "clean (pCache ?st)" using step.prems by (simp add: quietSchedule_def)
  have c: "clean c"
    using memory_responses.holds_only_get [OF o, of ?now key] g step.prems(1) by (simp add: memoryOps_def)
  show ?case
  proof (cases "now \<ge> deadline \<or> ctxDone sch ?now \<or> isHit ans \<or> key \<notin> set (flight ?st)")
    case True
    then show ?thesis using step.prems(3) o c g by (subst waitLoop.simps) (auto simp: Let_def)
  next
    case False
    have "clean (pCache (fst (waitLoop ops sch key deadline ?now (?st\<lparr>pCache := c\<rparr>))))"
      by (rule step.IH) (use False g step.prems c in auto)
    moreover have "waitLoop ops sch key deadline now st = waitLoop ops sch key deadline ?now (?st\<lparr>pCache := c\<rparr>)"
      using False g by (subst waitLoop.simps) (auto simp: Let_def)
    ultimately show ?thesis by simp
  qed
qed

section \<open>The handler\<close>

definition canonicalOrigin :: "world \<Rightarrow> bool" where
  "canonicalOrigin w \<longleftrightarrow> (\<forall>c a. wOrigin w c = Some a \<longrightarrow> canonicalAnswer a)"

lemma proxy_tunnel:
  assumes "memoryOps ops" "IngressMode h = tunnelMode" "canonicalOrigin w" "plainHeader hdr" "clean (pCache st)"
    and "proxy w ops h r hdr ob True st = (st', resp, evs)"
  shows "clean (pCache st') \<and> \<not> carriesMedia resp"
proof (cases "wOrigin w (originCall w h r (oCacheable ob) True (ReqBody r))")
  case None
  then show ?thesis using assms by (auto simp: proxy_def refusal_defs)
next
  case (Some a)
  then have "finishProxy w ops h r hdr ob True a st = (st', resp, evs)" "canonicalAnswer a"
    using assms(3,6) by (auto simp: proxy_def canonicalOrigin_def)
  then show ?thesis using finishProxy_tunnel [OF assms(1,2,5,4)] by blast
qed

lemma serveControl_tunnel:
  assumes "memoryOps ops" "quietSchedule sch" "IngressMode h = tunnelMode" "canonicalOrigin w" "plainHeader hdr"
    and "clean (pCache st)" "serveControl w ops sch h r hdr ob True st = (st', resp, evs)"
  shows "clean (pCache st') \<and> \<not> carriesMedia resp"
proof -
  note cache = serveCache_tunnel [OF assms(1) _ assms(5)]
  note origin = proxy_tunnel [OF assms(1,3) _ assms(5)]
  obtain st1 ob1 out1 where s1: "serveCache w ops r hdr ob st = (st1, ob1, out1)" by (cases "serveCache w ops r hdr ob st")
  note c1 = cache [OF assms(6) s1]
  show ?thesis
  proof (cases "out1 = None \<and> oCacheable ob1 \<and> CacheWired h")
    case False
    then show ?thesis using assms(7) s1 c1 origin [OF assms(4), of st1 r ob1 st' resp evs]
      by (auto simp: serveControl_def split: option.splits)
  next
    case True
    obtain st2 waited now where s2: "waitForFlight ops sch (wNow w) (oCacheKey ob1) st1 = (st2, waited, now)"
      by (cases "waitForFlight ops sch (wNow w) (oCacheKey ob1) st1")
    let ?w = "w\<lparr>wNow := now\<rparr>"
    have w: "canonicalOrigin ?w" using assms(4) by (simp add: canonicalOrigin_def)
    have c2: "clean (pCache st2)"
      using s2 c1 waitLoop_clean [OF assms(1,2), of st1 "oCacheKey ob1" "wNow w + 2 * second" "wNow w"]
      by (auto simp: waitForFlight_def split: if_splits)
    obtain st3 ob3 out3 where s3: "(if waited then serveCache ?w ops r hdr ob1 st2 else (st2, ob1, None)) = (st3, ob3, out3)"
      by (cases "if waited then serveCache ?w ops r hdr ob1 st2 else (st2, ob1, None)")
    have c3: "clean (pCache st3) \<and> (\<forall>resp. out3 = Some resp \<longrightarrow> \<not> carriesMedia resp)"
      using s3 c2 cache [OF c2, of ?w r ob1] by (auto split: if_splits)
    obtain st4 won where s4: "tryBeginFlight (oCacheKey ob3) st3 = (st4, won)" by fastforce
    have c4: "clean (pCache st4)" using s4 c3 by (auto simp: tryBeginFlight_def split: if_splits)
    obtain st5 resp5 evs5 where s5: "proxy ?w ops h r hdr ob3 True st4 = (st5, resp5, evs5)"
      by (cases "proxy ?w ops h r hdr ob3 True st4")
    obtain st6 ob6 out6 where s6: "serveCache ?w ops r hdr ob3 st4 = (st6, ob6, out6)"
      by (cases "serveCache ?w ops r hdr ob3 st4")
    note c6 = cache [OF c4 s6]
    note end5 = origin [OF w c4 s5]
    note end6 = origin [OF w, of st6 r ob6 st' resp evs]
    show ?thesis
      using assms(7) s1 True s2 s3 c3 s4 s5 s6 c6 end5 end6
      by (auto simp: serveControl_def endFlight_def Let_def split: option.splits if_splits)
  qed
qed

lemma serveArtwork_other: "\<not> artworkMatch (URLPath r) \<Longrightarrow> serveArtwork w h r hdr ob st = (st, None, [])"
  by (simp add: serveArtwork_def split: option.split)

lemma serveRoutes_tunnel:
  assumes "memoryOps ops" "quietSchedule sch" "IngressMode h = tunnelMode" "canonicalOrigin w" "plainHeader hdr"
    and "clean (pCache st)" "\<not> artworkMatch (URLPath r)" "serveRoutes w ops sch h r hdr ob True st = (st', out, evs)"
  shows "clean (pCache st') \<and> (\<forall>resp. out = Respond resp \<longrightarrow> \<not> carriesMedia resp)"
proof -
  obtain pb evs1 where p: "servePlayback h r hdr ob = (pb, evs1)" by fastforce
  have pb: "\<not> carriesMedia resp" if "pb = Some (Respond resp)" for resp
    using p that by (auto simp: servePlayback_def Let_def refusal_defs split: option.splits if_splits decision_outcome.splits prod.splits)
  obtain st1 resp1 evs1 where c: "serveControl w ops sch h r hdr ob True st = (st1, resp1, evs1)"
    by (cases "serveControl w ops sch h r hdr ob True st")
  show ?thesis
    using assms(6,7,8) p pb c serveControl_tunnel [OF assms(1-6) c]
    by (auto simp: serveRoutes_def serveArtwork_other split: if_splits option.splits)
qed


section \<open>Waiting ends\<close>

lemma waitLoop_bounded:
  assumes "\<And>t. int (delay sch t) \<le> d"
  shows "waitLoop ops sch key deadline now st = (st', waited, now') \<Longrightarrow>
    now \<le> now' \<and> (now' = now \<or> now' < deadline + 50000000 + d) \<and>
    (waited \<longrightarrow> key \<notin> set (flight st') \<or> (\<exists>c e. cacheGet ops now' key c = (pCache st', StoreHit e)))"
  using assms
proof (induction ops sch key deadline now st rule: waitLoop.induct [case_names step])
  case (step ops sch key deadline now st)
  let ?now = "now + 50000000 + int (delay sch now)"
  let ?st = "others sch ?now st"
  obtain c ans where g: "cacheGet ops ?now key (pCache ?st) = (c, ans)" by fastforce
  have d: "int (delay sch now) \<le> d" by (rule step.prems(2))
  show ?case
  proof (cases "now \<ge> deadline \<or> ctxDone sch ?now \<or> isHit ans \<or> key \<notin> set (flight ?st)")
    case True
    moreover have "\<exists>c' e. cacheGet ops ?now key c' = (c, StoreHit e)" if "isHit ans"
      using that g by (auto simp: isHit_def split: store_answer.splits)
    ultimately show ?thesis
      using step.prems(1) g d by (subst (asm) waitLoop.simps) (auto simp: Let_def split: if_splits)
  next
    case False
    then have "waitLoop ops sch key deadline now st = waitLoop ops sch key deadline ?now (?st\<lparr>pCache := c\<rparr>)"
      using g by (subst waitLoop.simps) (auto simp: Let_def)
    then have "?now \<le> now' \<and> (now' = ?now \<or> now' < deadline + 50000000 + d) \<and>
      (waited \<longrightarrow> key \<notin> set (flight st') \<or> (\<exists>c e. cacheGet ops now' key c = (pCache st', StoreHit e)))"
      by (intro step.IH) (use False g step.prems in auto)
    then show ?thesis using False d by auto
  qed
qed

text \<open>
  Waiting for another request ends: the wait is a total function, it returns no later than one
  round after two seconds, a round being 50 milliseconds and the delay of the scheduler,
  and it tells its caller to look again only when the cache has answered or the other request is
  gone.
\<close>

theorem waitForFlight_ends:
  assumes "\<And>t. int (delay sch t) \<le> d" "waitForFlight ops sch now key st = (st', waited, now')"
  shows "now \<le> now' \<and> now' < now + 2 * second + 50000000 + d \<and>
    (waited \<longrightarrow> key \<notin> set (flight st') \<or> (\<exists>c e. cacheGet ops now' key c = (pCache st', StoreHit e)))"
proof -
  have "0 \<le> d" using assms(1) [of 0] by linarith
  then show ?thesis
    using assms(2) waitLoop_bounded [OF assms(1), of ops key "now + 2 * second" now st st' waited now']
    by (auto simp: waitForFlight_def second_def split: if_splits)
qed

section \<open>A concrete handler\<close>

definition exAnonymous :: request where
  "exAnonymous = (exBrowse ''/clip'')\<lparr>Header := []\<rparr>"

lemma exSetup: "memoryOps exOps" "quietSchedule exSchedule" "canonicalOrigin (exWorldAt t)" "clean (pCache exState)"
  subgoal by (simp add: memoryOps_def exOps_def)
  subgoal by (simp add: quietSchedule_def exSchedule_def)
  subgoal
  proof -
    have "canonicalAnswer \<lparr>oaStatus = 200, oaHeader = [(''Content-Type'', [''video/mp4''])], oaBody = ''x'', oaClean = True\<rparr>"
      by code_simp
    then show ?thesis by (simp add: canonicalOrigin_def exWorldAt_def exOrigin_def)
  qed
  subgoal by (simp add: memory_responses.holds_only_def exState_def NewMemory_def memoryGetOp_def MemoryGet_def)
  done


theorem waitForFlight_ends_witness:
  "\<exists>st' waited now'. waitForFlight exOps exSchedule 0 ''k'' (exState\<lparr>flight := [''k'']\<rparr>) = (st', waited, now') \<and>
     0 \<le> now' \<and> now' < 2 * second + 50000000"
proof -
  obtain st' waited now' where o: "waitForFlight exOps exSchedule 0 ''k'' (exState\<lparr>flight := [''k'']\<rparr>) = (st', waited, now')"
    by (cases "waitForFlight exOps exSchedule 0 ''k'' (exState\<lparr>flight := [''k'']\<rparr>)")
  have "int (delay exSchedule t) \<le> 0" for t by (simp add: exSchedule_def)
  from waitForFlight_ends [OF this o] o show ?thesis by auto
qed

end
