(* ===== verification/Go_Url.thy ===== *)
theory Go_Url
  imports Go_Http
begin

text \<open>
  Go's \<^verbatim>\<open>net/url\<close> as the redirect construction, the log redaction and the background
  refresher use it: \<^verbatim>\<open>url.Parse\<close>, \<^verbatim>\<open>URL.String\<close>, \<^verbatim>\<open>URL.ResolveReference\<close> and
  \<^verbatim>\<open>URL.Hostname\<close>, with the escaping rules of each URL component. The rules are those of Go 1.25.0, the
  version the module names.
\<close>

section \<open>Escaping\<close>

datatype encoding = EncodePath | EncodeHost | EncodeZone | EncodeUserPassword | EncodeFragment

definition alnum :: "char \<Rightarrow> bool" where
  "alnum c \<longleftrightarrow> (let n = (of_char c :: nat) in
     48 \<le> n \<and> n \<le> 57 \<or> 65 \<le> n \<and> n \<le> 90 \<or> 97 \<le> n \<and> n \<le> 122)"

definition should_escape :: "encoding \<Rightarrow> char \<Rightarrow> bool" where
  "should_escape mode c =
    (if alnum c \<or> c \<in> set ''-_.~'' then False
     else (case mode of
         EncodePath \<Rightarrow> c \<notin> set ''$&+,/:;=@''
       | EncodeHost \<Rightarrow> c \<notin> set ''!$&()*+,;=:[]<>'' \<and> c \<noteq> CHR 0x27 \<and> c \<noteq> CHR 0x22
       | EncodeZone \<Rightarrow> c \<notin> set ''!$&()*+,;=:[]<>'' \<and> c \<noteq> CHR 0x27 \<and> c \<noteq> CHR 0x22
       | EncodeUserPassword \<Rightarrow> c \<notin> set ''$&+,;=''
       | EncodeFragment \<Rightarrow> c \<notin> set ''$&+,/:;=?@!()*''))"

definition percent :: "char \<Rightarrow> string" where
  "percent c = [CHR ''%'', hex_digit ((of_char c :: nat) div 16), hex_digit ((of_char c :: nat) mod 16)]"

definition escape :: "encoding \<Rightarrow> string \<Rightarrow> string" where
  "escape mode s = concat (map (\<lambda>c. if should_escape mode c then percent c else [c]) s)"

text \<open>Which bytes may stand unescaped in a component, and which escapes it accepts.\<close>

definition plain_ok :: "encoding \<Rightarrow> char \<Rightarrow> bool" where
  "plain_ok mode c \<longleftrightarrow>
    \<not> (mode \<in> {EncodeHost, EncodeZone} \<and> (of_char c :: nat) < 128 \<and> should_escape mode c)"

definition escape_ok :: "encoding \<Rightarrow> nat \<Rightarrow> bool" where
  "escape_ok mode n \<longleftrightarrow>
    (case mode of
       EncodeHost \<Rightarrow> 128 \<le> n \<or> n = 37
     | EncodeZone \<Rightarrow> n = 37 \<or> n = 32 \<or> \<not> should_escape EncodeHost (char_of n)
     | _ \<Rightarrow> True)"

fun unescape :: "encoding \<Rightarrow> string \<Rightarrow> string option" where
  "unescape mode [] = Some []"
| "unescape mode (c # s) =
    (if c = CHR ''%'' then
       (case s of
          a # b # t \<Rightarrow>
            (case (hex_val a, hex_val b) of
               (Some x, Some y) \<Rightarrow>
                 if escape_ok mode (16 * x + y)
                 then map_option ((#) (char_of (16 * x + y))) (unescape mode t) else None
             | _ \<Rightarrow> None)
        | _ \<Rightarrow> None)
     else if plain_ok mode c then map_option ((#) c) (unescape mode s) else None)"

definition valid_encoded :: "encoding \<Rightarrow> string \<Rightarrow> bool" where
  "valid_encoded mode s \<longleftrightarrow>
    list_all (\<lambda>c. c \<in> set ''!$&()*+,;=:@[]%'' \<or> c = CHR 0x27 \<or> \<not> should_escape mode c) s"

section \<open>Parsed URLs\<close>

record url =
  uScheme :: string
  uOpaque :: string
  uUser :: "(string \<times> string option) option"
  uHost :: string
  uPath :: string
  uRawPath :: string
  uOmitHost :: bool
  uForceQuery :: bool
  uRawQuery :: string
  uFragment :: string
  uRawFragment :: string

definition emptyURL :: url where
  "emptyURL = \<lparr>uScheme = [], uOpaque = [], uUser = None, uHost = [], uPath = [], uRawPath = [],
     uOmitHost = False, uForceQuery = False, uRawQuery = [], uFragment = [], uRawFragment = []\<rparr>"

text \<open>\<^verbatim>\<open>strings.LastIndex\<close> for one byte, as the text around the last occurrence.\<close>

definition cut_last :: "char \<Rightarrow> string \<Rightarrow> (string \<times> string) option" where
  "cut_last sep s =
    (if sep \<in> set s
     then Some (rev (drop 1 (dropWhile (\<lambda>c. c \<noteq> sep) (rev s))), rev (takeWhile (\<lambda>c. c \<noteq> sep) (rev s)))
     else None)"

definition scheme_char :: "char \<Rightarrow> bool" where
  "scheme_char c \<longleftrightarrow> alnum c \<or> c \<in> set ''+-.''"

definition get_scheme :: "string \<Rightarrow> (string \<times> string) option" where
  "get_scheme raw =
    (let name = takeWhile scheme_char raw; rest = drop (length name) raw in
     case rest of
       c # after_colon \<Rightarrow>
         if c = CHR '':'' then
           (case name of
              [] \<Rightarrow> None
            | d # _ \<Rightarrow> if alnum d \<and> digit_val d = None then Some (name, after_colon) else Some ([], raw))
         else Some ([], raw)
     | [] \<Rightarrow> Some ([], raw))"

definition valid_optional_port :: "string \<Rightarrow> bool" where
  "valid_optional_port p \<longleftrightarrow>
    (case p of [] \<Rightarrow> True | c # ds \<Rightarrow> c = CHR '':'' \<and> list_all (\<lambda>d. digit_val d \<noteq> None) ds)"

text \<open>A host in brackets is an address literal; \<^verbatim>\<open>%25\<close> starts its zone.\<close>

definition parse_bracketed :: "string \<Rightarrow> string option" where
  "parse_bracketed host =
    (case cut_last (CHR '']'') host of
       None \<Rightarrow> None
     | Some (inside, colonPort) \<Rightarrow>
         if \<not> valid_optional_port colonPort then None
         else (case index_of inside ''%25'' of
                 Some z \<Rightarrow>
                   (case (unescape EncodeHost (take z inside), unescape EncodeZone (drop z inside),
                          unescape EncodeHost (CHR '']'' # colonPort)) of
                      (Some a, Some b, Some c) \<Rightarrow> Some (a @ b @ c) | _ \<Rightarrow> None)
               | None \<Rightarrow> unescape EncodeHost host))"

definition parse_host :: "string \<Rightarrow> string option" where
  "parse_host host =
    (if has_prefix host ''['' then parse_bracketed host
     else (case cut_last (CHR '':'') host of
             Some (_, port) \<Rightarrow> if valid_optional_port (CHR '':'' # port) then unescape EncodeHost host else None
           | None \<Rightarrow> unescape EncodeHost host))"

definition valid_userinfo :: "string \<Rightarrow> bool" where
  "valid_userinfo s \<longleftrightarrow>
    list_all (\<lambda>c. alnum c \<or> c \<in> set ''-._:~!$&()*+,;=%@'' \<or> c = CHR 0x27) s"

definition parse_authority ::
  "string \<Rightarrow> ((string \<times> string option) option \<times> string) option" where
  "parse_authority authority =
    (case cut_last (CHR ''@'') authority of
       None \<Rightarrow> map_option (Pair None) (parse_host authority)
     | Some (userinfo, h) \<Rightarrow>
         (case parse_host h of
            None \<Rightarrow> None
          | Some host \<Rightarrow>
              if \<not> valid_userinfo userinfo then None
              else if CHR '':'' \<notin> set userinfo
              then map_option (\<lambda>u. (Some (u, None), host)) (unescape EncodeUserPassword userinfo)
              else (case (unescape EncodeUserPassword (before (CHR '':'') userinfo),
                         unescape EncodeUserPassword (after (CHR '':'') userinfo)) of
                      (Some u, Some p) \<Rightarrow> Some (Some (u, Some p), host)
                    | _ \<Rightarrow> None)))"

definition set_path :: "string \<Rightarrow> url \<Rightarrow> url option" where
  "set_path p u = map_option
     (\<lambda>path. u\<lparr>uPath := path, uRawPath := (if escape EncodePath path = p then [] else p)\<rparr>)
     (unescape EncodePath p)"

definition set_fragment :: "string \<Rightarrow> url \<Rightarrow> url option" where
  "set_fragment f u = map_option
     (\<lambda>frag. u\<lparr>uFragment := frag, uRawFragment := (if escape EncodeFragment frag = f then [] else f)\<rparr>)
     (unescape EncodeFragment f)"

definition ctl_byte :: "char \<Rightarrow> bool" where
  "ctl_byte c \<longleftrightarrow> (of_char c :: nat) < 32 \<or> (of_char c :: nat) = 127"

text \<open>The part of the text after the scheme: the query, then the authority and the path.\<close>

definition parse_query_part :: "string \<Rightarrow> url \<Rightarrow> string \<times> url" where
  "parse_query_part rest u =
    (if has_suffix rest ''?'' \<and> count_list rest (CHR ''?'') = 1
     then (take (length rest - 1) rest, u\<lparr>uForceQuery := True\<rparr>)
     else (before (CHR ''?'') rest, u\<lparr>uRawQuery := after (CHR ''?'') rest\<rparr>))"

definition parse_hier :: "string \<Rightarrow> url \<Rightarrow> url option" where
  "parse_hier rest u =
    (if \<not> has_prefix rest ''/'' \<and> uScheme u \<noteq> [] then Some (u\<lparr>uOpaque := rest\<rparr>)
     else if \<not> has_prefix rest ''/'' \<and> CHR '':'' \<in> set (before (CHR ''/'') rest) then None
     else if (uScheme u \<noteq> [] \<or> \<not> has_prefix rest ''///'') \<and> has_prefix rest ''//''
     then (let authority = takeWhile (\<lambda>c. c \<noteq> CHR ''/'') (drop 2 rest);
               path = drop (length authority) (drop 2 rest) in
           case parse_authority authority of
             None \<Rightarrow> None
           | Some (user, host) \<Rightarrow> set_path path (u\<lparr>uUser := user, uHost := host\<rparr>))
     else if uScheme u \<noteq> [] \<and> has_prefix rest ''/'' then set_path rest (u\<lparr>uOmitHost := True\<rparr>)
     else set_path rest u)"

definition parse_url :: "string \<Rightarrow> url option" where
  "parse_url raw =
    (if list_ex ctl_byte raw then None
     else if raw = ''*'' then Some (emptyURL\<lparr>uPath := ''*''\<rparr>)
     else (case get_scheme raw of
             None \<Rightarrow> None
           | Some (scheme, rest) \<Rightarrow>
               (let (hier, u) = parse_query_part rest (emptyURL\<lparr>uScheme := to_lower scheme\<rparr>)
                in parse_hier hier u)))"

text \<open>\<^verbatim>\<open>url.Parse\<close>.\<close>

definition url_parse :: "string \<Rightarrow> url option" where
  "url_parse raw =
    (case parse_url (before (CHR ''#'') raw) of
       None \<Rightarrow> None
     | Some u \<Rightarrow> if after (CHR ''#'') raw = [] then Some u else set_fragment (after (CHR ''#'') raw) u)"

section \<open>Printing\<close>

definition escaped_path :: "url \<Rightarrow> string" where
  "escaped_path u =
    (if uRawPath u \<noteq> [] \<and> valid_encoded EncodePath (uRawPath u) \<and>
        unescape EncodePath (uRawPath u) = Some (uPath u) then uRawPath u
     else if uPath u = ''*'' then ''*'' else escape EncodePath (uPath u))"

definition escaped_fragment :: "url \<Rightarrow> string" where
  "escaped_fragment u =
    (if uRawFragment u \<noteq> [] \<and> valid_encoded EncodeFragment (uRawFragment u) \<and>
        unescape EncodeFragment (uRawFragment u) = Some (uFragment u) then uRawFragment u
     else escape EncodeFragment (uFragment u))"

definition userinfo_string :: "string \<times> string option \<Rightarrow> string" where
  "userinfo_string ui =
    (case ui of (name, password) \<Rightarrow>
      if name \<noteq> [] \<or> password \<noteq> None
      then escape EncodeUserPassword name @
        (case password of None \<Rightarrow> [] | Some p \<Rightarrow> CHR '':'' # escape EncodeUserPassword p)
      else [])"

definition authority_string :: "url \<Rightarrow> string" where
  "authority_string u =
    (case uUser u of None \<Rightarrow> [] | Some ui \<Rightarrow> userinfo_string ui @ ''@'') @ escape EncodeHost (uHost u)"

definition url_authority :: "url \<Rightarrow> string" where
  "url_authority u =
    (if uScheme u = [] \<and> uHost u = [] \<and> uUser u = None then []
     else if uOmitHost u \<and> uHost u = [] \<and> uUser u = None then []
     else (if uHost u \<noteq> [] \<or> uPath u \<noteq> [] \<or> uUser u \<noteq> None then ''//'' else []) @ authority_string u)"

definition url_hier :: "url \<Rightarrow> string" where
  "url_hier u =
    (let scheme = (if uScheme u = [] then [] else uScheme u @ '':''); path = escaped_path u in
     if uOpaque u \<noteq> [] then scheme @ uOpaque u
     else scheme @ url_authority u @
       (if path \<noteq> [] \<and> hd path \<noteq> CHR ''/'' \<and> uHost u \<noteq> [] then ''/''
        else if scheme @ url_authority u = [] \<and> CHR '':'' \<in> set (before (CHR ''/'') path) then ''./''
        else []) @ path)"

text \<open>\<^verbatim>\<open>URL.String\<close>.\<close>

definition print_url :: "url \<Rightarrow> string" where
  "print_url u = url_hier u @
    (if uForceQuery u \<or> uRawQuery u \<noteq> [] then CHR ''?'' # uRawQuery u else []) @
    (if uFragment u \<noteq> [] then CHR ''#'' # escaped_fragment u else [])"

text \<open>\<^verbatim>\<open>URL.RequestURI\<close>, the target of the request line.\<close>

definition request_uri :: "url \<Rightarrow> string" where
  "request_uri u =
    (if uOpaque u = [] then (if escaped_path u = [] then ''/'' else escaped_path u)
     else if has_prefix (uOpaque u) ''//'' then uScheme u @ '':'' @ uOpaque u else uOpaque u) @
    (if uForceQuery u \<or> uRawQuery u \<noteq> [] then CHR ''?'' # uRawQuery u else [])"

definition hostname :: "url \<Rightarrow> string" where
  "hostname u =
    (let h = (case cut_last (CHR '':'') (uHost u) of
                Some (h, port) \<Rightarrow> if valid_optional_port (CHR '':'' # port) then h else uHost u
              | None \<Rightarrow> uHost u) in
     if has_prefix h ''['' \<and> has_suffix h '']'' then take (length h - 2) (drop 1 h) else h)"

definition url_values :: "url \<Rightarrow> multimap" where
  "url_values u = parse_query (uRawQuery u)"

section \<open>Resolving references\<close>

text \<open>
  The loop of \<^verbatim>\<open>resolvePath\<close> over the path segments: \<open>dst\<close> is what was written after the
  leading slash, \<open>first\<close> whether the next segment needs no separator.
\<close>

fun resolve_segments :: "string list \<Rightarrow> bool \<Rightarrow> string \<Rightarrow> string" where
  "resolve_segments [] first dst = dst"
| "resolve_segments (elem # rest) first dst =
    (if elem = ''.'' then resolve_segments rest False dst
     else if elem = ''..'' then
       (case cut_last (CHR ''/'') dst of
          None \<Rightarrow> resolve_segments rest True []
        | Some (parent, _) \<Rightarrow> resolve_segments rest first parent)
     else resolve_segments rest False (dst @ (if first then [] else ''/'') @ elem))"

definition resolve_path :: "string \<Rightarrow> string \<Rightarrow> string" where
  "resolve_path base ref =
    (let full = (if ref = [] then base
                 else if hd ref = CHR ''/'' then ref
                 else (case cut_last (CHR ''/'') base of None \<Rightarrow> ref | Some (d, _) \<Rightarrow> d @ ''/'' @ ref)) in
     if full = [] then []
     else (let segments = split_on (CHR ''/'') full; dst = resolve_segments segments True [];
               out = CHR ''/'' # dst @ (if last segments \<in> {''.'', ''..''} then ''/'' else []) in
           if has_prefix out ''//'' then drop 1 out else out))"

text \<open>\<^verbatim>\<open>setPath\<close> with its error ignored, as \<^verbatim>\<open>ResolveReference\<close> calls it.\<close>

definition set_path_quiet :: "string \<Rightarrow> url \<Rightarrow> url" where
  "set_path_quiet p u = (case set_path p u of None \<Rightarrow> u | Some u' \<Rightarrow> u')"

definition resolve_reference :: "url \<Rightarrow> url \<Rightarrow> url" where
  "resolve_reference base ref =
    (let u = (if uScheme ref = [] then ref\<lparr>uScheme := uScheme base\<rparr> else ref) in
     if uScheme ref \<noteq> [] \<or> uHost ref \<noteq> [] \<or> uUser ref \<noteq> None
     then set_path_quiet (resolve_path (escaped_path ref) []) u
     else if uOpaque ref \<noteq> [] then u\<lparr>uUser := None, uHost := [], uPath := []\<rparr>
     else
       (let u = (if uPath ref = [] \<and> \<not> uForceQuery ref \<and> uRawQuery ref = []
                 then (let u = u\<lparr>uRawQuery := uRawQuery base\<rparr> in
                       if uFragment ref = []
                       then u\<lparr>uFragment := uFragment base, uRawFragment := uRawFragment base\<rparr> else u)
                 else u) in
        if uPath ref = [] \<and> uOpaque base \<noteq> []
        then u\<lparr>uOpaque := uOpaque base, uUser := None, uHost := [], uPath := []\<rparr>
        else set_path_quiet (resolve_path (escaped_path base) (escaped_path ref))
               (u\<lparr>uHost := uHost base, uUser := uUser base\<rparr>)))"

section \<open>Query strings round trip\<close>

lemma hex_val_hex_digit: "d < 16 \<Longrightarrow> hex_val (hex_digit d) = Some d"
  by (auto simp: hex_val_def hex_digit_def Let_def)

lemma query_unescape_escape: "query_unescape (query_escape s) = Some s"
proof (induction s)
  case (Cons c s)
  have "unreserved c \<Longrightarrow> c \<noteq> CHR ''%'' \<and> c \<noteq> CHR ''+''" by (auto simp: unreserved_def)
  moreover have "hex_val (hex_digit ((of_char c :: nat) div 16)) = Some (of_char c div 16)"
    "hex_val (hex_digit ((of_char c :: nat) mod 16)) = Some (of_char c mod 16)"
    by (simp_all add: hex_val_hex_digit of_char_div_16)
  ultimately show ?case
    using Cons.IH by (auto simp: query_escape_def)
qed (simp add: query_escape_def)

definition query_chars :: "char set" where
  "query_chars = {c. unreserved c} \<union> set ''%+=&''"

lemma hex_digit_unreserved: "d < 16 \<Longrightarrow> unreserved (hex_digit d)"
  by (auto simp: unreserved_def hex_digit_def Let_def)

lemma set_query_escape: "set (query_escape s) \<subseteq> {c. unreserved c} \<union> set ''%+''"
  by (auto simp: query_escape_def hex_digit_unreserved of_char_div_16)

lemma query_escape_clean: "c \<in> {CHR ''&'', CHR ''='', CHR '';''} \<Longrightarrow> c \<notin> set (query_escape s)"
  using set_query_escape [of s] by (auto simp: unreserved_def subset_iff)

lemma before_append_sep: "sep \<notin> set a \<Longrightarrow> before sep (a @ sep # b) = a"
  by (simp add: before_def takeWhile_append_sep)

lemma after_append_sep: "sep \<notin> set a \<Longrightarrow> after sep (a @ sep # b) = b"
  by (induction a) (auto simp: after_def)

lemma before_no_sep: "sep \<notin> set a \<Longrightarrow> before sep a = a"
  by (induction a) (auto simp: before_def)

lemma after_no_sep: "sep \<notin> set a \<Longrightarrow> after sep a = []"
  by (induction a) (auto simp: after_def)

lemmas cut_simps = before_append_sep after_append_sep before_no_sep after_no_sep

lemma parse_pair_encoded: "parse_pair (query_escape k @ CHR ''='' # query_escape v) = Some (k, v)"
  by (simp add: parse_pair_def query_escape_clean query_unescape_escape cut_simps)

lemma split_on_join_on:
  "ws \<noteq> [] \<Longrightarrow> \<forall>w \<in> set ws. sep \<notin> set w \<Longrightarrow> split_on sep (join_on sep ws) = ws"
  by (induction sep ws rule: join_on.induct) (auto simp: split_on_no_sep split_on_append)

lemma values_of_fold_add:
  "values_of (fold (\<lambda>(k, v) q. values_add q k v) kvs q) k = values_of q k @ map snd (filter (\<lambda>(k', v). k' = k) kvs)"
  by (induction kvs arbitrary: q) (auto simp: values_of_add)

definition query_pairs :: "multimap \<Rightarrow> (string \<times> string) list" where
  "query_pairs q = concat (map (\<lambda>k. map (Pair k) (values_of q k)) (sort (map fst q)))"

lemma values_encode_pairs:
  "values_encode q = join_on (CHR ''&'') (map (\<lambda>(k, v). query_escape k @ CHR ''='' # query_escape v) (query_pairs q))"
  by (simp add: values_encode_def query_pairs_def map_concat comp_def)

lemma parse_query_pairs: "parse_query (values_encode q) = fold (\<lambda>(k, v) q. values_add q k v) (query_pairs q) []"
proof (cases "query_pairs q = []")
  case True
  then show ?thesis by (simp add: parse_query_def values_encode_pairs parse_pair_def)
next
  case False
  let ?enc = "\<lambda>(k, v). query_escape k @ CHR ''='' # query_escape v"
  have "split_on (CHR ''&'') (values_encode q) = map ?enc (query_pairs q)"
    unfolding values_encode_pairs using False
    by (intro split_on_join_on) (auto simp: query_escape_clean)
  then show ?thesis
    by (simp add: parse_query_def fold_map comp_def parse_pair_encoded case_prod_unfold)
qed

lemma filter_concat_single:
  "distinct ks \<Longrightarrow> filter (\<lambda>(k', v). k' = k) (concat (map (\<lambda>k. map (Pair k) (f k)) ks)) =
     (if k \<in> set ks then map (Pair k) (f k) else [])"
  by (induction ks) (auto simp: filter_empty_conv)

text \<open>Encoding and parsing a query keeps the values of every key.\<close>

lemma values_of_parse_encode:
  assumes "wf_map q"
  shows "values_of (parse_query (values_encode q)) k = values_of q k"
proof -
  have "distinct (sort (map fst q))" using assms by (simp add: wf_map_def)
  moreover have "k \<notin> fst ` set q \<Longrightarrow> values_of q k = []"
    by (simp add: values_of_def map_of_eq_None_iff [symmetric] option.case_eq_if)
  moreover have values_of_empty: "values_of [] k = []" by (simp add: values_of_def)
  ultimately show ?thesis
    by (auto simp: parse_query_pairs values_of_fold_add query_pairs_def filter_concat_single comp_def values_of_empty)
qed

lemma set_values_encode: "set (values_encode q) \<subseteq> query_chars"
proof -
  have "set (join_on sep ws) \<subseteq> insert sep (\<Union> (set ` set ws))" for sep ws
    by (induction sep ws rule: join_on.induct) auto
  from this [of "CHR ''&''" "map (\<lambda>(k, v). query_escape k @ CHR ''='' # query_escape v) (query_pairs q)"]
  show ?thesis
    using set_query_escape unfolding values_encode_pairs query_chars_def by fastforce
qed

lemma query_chars_clean:
  "c \<in> query_chars \<Longrightarrow> c \<noteq> CHR ''?'' \<and> c \<noteq> CHR ''#'' \<and> \<not> ctl_byte c"
  by (auto simp: query_chars_def unreserved_def ctl_byte_def Let_def)

lemma values_encode_clean:
  "CHR ''?'' \<notin> set (values_encode q)" "CHR ''#'' \<notin> set (values_encode q)" "\<not> list_ex ctl_byte (values_encode q)"
  using set_values_encode [of q] query_chars_clean by (auto simp: list_ex_iff)

lemma values_encode_nonempty: "values_of q k \<noteq> [] \<Longrightarrow> values_encode q \<noteq> []"
proof -
  assume vs: "values_of q k \<noteq> []"
  then have "k \<in> set (sort (map fst q))"
    by (auto simp: values_of_def image_iff dest!: map_of_SomeD split: option.splits) force
  with vs have "query_pairs q \<noteq> []" by (auto simp: query_pairs_def)
  then show ?thesis
    unfolding values_encode_pairs by (cases "query_pairs q" rule: remdups_adj.cases) auto
qed

lemma parse_query_nonempty: "map_of (parse_query raw) k \<noteq> Some []"
proof -
  define step where "step part q = (case parse_pair part of None \<Rightarrow> q | Some (k, v) \<Rightarrow> values_add q k v)" for part q
  have "\<forall>k. map_of q k \<noteq> Some [] \<Longrightarrow> \<forall>k. map_of (fold step parts q) k \<noteq> Some []" for parts q
  proof (induction parts arbitrary: q)
    case (Cons part parts)
    have "\<forall>k. map_of (step part q) k \<noteq> Some []"
      using Cons.prems by (auto simp: step_def values_add_def map_of_update split: option.splits)
    from Cons.IH [OF this] show ?case by simp
  qed simp
  from this [of "[]" "split_on (CHR ''&'') raw"] show ?thesis
    by (simp add: parse_query_def step_def [abs_def])
qed

lemma map_of_parse_query:
  "map_of (parse_query raw) k = (case values_of (parse_query raw) k of [] \<Rightarrow> None | v # vs \<Rightarrow> Some (v # vs))"
  using parse_query_nonempty [of raw k] by (auto simp: values_of_def split: option.splits list.splits)

section \<open>Escaped components\<close>

lemma set_escape: "c \<in> set (escape mode s) \<Longrightarrow> \<not> should_escape mode c \<or> c = CHR ''%''"
proof -
  assume "c \<in> set (escape mode s)"
  then obtain d where "d \<in> set s" "c \<in> set (if should_escape mode d then percent d else [d])"
    by (auto simp: escape_def)
  moreover have "alnum (hex_digit n)" if "n < 16" for n
    using that by (auto simp: alnum_def hex_digit_def Let_def)
  ultimately show ?thesis
    by (auto simp: percent_def should_escape_def of_char_div_16 split: if_splits)
qed

lemma escape_host_clean: "c \<in> set ''/?#@'' \<Longrightarrow> c \<notin> set (escape EncodeHost s)"
  using set_escape [of c EncodeHost s] by (auto simp: should_escape_def alnum_def)

lemma escape_user_clean: "c \<in> set ''/?#@:'' \<Longrightarrow> c \<notin> set (escape EncodeUserPassword s)"
  using set_escape [of c EncodeUserPassword s] by (auto simp: should_escape_def alnum_def)

lemma authority_string_clean: "c \<in> set ''/?#'' \<Longrightarrow> c \<notin> set (authority_string u)"
  using escape_host_clean [of c "uHost u"] escape_user_clean
  by (auto simp: authority_string_def userinfo_string_def split: option.splits prod.splits)

lemma escaped_path_clean: "c \<in> set ''?#'' \<Longrightarrow> c \<notin> set (escaped_path u)"
  using set_escape [of c EncodePath "uPath u"]
  by (auto simp: escaped_path_def valid_encoded_def list_all_iff should_escape_def alnum_def)

section \<open>The query of a parsed URL\<close>

text \<open>
  Replacing the query of a URL text replaces the query of the parsed URL and nothing else;
  \<open>parse_around\<close> is what the parser makes of the text around the query.
\<close>

definition parse_around :: "string \<Rightarrow> string \<Rightarrow> url option" where
  "parse_around hier frag =
    (if list_ex ctl_byte hier then None
     else (case get_scheme hier of
             None \<Rightarrow> None
           | Some (scheme, rest) \<Rightarrow>
               (case parse_hier rest (emptyURL\<lparr>uScheme := to_lower scheme\<rparr>) of
                  None \<Rightarrow> None
                | Some u \<Rightarrow> if frag = [] then Some u else set_fragment frag u)))"

lemma set_path_query:
  "set_path p (u\<lparr>uRawQuery := q\<rparr>) = map_option (\<lambda>u. u\<lparr>uRawQuery := q\<rparr>) (set_path p u)"
  by (cases u) (simp add: set_path_def option.map_comp comp_def)

lemma set_fragment_query:
  "set_fragment f (u\<lparr>uRawQuery := q\<rparr>) = map_option (\<lambda>u. u\<lparr>uRawQuery := q\<rparr>) (set_fragment f u)"
  by (cases u) (simp add: set_fragment_def option.map_comp comp_def)

lemma set_path_query_fields:
  "set_path p (u\<lparr>uRawQuery := q, uUser := a, uHost := h\<rparr>) =
     map_option (\<lambda>u. u\<lparr>uRawQuery := q\<rparr>) (set_path p (u\<lparr>uUser := a, uHost := h\<rparr>))"
  "set_path p (u\<lparr>uRawQuery := q, uOmitHost := b\<rparr>) =
     map_option (\<lambda>u. u\<lparr>uRawQuery := q\<rparr>) (set_path p (u\<lparr>uOmitHost := b\<rparr>))"
  by (cases u, simp add: set_path_def option.map_comp comp_def)+

lemma parse_hier_query:
  "parse_hier rest (u\<lparr>uRawQuery := q\<rparr>) = map_option (\<lambda>u. u\<lparr>uRawQuery := q\<rparr>) (parse_hier rest u)"
  by (cases u) (simp add: parse_hier_def Let_def set_path_query set_path_query_fields split: option.split,
      simp add: set_path_def option.map_comp comp_def)

lemma get_scheme_query:
  "get_scheme (hier @ CHR ''?'' # q) =
    map_option (\<lambda>(s, rest). (s, rest @ CHR ''?'' # q)) (get_scheme hier)"
proof -
  have no: "\<not> scheme_char (CHR ''?'')" by (simp add: scheme_char_def alnum_def)
  have tw: "takeWhile scheme_char (hier @ CHR ''?'' # q) = takeWhile scheme_char hier"
    using no by (induction hier) auto
  have "drop (length (takeWhile scheme_char hier)) (hier @ CHR ''?'' # q) =
      drop (length (takeWhile scheme_char hier)) hier @ CHR ''?'' # q"
    by (simp add: length_takeWhile_le)
  then show ?thesis
    by (cases "drop (length (takeWhile scheme_char hier)) hier")
       (simp_all only: get_scheme_def Let_def tw, auto split: list.split)
qed

lemma get_scheme_rest: "get_scheme raw = Some (s, rest) \<Longrightarrow> set rest \<subseteq> set raw"
  by (auto simp: get_scheme_def Let_def split: list.splits if_splits dest: in_set_dropD)
     (metis in_set_dropD list.set_intros(2))

lemma url_parse_query:
  assumes "CHR ''?'' \<notin> set hier" "CHR ''#'' \<notin> set hier"
    and "q \<noteq> []" "CHR ''#'' \<notin> set q" "\<not> list_ex ctl_byte q"
    and "frag = [] \<or> (\<exists>f. frag = CHR ''#'' # f)"
  shows "url_parse (hier @ CHR ''?'' # q @ frag) =
    map_option (\<lambda>u. u\<lparr>uRawQuery := q\<rparr>) (parse_around hier (drop 1 frag))"
proof -
  have cut: "before (CHR ''#'') (hier @ CHR ''?'' # q @ frag) = hier @ CHR ''?'' # q"
    "after (CHR ''#'') (hier @ CHR ''?'' # q @ frag) = drop 1 frag"
    using assms(2,4,6) before_append_sep [of "CHR ''#''" "hier @ CHR ''?'' # q"]
      after_append_sep [of "CHR ''#''" "hier @ CHR ''?'' # q"] by (auto simp: cut_simps)
  have part: "parse_query_part (rest @ CHR ''?'' # q) u = (rest, u\<lparr>uRawQuery := q\<rparr>)"
    if "CHR ''?'' \<notin> set rest" for rest u
  proof -
    have "\<not> (suffix ''?'' (rest @ CHR ''?'' # q) \<and> count_list (rest @ CHR ''?'' # q) (CHR ''?'') = 1)"
    proof
      assume end_mark: "suffix ''?'' (rest @ CHR ''?'' # q) \<and> count_list (rest @ CHR ''?'' # q) (CHR ''?'') = 1"
      then have "last (rest @ CHR ''?'' # q) = CHR ''?''" by (metis last_snoc suffix_def)
      with assms(3) have "CHR ''?'' \<in> set q" using last_in_set [of q] by auto
      then have "count_list q (CHR ''?'') \<noteq> 0" by (simp add: count_list_0_iff)
      with end_mark show False by simp
    qed
    with that show ?thesis by (simp only: parse_query_part_def has_suffix_def cut_simps if_False simp_thms)
  qed
  have "\<not> ctl_byte (CHR ''?'')" by (simp add: ctl_byte_def)
  moreover have "hier @ CHR ''?'' # q \<noteq> ''*''"
    by (metis (no_types) append_is_Nil_conv assms(3) butlast_snoc butlast_append list.distinct(1) butlast.simps)
  moreover have "CHR ''?'' \<notin> set rest" if "get_scheme hier = Some (s, rest)" for s rest
    using get_scheme_rest [OF that] assms(1) by auto
  ultimately have "parse_url (hier @ CHR ''?'' # q) =
      map_option (\<lambda>u. u\<lparr>uRawQuery := q\<rparr>) (if list_ex ctl_byte hier then None
        else (case get_scheme hier of None \<Rightarrow> None
          | Some (scheme, rest) \<Rightarrow> parse_hier rest (emptyURL\<lparr>uScheme := to_lower scheme\<rparr>)))"
    using assms(3,5)
    by (auto simp: parse_url_def get_scheme_query part parse_hier_query split: option.splits)
  then show ?thesis
    by (auto simp: url_parse_def parse_around_def cut set_fragment_query split: option.splits)
qed

section \<open>Authorities of parsed URLs\<close>

lemma set_path_sel:
  "set_path p u = Some u' \<Longrightarrow> uScheme u' = uScheme u \<and> uOpaque u' = uOpaque u \<and> uUser u' = uUser u \<and>
     uHost u' = uHost u \<and> uRawQuery u' = uRawQuery u \<and> uFragment u' = uFragment u \<and>
     uForceQuery u' = uForceQuery u"
  by (auto simp: set_path_def)

lemma parse_url_Some:
  assumes "parse_url raw = Some u" "raw \<noteq> ''*''"
  obtains s rest where "get_scheme raw = Some (s, rest)"
    "parse_hier (fst (parse_query_part rest (emptyURL\<lparr>uScheme := to_lower s\<rparr>)))
       (snd (parse_query_part rest (emptyURL\<lparr>uScheme := to_lower s\<rparr>))) = Some u"
proof (cases "get_scheme raw")
  case (Some p)
  then show thesis
    using assms that [of "fst p" "snd p"]
    by (simp add: parse_url_def Let_def case_prod_unfold split: if_splits)
qed (use assms in \<open>simp add: parse_url_def split: if_splits\<close>)

lemma url_parse_url:
  assumes "url_parse raw = Some u"
  obtains u0 where "parse_url (before (CHR ''#'') raw) = Some u0" "uScheme u = uScheme u0" "uOpaque u = uOpaque u0"
    "uHost u = uHost u0" "uUser u = uUser u0" "uRawQuery u = uRawQuery u0" "uForceQuery u = uForceQuery u0"
  using assms by (cases "parse_url (before (CHR ''#'') raw)") (auto simp: url_parse_def set_fragment_def split: if_splits)

text \<open>A URL text with a scheme and an authority, each delimited.\<close>

definition url_text :: "string \<Rightarrow> string \<Rightarrow> string \<Rightarrow> string \<Rightarrow> bool" where
  "url_text s auth rest raw \<longleftrightarrow>
    raw = s @ ''://'' @ auth @ rest \<and> list_all scheme_char s \<and> s \<noteq> [] \<and> alnum (hd s) \<and> digit_val (hd s) = None \<and>
    set auth \<inter> set ''/?#'' = {} \<and> (rest = [] \<or> hd rest \<in> set ''/?#'')"

lemma before_after: "s = before sep s @ (if sep \<in> set s then sep # after sep s else [])"
proof (induction s)
  case (Cons c s)
  then show ?case by (cases "c = sep") (auto simp: before_def after_def)
qed (simp add: before_def)

lemma before_free: "sep \<notin> set (before sep s)"
  by (auto simp: before_def dest: set_takeWhileD)

lemma before_append: "sep \<notin> set a \<Longrightarrow> before sep (a @ b) = a @ before sep b"
  by (induction a) (auto simp: before_def)

lemma get_scheme_split:
  assumes "get_scheme raw = Some (s, rest)" "s \<noteq> []"
  shows "raw = s @ CHR '':'' # rest \<and> list_all scheme_char s \<and> alnum (hd s) \<and> digit_val (hd s) = None"
proof -
  let ?n = "takeWhile scheme_char raw"
  have "raw = ?n @ drop (length ?n) raw"
    by (metis takeWhile_dropWhile_id dropWhile_eq_drop)
  moreover have "list_all scheme_char ?n" by (auto simp: list_all_iff dest: set_takeWhileD)
  ultimately show ?thesis
    using assms by (auto simp: get_scheme_def Let_def split: list.splits if_splits)
qed

lemma get_scheme_join:
  assumes "list_all scheme_char s" "s \<noteq> []" "alnum (hd s)" "digit_val (hd s) = None"
  shows "get_scheme (s @ CHR '':'' # rest) = Some (s, rest)"
proof -
  have "takeWhile scheme_char (s @ CHR '':'' # rest) = s"
    using assms(1) by (induction s) (auto simp: scheme_char_def alnum_def)
  with assms show ?thesis by (cases s) (auto simp: get_scheme_def)
qed

lemma parse_query_part_fst: "fst (parse_query_part rest u) = before (CHR ''?'') rest"
proof (cases "has_suffix rest ''?'' \<and> count_list rest (CHR ''?'') = 1")
  case True
  then obtain pre where pre: "rest = pre @ ''?''" by (auto simp: has_suffix_def suffix_def)
  with True have "CHR ''?'' \<notin> set pre" by (simp add: count_list_0_iff)
  with True pre show ?thesis by (simp add: parse_query_part_def cut_simps)
qed (auto simp: parse_query_part_def)

lemma parse_query_part_snd:
  "uScheme (snd (parse_query_part rest u)) = uScheme u" "uHost (snd (parse_query_part rest u)) = uHost u"
  by (simp_all add: parse_query_part_def)

lemma parse_hier_authority:
  assumes "uScheme v \<noteq> []"
  shows "parse_hier (''//'' @ auth @ path) v = Some u \<Longrightarrow> CHR ''/'' \<notin> set auth \<Longrightarrow> path = [] \<or> hd path = CHR ''/'' \<Longrightarrow>
      uScheme u = uScheme v \<and> parse_authority auth = Some (uUser u, uHost u)"
    and "parse_hier h v = Some u \<Longrightarrow> uHost u \<noteq> [] \<Longrightarrow> uHost v = [] \<Longrightarrow>
      \<exists>auth path. h = ''//'' @ auth @ path \<and> CHR ''/'' \<notin> set auth \<and> (path = [] \<or> hd path = CHR ''/'') \<and>
        uScheme u = uScheme v \<and> parse_authority auth = Some (uUser u, uHost u)"
proof -
  assume parse: "parse_hier (''//'' @ auth @ path) v = Some u" and auth: "CHR ''/'' \<notin> set auth"
    and path: "path = [] \<or> hd path = CHR ''/''"
  have "takeWhile (\<lambda>c. c \<noteq> CHR ''/'') (auth @ path) = auth"
    using path auth takeWhile_append_sep [of "CHR ''/''" auth "tl path"]
    by (cases path) (auto simp: takeWhile_eq_all_conv)
  then show "uScheme u = uScheme v \<and> parse_authority auth = Some (uUser u, uHost u)"
    using parse assms by (auto simp: parse_hier_def Let_def has_prefix_def dest!: set_path_sel split: option.splits)
next
  assume parse: "parse_hier h v = Some u" and host: "uHost u \<noteq> []" "uHost v = []"
  let ?auth = "takeWhile (\<lambda>c. c \<noteq> CHR ''/'') (drop 2 h)"
  have "h = ''//'' @ drop 2 h" if "has_prefix h ''//''" using that by (auto simp: has_prefix_def prefix_def)
  moreover have "drop 2 h = ?auth @ drop (length ?auth) (drop 2 h)"
    by (metis takeWhile_dropWhile_id dropWhile_eq_drop)
  moreover have "drop (length ?auth) (drop 2 h) = [] \<or> hd (drop (length ?auth) (drop 2 h)) = CHR ''/''"
    using hd_dropWhile [of "\<lambda>c. c \<noteq> CHR ''/''" "drop 2 h"] unfolding dropWhile_eq_drop by blast
  moreover have "CHR ''/'' \<notin> set ?auth" by (auto dest: set_takeWhileD)
  moreover have "has_prefix h ''//'' \<and> uScheme u = uScheme v \<and> parse_authority ?auth = Some (uUser u, uHost u)"
    using parse host assms
    by (auto simp: parse_hier_def Let_def dest!: set_path_sel split: if_splits option.splits)
  ultimately show "\<exists>auth path. h = ''//'' @ auth @ path \<and> CHR ''/'' \<notin> set auth \<and> (path = [] \<or> hd path = CHR ''/'') \<and>
        uScheme u = uScheme v \<and> parse_authority auth = Some (uUser u, uHost u)"
    by metis
qed

lemma url_parse_parts:
  assumes "url_parse raw = Some u" "before (CHR ''#'') raw \<noteq> ''*''"
  obtains s rest v u0 where "get_scheme (before (CHR ''#'') raw) = Some (s, rest)"
    "parse_hier (before (CHR ''?'') rest) v = Some u0" "uScheme v = to_lower s" "uHost v = []"
    "uScheme u = uScheme v" "uHost u = uHost u0" "uUser u = uUser u0"
proof -
  from assms(1) obtain u0 where u0: "parse_url (before (CHR ''#'') raw) = Some u0"
    "uScheme u = uScheme u0" "uHost u = uHost u0" "uUser u = uUser u0" by (rule url_parse_url)
  from parse_url_Some [OF u0(1) assms(2)] obtain s rest where s: "get_scheme (before (CHR ''#'') raw) = Some (s, rest)"
    "parse_hier (fst (parse_query_part rest (emptyURL\<lparr>uScheme := to_lower s\<rparr>)))
       (snd (parse_query_part rest (emptyURL\<lparr>uScheme := to_lower s\<rparr>))) = Some u0" .
  let ?v = "snd (parse_query_part rest (emptyURL\<lparr>uScheme := to_lower s\<rparr>))"
  have v: "uScheme ?v = to_lower s" "uHost ?v = []"
    by (simp_all add: parse_query_part_snd emptyURL_def)
  have "uScheme u0 = uScheme ?v"
    using s(2) by (auto simp: parse_hier_def Let_def dest!: set_path_sel split: if_splits option.splits)
  with s u0 v show thesis by (auto intro!: that simp: parse_query_part_fst)
qed

lemma url_parse_star: "url_parse raw = Some u \<Longrightarrow> uScheme u \<noteq> [] \<Longrightarrow> before (CHR ''#'') raw \<noteq> ''*''"
  by (auto simp: url_parse_def parse_url_def emptyURL_def set_fragment_def ctl_byte_def split: if_splits)

lemma url_parse_text:
  assumes "url_parse raw = Some u" "uScheme u \<noteq> []" "uHost u \<noteq> []"
  obtains s auth rest where "url_text s auth rest raw" "uScheme u = to_lower s"
    "parse_authority auth = Some (uUser u, uHost u)"
proof -
  from assms(1) url_parse_star [OF assms(1,2)]
  obtain s rest v u0 where p: "get_scheme (before (CHR ''#'') raw) = Some (s, rest)"
    "parse_hier (before (CHR ''?'') rest) v = Some u0" "uScheme v = to_lower s" "uHost v = []"
    "uScheme u = uScheme v" "uHost u = uHost u0" "uUser u = uUser u0" by (rule url_parse_parts)
  from p assms(2) have nonempty: "s \<noteq> []" by auto
  note s = get_scheme_split [OF p(1) this]
  from parse_hier_authority(2) [OF _ p(2) _ p(4)] p assms(2,3)
  obtain auth path where a: "before (CHR ''?'') rest = ''//'' @ auth @ path" "CHR ''/'' \<notin> set auth"
    "path = [] \<or> hd path = CHR ''/''" "uScheme u0 = uScheme v" "parse_authority auth = Some (uUser u0, uHost u0)"
    by auto
  define tail where "tail = path @ (if CHR ''?'' \<in> set rest then CHR ''?'' # after (CHR ''?'') rest else []) @
    (if CHR ''#'' \<in> set raw then CHR ''#'' # after (CHR ''#'') raw else [])"
  have "rest = ''//'' @ auth @ path @ (if CHR ''?'' \<in> set rest then CHR ''?'' # after (CHR ''?'') rest else [])"
    using before_after [of rest "CHR ''?''"] a(1) by simp
  then have "raw = s @ ''://'' @ auth @ tail"
    using before_after [of raw "CHR ''#''"] s unfolding tail_def by (metis append_Cons append_assoc append_Nil)
  moreover have "set auth \<subseteq> set rest" using arg_cong [OF a(1), of set] by (auto simp: before_def dest: set_takeWhileD)
  then have "set auth \<inter> set ''/?#'' = {}"
    using a(1,2) s before_free [of "CHR ''?''" rest] before_free [of "CHR ''#''" raw] by auto
  moreover have "tail = [] \<or> hd tail \<in> set ''/?#''"
    using a(3) by (auto simp: tail_def hd_append)
  ultimately have "url_text s auth tail raw"
    using s nonempty by (simp add: url_text_def)
  with a p show thesis by (intro that) auto
qed

lemma url_parse_joined:
  assumes "url_text s auth rest raw" "url_parse raw = Some u"
  shows "uScheme u = to_lower s \<and> parse_authority auth = Some (uUser u, uHost u)"
proof -
  from assms(1) have raw: "raw = s @ ''://'' @ auth @ rest" and s: "list_all scheme_char s" "s \<noteq> []" "alnum (hd s)"
      "digit_val (hd s) = None" and auth: "set auth \<inter> set ''/?#'' = {}" and rest: "rest = [] \<or> hd rest \<in> set ''/?#''"
    by (auto simp: url_text_def)
  have "CHR ''#'' \<notin> set s" using s(1) by (auto simp: list_all_iff scheme_char_def alnum_def)
  with auth have head: "before (CHR ''#'') raw = s @ CHR '':'' # ''//'' @ auth @ before (CHR ''#'') rest"
    using before_append [of "CHR ''#''" "s @ ''://'' @ auth" rest] unfolding raw by auto
  note scheme = get_scheme_join [OF s, of "''//'' @ auth @ before (CHR ''#'') rest"]
  from s(2) have "before (CHR ''#'') raw \<noteq> ''*''" by (cases s) (auto simp: head)
  with assms(2) obtain s' rest' v u0 where p: "get_scheme (before (CHR ''#'') raw) = Some (s', rest')"
    "parse_hier (before (CHR ''?'') rest') v = Some u0" "uScheme v = to_lower s'" "uHost v = []"
    "uScheme u = uScheme v" "uHost u = uHost u0" "uUser u = uUser u0" by (rule url_parse_parts)
  then have s': "s' = s" "rest' = ''//'' @ auth @ before (CHR ''#'') rest" using scheme head by auto
  have "before (CHR ''?'') rest' = ''//'' @ auth @ before (CHR ''?'') (before (CHR ''#'') rest)"
    using auth before_append [of "CHR ''?''" "''//'' @ auth"] unfolding s' by auto
  moreover have "before (CHR ''?'') (before (CHR ''#'') rest) = [] \<or>
      hd (before (CHR ''?'') (before (CHR ''#'') rest)) = CHR ''/''"
    using rest by (cases rest) (auto simp: before_def)
  moreover have "to_lower s \<noteq> []" using s(2) by (cases s) auto
  ultimately show ?thesis
    using parse_hier_authority(1) [of v auth "before (CHR ''?'') (before (CHR ''#'') rest)" u0] p s' auth by auto
qed

lemma get_scheme_length: "get_scheme raw = Some (s, rest) \<Longrightarrow> length rest \<le> length raw"
  by (auto simp: get_scheme_def Let_def dest!: arg_cong [of _ "_ # _" length] split: list.splits if_splits)

lemma after_shorter: "after sep s \<noteq> [] \<Longrightarrow> length (after sep s) < length s"
  using length_dropWhile_le [of "\<lambda>c. c \<noteq> sep" s] by (auto simp: after_def)

lemma parse_hier_RawQuery: "parse_hier rest w = Some u \<Longrightarrow> uRawQuery u = uRawQuery w"
  by (auto simp: parse_hier_def Let_def dest!: set_path_sel split: if_splits option.splits)

end
