(* ===== verification/Routing.thy ===== *)
theory Routing
  imports Go_Url Gateway Boundary
begin

text \<open>
  Where Plex credentials travel: the origin client that refuses to follow a redirect away from the
  configured server (\<^verbatim>\<open>internal/origin\<close>), the delegation call that exchanges a caller's
  token for a transient one (\<^verbatim>\<open>internal/delegation\<close>), the direct media location a client is
  sent to (\<^verbatim>\<open>internal/routing\<close>), the redaction of URLs in logs (\<^verbatim>\<open>internal/logging\<close>)
  and the resolver that composes them, with its ring of traced decisions (\<^verbatim>\<open>internal/spike\<close>).
  The answers of the origin and the XML decoder are arguments.
\<close>

section \<open>The origin client\<close>

datatype origin_error = InvalidBase | CrossOrigin | TooManyRedirects | TransportFailed

definition sameOrigin :: "url \<Rightarrow> url \<Rightarrow> bool" where
  "sameOrigin base u \<longleftrightarrow> equal_fold (uScheme u) (uScheme base) \<and> equal_fold (uHost u) (uHost base)"

definition CheckRedirect :: "url \<Rightarrow> url \<Rightarrow> url list \<Rightarrow> origin_error option" where
  "CheckRedirect base req via =
    (if length via = 0 then None
     else if \<not> sameOrigin base req then Some CrossOrigin
     else if 5 \<le> length via then Some TooManyRedirects
     else None)"

text \<open>The client is bound to its base URL by the closure of \<open>CheckRedirect\<close>.\<close>

definition APIClient :: "string \<Rightarrow> origin_error + url" where
  "APIClient baseURL =
    (case url_parse baseURL of
       None \<Rightarrow> Inl InvalidBase
     | Some base \<Rightarrow> if uScheme base = [] \<or> uHost base = [] then Inl InvalidBase else Inr base)"

text \<open>
  \<^verbatim>\<open>http.Client.Do\<close>: each URL is asked in turn, a redirect is followed when the client's
  \<open>CheckRedirect\<close> allows it. The first result lists the URLs that were sent the request.
\<close>

datatype 'a hop = Final 'a | RedirectTo url | HopFailed

function client_do :: "url \<Rightarrow> (url \<Rightarrow> 'a hop) \<Rightarrow> url list \<Rightarrow> url \<Rightarrow> url list \<times> (origin_error + 'a)" where
  "client_do base ask via u =
    (let sent = via @ [u] in
     case ask u of
       Final a \<Rightarrow> (sent, Inr a)
     | HopFailed \<Rightarrow> (sent, Inl TransportFailed)
     | RedirectTo v \<Rightarrow>
         (case CheckRedirect base v sent of
            Some e \<Rightarrow> (sent, Inl e)
          | None \<Rightarrow> client_do base ask sent v))"
  by pat_completeness auto
termination
  by (relation "measure (\<lambda>(base, ask, via, u). 6 - length via)")
     (auto simp: CheckRedirect_def split: if_splits)

declare client_do.simps [simp del]

section \<open>Delegation\<close>

datatype fetch_error = NoCallerToken | BadTarget | RequestFailed origin_error | BadStatus int
  | BodyFailed | NoTransientToken

abbreviation "delegationPath \<equiv> ''/security/token?type=delegation&scope=all''"

definition FetchWithClient ::
  "(string \<Rightarrow> string option) \<Rightarrow> url \<Rightarrow> (string \<Rightarrow> url \<Rightarrow> (int \<times> string option) hop) \<Rightarrow> string \<Rightarrow> string
    \<Rightarrow> url list \<times> (fetch_error + string)" where
  "FetchWithClient xmlToken base ask originBase userToken =
    (if userToken = [] then ([], Inl NoCallerToken)
     else (case url_parse (trim_suffix originBase ''/'' @ delegationPath) of
             None \<Rightarrow> ([], Inl BadTarget)
           | Some u \<Rightarrow>
               (let (sent, answer) = client_do base (ask userToken) [] u in
                (sent,
                 case answer of
                   Inl e \<Rightarrow> Inl (RequestFailed e)
                 | Inr (status, body) \<Rightarrow>
                     if status < 200 \<or> 300 \<le> status then Inl (BadStatus status)
                     else (case body of
                             None \<Rightarrow> Inl BodyFailed
                           | Some b \<Rightarrow>
                               (case xmlToken (limit_read 65536 b) of
                                  None \<Rightarrow> Inl NoTransientToken
                                | Some t \<Rightarrow> if t = [] then Inl NoTransientToken else Inr t))))))"

definition Fetch ::
  "(string \<Rightarrow> string option) \<Rightarrow> (string \<Rightarrow> url \<Rightarrow> (int \<times> string option) hop) \<Rightarrow> string \<Rightarrow> string
    \<Rightarrow> url list \<times> (fetch_error + string)" where
  "Fetch xmlToken ask originBase userToken =
    (case APIClient originBase of
       Inl e \<Rightarrow> ([], Inl (RequestFailed e))
     | Inr base \<Rightarrow> FetchWithClient xmlToken base ask originBase userToken)"

section \<open>Direct media locations\<close>

datatype routing_error = PathNotAbsolute | InvalidOrigin | OriginNotHttps | OriginNoHost
  | OriginPointsBack | TokenRequired | InvalidPath | PathNotRelative | EscapedOrigin

definition BuildDirectOriginURL :: "string \<Rightarrow> string \<Rightarrow> string \<Rightarrow> string \<Rightarrow> routing_error + string" where
  "BuildDirectOriginURL originBase partPath token replxPublicHost =
    (if \<not> has_prefix partPath ''/'' then Inl PathNotAbsolute
     else (case url_parse originBase of
       None \<Rightarrow> Inl InvalidOrigin
     | Some base \<Rightarrow>
         if uScheme base \<noteq> ''https'' then Inl OriginNotHttps
         else if uHost base = [] then Inl OriginNoHost
         else if replxPublicHost \<noteq> [] \<and> equal_fold (hostname base) replxPublicHost then Inl OriginPointsBack
         else if token = [] then Inl TokenRequired
         else (case url_parse partPath of
             None \<Rightarrow> Inl InvalidPath
           | Some ref \<Rightarrow>
               if uScheme ref \<noteq> [] \<or> uHost ref \<noteq> [] \<or> uOpaque ref \<noteq> [] then Inl PathNotRelative
               else
                 (let target = resolve_reference base ref in
                  if \<not> equal_fold (hostname target) (hostname base) \<or>
                     \<not> equal_fold (uScheme target) (uScheme base) then Inl EscapedOrigin
                  else Inr (print_url
                    (target\<lparr>uRawQuery := values_encode (values_set (url_values target) ''X-Plex-Token'' token)\<rparr>))))))"

text \<open>\<^verbatim>\<open>q.Has(k)\<close> and the redaction of one key.\<close>

definition redactKey :: "string \<Rightarrow> multimap \<Rightarrow> multimap" where
  "redactKey k q = (if map_of q k \<noteq> None then values_set q k ''REDACTED'' else q)"

definition RedactedLocation :: "string \<Rightarrow> string" where
  "RedactedLocation location =
    (case url_parse location of
       None \<Rightarrow> ''<unparseable-location>''
     | Some u \<Rightarrow>
         print_url (u\<lparr>uRawQuery :=
           values_encode (fold redactKey [''X-Plex-Token'', ''token'', ''authToken''] (url_values u))\<rparr>))"

section \<open>Redaction of log lines\<close>

definition RedactedHeaders :: "string list" where
  "RedactedHeaders = [''X-Plex-Token'', ''Authorization'', ''Cookie'', ''Set-Cookie'', ''X-Owner-JWT'',
     ''X-PMS-Token'', ''X-Tunnel-Token'', ''X-Replx-Edge-Secret'', ''Replx-Edge-Secret-Key'']"

definition RedactedQueryParams :: "string list" where
  "RedactedQueryParams = [''X-Plex-Token'', ''X-Plex-Token '', ''Token'', ''token'', ''AuthToken'',
     ''authtoken'', ''authToken'', ''ownerJWT'', ''owner_jwt'', ''pmsToken'', ''pms_token'',
     ''tunnelToken'', ''tunnel_token'', ''secretKey'', ''secret_key'']"

definition canonicalHeader :: "string \<Rightarrow> string" where
  "canonicalHeader k = (case find (equal_fold k) RedactedHeaders of Some red \<Rightarrow> red | None \<Rightarrow> k)"

definition RedactHeaders :: "(string \<times> string) list \<Rightarrow> (string \<times> string) list" where
  "RedactHeaders h =
    map (\<lambda>(k, v). (k, if canonicalHeader k \<in> set RedactedHeaders then ''REDACTED'' else v)) h"

definition sensitiveParam :: "string \<Rightarrow> bool" where
  "sensitiveParam k \<longleftrightarrow> list_ex (equal_fold k) RedactedQueryParams"

definition redactParams :: "multimap \<Rightarrow> multimap" where
  "redactParams q = map (\<lambda>(k, vs). (k, if sensitiveParam k then [''REDACTED''] else vs)) q"

definition RedactURLString :: "string \<Rightarrow> string" where
  "RedactURLString raw =
    (case url_parse raw of
       None \<Rightarrow>
         if list_ex (\<lambda>c. c \<in> set ''?#'') raw
         then takeWhile (\<lambda>c. c \<notin> set ''?#'') raw @ ''?REDACTED'' else raw
     | Some u \<Rightarrow>
         if uRawQuery u = [] then raw
         else if list_ex (\<lambda>(k, vs). sensitiveParam k) (url_values u)
         then print_url (u\<lparr>uRawQuery := values_encode (redactParams (url_values u))\<rparr>) else raw)"

text \<open>A field of a log entry is a string or a value of another type.\<close>

datatype log_field = Str string | Other

record log_entry =
  lePath :: string
  leFields :: "(string \<times> log_field) list"

definition sensitiveField :: "string \<Rightarrow> bool" where
  "sensitiveField k \<longleftrightarrow>
    list_ex (contains (to_lower k)) [''token'', ''secret'', ''password'', ''cookie'', ''authorization'', ''set-cookie'']"

definition looksLikeTokenURL :: "string \<Rightarrow> bool" where
  "looksLikeTokenURL s \<longleftrightarrow>
    CHR ''?'' \<in> set s \<and> contains (before (CHR ''?'') s) ''/'' \<and>
    list_ex (contains (to_lower (dropWhile (\<lambda>c. c \<noteq> CHR ''?'') s))) [''token'', ''secret'', ''password'', ''auth'']"

text \<open>What \<^verbatim>\<open>Logger.Log\<close> encodes, the timestamp apart.\<close>

definition Log :: "log_entry \<Rightarrow> log_entry" where
  "Log e =
    \<lparr>lePath = RedactURLString (lePath e),
     leFields = map (\<lambda>(k, v). (k,
       if sensitiveField k then Str ''REDACTED''
       else (case v of Str s \<Rightarrow> if s \<noteq> [] \<and> looksLikeTokenURL s then Str (RedactURLString s) else v
             | Other \<Rightarrow> v))) (leFields e)\<rparr>"

section \<open>The redirect resolver\<close>

datatype reason = NoReason | Because string | DelegationFailed fetch_error | RoutingFailed routing_error

record Event =
  evTimestamp :: string
  evRequestID :: string
  evSessionID :: string
  evPlaybackTraceID :: string
  evMethod :: string
  evPath :: string
  evClient :: string
  evDecision :: string
  evRedactedLocation :: string
  evRangePresent :: bool
  evReason :: reason

record ResolveContext =
  rcRequestID :: string
  rcSessionID :: string
  rcPlaybackTraceID :: string

definition maxEvents :: nat where
  "maxEvents = 200"

record spike_store =
  ssPartPolicy :: "(request \<Rightarrow> string \<Rightarrow> string \<Rightarrow> verdict) option"
  ssPublicHost :: string
  ssEvents :: "Event list"

text \<open>The surroundings of one call: the server row, the delegation service and the clock.\<close>

record spike_world =
  swDB :: bool
  swServerRow :: "(string option \<times> string option) option"
  swFetchTransient :: "string \<Rightarrow> string \<Rightarrow> fetch_error + string"
  swStamp :: string

definition LookupOrigins :: "spike_world \<Rightarrow> (string \<times> string) option" where
  "LookupOrigins w =
    (if \<not> swDB w then None
     else (case swServerRow w of
             Some (Some media, Some internal) \<Rightarrow>
               if media = [] \<or> internal = [] then None else Some (media, internal)
           | _ \<Rightarrow> None))"

definition recordEvent :: "spike_world \<Rightarrow> Event \<Rightarrow> spike_store \<Rightarrow> spike_store" where
  "recordEvent w e s =
    (let evs = ssEvents s @ [e\<lparr>evTimestamp := swStamp w\<rparr>] in
     s\<lparr>ssEvents := (if maxEvents < length evs then drop (length evs - maxEvents) evs else evs)\<rparr>)"

definition Events :: "spike_store \<Rightarrow> Event list" where
  "Events s = ssEvents s"

definition spikeEventBase :: "request \<Rightarrow> url \<Rightarrow> ResolveContext \<Rightarrow> Event" where
  "spikeEventBase r u ctx =
    \<lparr>evTimestamp = [], evRequestID = rcRequestID ctx, evSessionID = rcSessionID ctx,
     evPlaybackTraceID = rcPlaybackTraceID ctx, evMethod = Method r,
     evPath = RedactURLString (request_uri u),
     evClient = header_get (Header r) ''X-Plex-Client-Identifier'', evDecision = [],
     evRedactedLocation = [], evRangePresent = header_get (Header r) ''Range'' \<noteq> [], evReason = NoReason\<rparr>"

definition unavailable :: "spike_world \<Rightarrow> Event \<Rightarrow> reason \<Rightarrow> spike_store \<Rightarrow> spike_store \<times> string option" where
  "unavailable w base why s =
    (recordEvent w (base\<lparr>evDecision := ''unavailable'', evReason := why\<rparr>) s, None)"

text \<open>The boundary hook: the request target to redirect to, or the reason of a denial.\<close>

definition boundedTarget :: "request \<Rightarrow> url \<Rightarrow> spike_store \<Rightarrow> string + (string \<times> bool)" where
  "boundedTarget r u s =
    (let uri = request_uri u; partID = PartIDFromPath (URLPath r) in
     case ssPartPolicy s of
       None \<Rightarrow> Inr (uri, False)
     | Some hook \<Rightarrow>
         if partID = [] \<and> \<not> IsBulkMediaRoute (URLPath r) then Inr (uri, False)
         else (case hook r partID (ExtractSession r) of
                 (substitute, deny, why) \<Rightarrow>
                   if deny then Inl (if why = [] then ''part boundary denied'' else why)
                   else if substitute = [] then Inr (uri, False)
                   else Inr (substitute @
                     (if RawQuery r \<noteq> [] \<and> CHR ''?'' \<notin> set substitute then CHR ''?'' # RawQuery r else []), True)))"

text \<open>\<open>u\<close> is the parsed target of the request, \<^verbatim>\<open>r.URL\<close>.\<close>

definition ResolveMedia ::
  "spike_world \<Rightarrow> request \<Rightarrow> url \<Rightarrow> ResolveContext \<Rightarrow> spike_store \<Rightarrow> spike_store \<times> string option" where
  "ResolveMedia w r u ctx s =
    (let base = spikeEventBase r u ctx; userToken = ExtractToken r in
     case LookupOrigins w of
       None \<Rightarrow> unavailable w base (Because ''no onboarded media origin'') s
     | Some (mediaOrigin, internalOrigin) \<Rightarrow>
         if userToken = [] then unavailable w base (Because ''no user token presented'') s
         else (case boundedTarget r u s of
             Inl why \<Rightarrow> unavailable w base (Because why) s
           | Inr (uri, substituted) \<Rightarrow>
               (case swFetchTransient w internalOrigin userToken of
                  Inl e \<Rightarrow> unavailable w base (DelegationFailed e) s
                | Inr transient \<Rightarrow>
                    (case BuildDirectOriginURL mediaOrigin uri transient (ssPublicHost s) of
                       Inl e \<Rightarrow> unavailable w base (RoutingFailed e) s
                     | Inr loc \<Rightarrow>
                         (recordEvent w (base\<lparr>evDecision := (if substituted then ''substituted'' else ''redirected''),
                            evRedactedLocation := RedactedLocation loc\<rparr>) s, Some loc)))))"

section \<open>The origin client stays at its origin\<close>

lemma client_do_spec:
  "client_do base ask via u = (sent, out) \<Longrightarrow> length via < 5 \<Longrightarrow>
    \<exists>rest. sent = via @ u # rest \<and> (\<forall>v \<in> set rest. sameOrigin base v) \<and> length sent \<le> 5"
proof (induction base ask via u rule: client_do.induct)
  case (1 base ask via u)
  show ?case
  proof (cases "\<exists>v. ask u = RedirectTo v \<and> CheckRedirect base v (via @ [u]) = None")
    case True
    then obtain v where v: "ask u = RedirectTo v" "CheckRedirect base v (via @ [u]) = None" by blast
    then have "client_do base ask (via @ [u]) v = (sent, out)"
      using "1.prems"(1) by (simp add: client_do.simps [of base ask via])
    moreover have "length (via @ [u]) < 5" "sameOrigin base v"
      using v(2) by (auto simp: CheckRedirect_def split: if_splits)
    ultimately show ?thesis using "1.IH" v by fastforce
  next
    case False
    with "1.prems" show ?thesis
      by (auto simp: client_do.simps [of base ask via] Let_def split: hop.splits option.splits)
  qed
qed

section \<open>Locations stay at the configured origin\<close>

lemma fold_case_Nil: "fold_case s = [] \<longleftrightarrow> s = []"
  by (cases s rule: fold_case.cases) auto

lemma hostname_no_host: "uHost u = [] \<Longrightarrow> hostname u = []"
  by (simp add: hostname_def cut_last_def has_prefix_def)

lemma set_path_quiet_sel [simp]:
  "uScheme (set_path_quiet p u) = uScheme u" "uOpaque (set_path_quiet p u) = uOpaque u"
  "uUser (set_path_quiet p u) = uUser u" "uHost (set_path_quiet p u) = uHost u"
  "uRawQuery (set_path_quiet p u) = uRawQuery u" "uFragment (set_path_quiet p u) = uFragment u"
  by (auto simp: set_path_quiet_def dest: set_path_sel split: option.splits)

lemma parse_opaque: "url_parse raw = Some u \<Longrightarrow> uHost u \<noteq> [] \<Longrightarrow> uOpaque u = []"
proof -
  have hier: "parse_hier rest v = Some u \<Longrightarrow> uHost u \<noteq> [] \<Longrightarrow> uOpaque v = [] \<Longrightarrow> uHost v = [] \<Longrightarrow> uOpaque u = []"
    for rest v u
    by (auto simp: parse_hier_def Let_def dest!: set_path_sel split: if_splits option.splits)
  have "parse_url raw = Some u \<Longrightarrow> uHost u \<noteq> [] \<Longrightarrow> uOpaque u = []" for raw u
    by (auto simp: parse_url_def parse_query_part_def emptyURL_def dest!: hier split: if_splits option.splits)
  then show "url_parse raw = Some u \<Longrightarrow> uHost u \<noteq> [] \<Longrightarrow> uOpaque u = []"
    by (auto simp: url_parse_def set_fragment_def split: option.splits if_splits)
qed

lemma resolve_reference_sel:
  assumes "uScheme ref = []" "uHost ref = []" "uUser ref = None" "uOpaque ref = []" "uOpaque base = []"
  shows "uScheme (resolve_reference base ref) = uScheme base" "uHost (resolve_reference base ref) = uHost base"
    "uUser (resolve_reference base ref) = uUser base" "uOpaque (resolve_reference base ref) = []"
    "uRawQuery ref \<noteq> [] \<Longrightarrow> uRawQuery (resolve_reference base ref) = uRawQuery ref"
  using assms by (simp_all add: resolve_reference_def Let_def)

text \<open>The cases in which a location is built, with the parsed origin and the parsed target.\<close>

lemma BuildDirectOriginURL_Inr:
  assumes "BuildDirectOriginURL originBase partPath token public = Inr loc"
    and "url_parse originBase = Some base" and "hostname base \<noteq> []"
  obtains ref target where "url_parse partPath = Some ref" "target = resolve_reference base ref"
    "uScheme target = ''https''" "uHost target = uHost base" "uUser target = uUser base" "uOpaque target = []"
    "uHost base \<noteq> []" "uRawQuery ref \<noteq> [] \<longrightarrow> uRawQuery target = uRawQuery ref" "token \<noteq> []"
    "public = [] \<or> \<not> equal_fold (hostname base) public"
    "loc = print_url (target\<lparr>uRawQuery := values_encode (values_set (url_values target) ''X-Plex-Token'' token)\<rparr>)"
proof -
  from assms(1,2) obtain ref where ref: "url_parse partPath = Some ref" "uScheme ref = []" "uHost ref = []"
    "uOpaque ref = []" and base: "uScheme base = ''https''" "uHost base \<noteq> []"
    and rest: "token \<noteq> []" "public = [] \<or> \<not> equal_fold (hostname base) public"
    and host: "equal_fold (hostname (resolve_reference base ref)) (hostname base)"
    and loc: "loc = print_url (resolve_reference base ref
      \<lparr>uRawQuery := values_encode (values_set (url_values (resolve_reference base ref)) ''X-Plex-Token'' token)\<rparr>)"
    by (auto simp: BuildDirectOriginURL_def Let_def split: if_splits option.splits)
  have user: "uUser ref = None"
  proof (rule ccontr)
    assume "uUser ref \<noteq> None"
    with ref have "uHost (resolve_reference base ref) = []" by (simp add: resolve_reference_def Let_def)
    then have "hostname (resolve_reference base ref) = []" by (rule hostname_no_host)
    with host assms(3) show False by (simp add: equal_fold_def fold_case_Nil) (metis fold_case.simps(1) fold_case_Nil)
  qed
  note sel = resolve_reference_sel [OF ref(2,3) user ref(4) parse_opaque [OF assms(2) base(2)]]
  show thesis
    by (rule that [OF ref(1) refl]) (use sel base rest loc in auto)
qed

text \<open>A URL with a host prints as scheme, authority, path and query, each delimited.\<close>

lemma print_url_parts:
  assumes "uScheme u \<noteq> []" "uHost u \<noteq> []" "uOpaque u = []"
  obtains path frag where
    "\<forall>q. q \<noteq> [] \<longrightarrow> print_url (u\<lparr>uRawQuery := q\<rparr>) =
       uScheme u @ ''://'' @ authority_string u @ path @ CHR ''?'' # q @ frag"
    "path = [] \<or> hd path = CHR ''/''" "CHR ''?'' \<notin> set path" "CHR ''#'' \<notin> set path"
    "frag = [] \<or> (\<exists>f. frag = CHR ''#'' # f)"
proof -
  let ?path = "(if escaped_path u \<noteq> [] \<and> hd (escaped_path u) \<noteq> CHR ''/'' then ''/'' else []) @ escaped_path u"
  let ?frag = "if uFragment u \<noteq> [] then CHR ''#'' # escaped_fragment u else []"
  have same: "escaped_path (u\<lparr>uRawQuery := q\<rparr>) = escaped_path u"
    "escaped_fragment (u\<lparr>uRawQuery := q\<rparr>) = escaped_fragment u"
    "authority_string (u\<lparr>uRawQuery := q\<rparr>) = authority_string u" for q
    by (simp_all add: escaped_path_def escaped_fragment_def authority_string_def)
  have "url_hier (u\<lparr>uRawQuery := q\<rparr>) = uScheme u @ ''://'' @ authority_string u @ ?path" for q
    using assms by (simp add: url_hier_def url_authority_def Let_def same)
  then have "\<forall>q. q \<noteq> [] \<longrightarrow> print_url (u\<lparr>uRawQuery := q\<rparr>) =
      uScheme u @ ''://'' @ authority_string u @ ?path @ CHR ''?'' # q @ ?frag"
    by (simp add: print_url_def same)
  moreover have "CHR ''?'' \<notin> set ?path" "CHR ''#'' \<notin> set ?path"
    using escaped_path_clean [of "CHR ''?''" u] escaped_path_clean [of "CHR ''#''" u] by auto
  ultimately show thesis
    by (intro that [of ?path ?frag]) auto
qed

end
