(* ===== verification/Routing_Safety.thy ===== *)
theory Routing_Safety
  imports Routing
begin

text \<open>
  What the redirect resolver and the origin client guarantee: a credential is sent to the configured
  server only, a location leads to the configured media origin with the transient token, and the
  traces of a decision do not depend on the token that was minted for it.
\<close>

section \<open>Delegation calls stay at the origin\<close>

lemma url_text_delegation:
  assumes "url_text s auth rest raw" "auth \<noteq> []"
  shows "\<exists>rest'. url_text s auth rest' (trim_suffix raw ''/'' @ CHR ''/'' # p)"
proof (cases "rest = []")
  case True
  with assms have "raw = s @ ''://'' @ auth" "last raw \<noteq> CHR ''/''"
    by (auto simp: url_text_def dest: arg_cong [of "last auth" _ "\<lambda>c. c \<in> set auth"])
  then have "\<not> suffix ''/'' raw" by (metis last_snoc suffix_def)
  with True assms show ?thesis
    by (intro exI [of _ "CHR ''/'' # p"]) (simp add: url_text_def trim_suffix_def)
next
  case False
  define cut where "cut = (if suffix ''/'' raw then butlast rest else rest)"
  have "trim_suffix raw ''/'' = butlast raw" if "suffix ''/'' raw"
    using that by (simp add: trim_suffix_def butlast_conv_take)
  then have "trim_suffix raw ''/'' = s @ ''://'' @ auth @ cut"
    using assms(1) False by (auto simp: url_text_def cut_def butlast_append trim_suffix_def)
  moreover have "cut = [] \<or> hd cut = hd rest" using False by (cases rest) (auto simp: cut_def)
  ultimately show ?thesis
    using assms(1) False by (intro exI [of _ "cut @ CHR ''/'' # p"]) (auto simp: url_text_def hd_append)
qed

lemma parse_authority_Nil: "parse_authority [] = Some (None, [])"
  by (simp add: parse_authority_def cut_last_def parse_host_def has_prefix_def)

lemma delegation_target_origin:
  assumes "url_parse originBase = Some base" "uScheme base \<noteq> []" "uHost base \<noteq> []"
    and "url_parse (trim_suffix originBase ''/'' @ delegationPath) = Some u"
  shows "sameOrigin base u"
proof -
  from assms(1-3) obtain s auth rest where t: "url_text s auth rest originBase" "uScheme base = to_lower s"
    "parse_authority auth = Some (uUser base, uHost base)" by (rule url_parse_text)
  from t(3) assms(3) have "auth \<noteq> []" by (auto simp: parse_authority_Nil)
  from url_text_delegation [OF t(1) this] obtain rest'
    where "url_text s auth rest' (trim_suffix originBase ''/'' @ delegationPath)" by auto
  from url_parse_joined [OF this assms(4)] t show ?thesis by (simp add: sameOrigin_def)
qed

text \<open>
  C30. The delegation call sends the caller's token to the configured origin and nowhere else: whatever
  redirects the server answers with, every URL that receives the request has the scheme and host
  of the origin's base URL, at most five URLs receive it, nothing is sent for an empty token,
  and a token is returned only when it is not empty.
\<close>
theorem Fetch_stays_at_origin:
  assumes "Fetch xmlToken ask originBase userToken = (sent, out)"
  shows "(\<forall>v \<in> set sent. \<exists>base. url_parse originBase = Some base \<and> sameOrigin base v) \<and>
    length sent \<le> 5 \<and> (sent \<noteq> [] \<longrightarrow> userToken \<noteq> []) \<and> out \<noteq> Inr []"
proof (cases "APIClient originBase")
  case (Inr base)
  then have base: "url_parse originBase = Some base" "uScheme base \<noteq> []" "uHost base \<noteq> []"
    by (auto simp: APIClient_def split: option.splits if_splits)
  show ?thesis
  proof (cases "userToken = [] \<or> url_parse (trim_suffix originBase ''/'' @ delegationPath) = None")
    case False
    then obtain u where u: "url_parse (trim_suffix originBase ''/'' @ delegationPath) = Some u" by auto
    obtain answer where "client_do base (ask userToken) [] u = (sent, answer)"
      using assms Inr False u by (auto simp: Fetch_def FetchWithClient_def split: prod.splits)
    from client_do_spec [OF this] delegation_target_origin [OF base u]
    have "\<forall>v \<in> set sent. sameOrigin base v" "length sent \<le> 5" by auto
    moreover have "out \<noteq> Inr []"
      using assms Inr by (auto simp: Fetch_def FetchWithClient_def Let_def split: if_splits option.splits prod.splits sum.splits)
    ultimately show ?thesis using base False by simp
  qed (use assms Inr in \<open>auto simp: Fetch_def FetchWithClient_def split: option.splits if_splits\<close>)
qed (use assms in \<open>auto simp: Fetch_def\<close>)

section \<open>Locations\<close>

text \<open>The query of a built location, as a client or the origin parses it.\<close>

lemma location_query:
  "values_of (parse_query (values_encode (values_set (url_values u) ''X-Plex-Token'' token))) k =
    (if k = ''X-Plex-Token'' then [token] else values_of (url_values u) k)"
proof -
  have "wf_map (values_set (url_values u) ''X-Plex-Token'' token)"
    by (simp add: values_set_def url_values_def wf_map_parse_query)
  from values_of_parse_encode [OF this] show ?thesis by (simp add: values_of_set)
qed

lemma location_query_nonempty: "values_encode (values_set q ''X-Plex-Token'' token) \<noteq> []"
  by (rule values_encode_nonempty [of _ "''X-Plex-Token''"]) (simp add: values_of_set)

text \<open>
  C29. A direct media location leads to the configured origin: it is the text \<open>https://\<close>, the
  authority of the origin's base URL, a path, a query and an optional fragment, and the authority ends where the
  path begins, so no part path can move the transient token to another host. The query carries the
  transient token as its only \<open>X-Plex-Token\<close> and every other parameter of the part path unchanged.
\<close>
theorem BuildDirectOriginURL_at_origin:
  assumes "BuildDirectOriginURL originBase partPath token public = Inr loc"
    and "url_parse originBase = Some base" and "hostname base \<noteq> []"
  shows "\<exists>ref path query frag.
    url_parse partPath = Some ref \<and>
    loc = ''https://'' @ authority_string base @ path @ CHR ''?'' # query @ frag \<and>
    set (authority_string base) \<inter> set ''/?#'' = {} \<and> (path = [] \<or> hd path = CHR ''/'') \<and>
    set path \<inter> set ''?#'' = {} \<and> CHR ''#'' \<notin> set query \<and> (frag = [] \<or> hd frag = CHR ''#'') \<and>
    token \<noteq> [] \<and> (public \<noteq> [] \<longrightarrow> \<not> equal_fold (hostname base) public) \<and>
    values_of (parse_query query) ''X-Plex-Token'' = [token] \<and>
    (uRawQuery ref \<noteq> [] \<longrightarrow> (\<forall>k. k \<noteq> ''X-Plex-Token'' \<longrightarrow>
      values_of (parse_query query) k = values_of (url_values ref) k))"
proof -
  from assms obtain ref target where r: "url_parse partPath = Some ref" "target = resolve_reference base ref"
    "uScheme target = ''https''" "uHost target = uHost base" "uUser target = uUser base" "uOpaque target = []"
    "uHost base \<noteq> []" "uRawQuery ref \<noteq> [] \<longrightarrow> uRawQuery target = uRawQuery ref" "token \<noteq> []"
    "public = [] \<or> \<not> equal_fold (hostname base) public"
    "loc = print_url (target\<lparr>uRawQuery := values_encode (values_set (url_values target) ''X-Plex-Token'' token)\<rparr>)"
    by (rule BuildDirectOriginURL_Inr)
  define query where "query = values_encode (values_set (url_values target) ''X-Plex-Token'' token)"
  have "authority_string target = authority_string base" using r by (simp add: authority_string_def)
  moreover have "uScheme target \<noteq> []" "uHost target \<noteq> []" using r by simp_all
  from print_url_parts [OF this r(6)] obtain path frag where p:
    "\<forall>q. q \<noteq> [] \<longrightarrow> print_url (target\<lparr>uRawQuery := q\<rparr>) =
       uScheme target @ ''://'' @ authority_string target @ path @ CHR ''?'' # q @ frag"
    "path = [] \<or> hd path = CHR ''/''" "CHR ''?'' \<notin> set path" "CHR ''#'' \<notin> set path"
    "frag = [] \<or> (\<exists>f. frag = CHR ''#'' # f)" .
  ultimately have loc: "loc = ''https://'' @ authority_string base @ path @ CHR ''?'' # query @ frag"
    using r(3,11) location_query_nonempty [of "url_values target" token] by (simp add: query_def)
  have query: "values_of (parse_query query) ''X-Plex-Token'' = [token]"
    "uRawQuery ref \<noteq> [] \<longrightarrow> (\<forall>k. k \<noteq> ''X-Plex-Token'' \<longrightarrow>
       values_of (parse_query query) k = values_of (url_values ref) k)"
    using r(8) by (simp_all add: query_def location_query, simp add: url_values_def)
  have clean: "set (authority_string base) \<inter> set ''/?#'' = {}" "set path \<inter> set ''?#'' = {}" "CHR ''#'' \<notin> set query"
    using authority_string_clean [of _ base] p(3,4) values_encode_clean(2) by (auto simp: query_def)
  have ends: "frag = [] \<or> hd frag = CHR ''#''" "public \<noteq> [] \<longrightarrow> \<not> equal_fold (hostname base) public"
    using p(5) r(10) by auto
  show ?thesis
    by (intro exI conjI) (rule r(1) loc clean(1) p(2) clean(2,3) ends(1) r(9) ends(2) query)+
qed

section \<open>Traces do not depend on the minted token\<close>

lemma wf_map_redactKey: "wf_map q \<Longrightarrow> wf_map (redactKey k q)"
  by (simp add: redactKey_def values_set_def)

lemma map_of_redactKey:
  "map_of (redactKey k q) k' = (if k' = k \<and> map_of q k \<noteq> None then Some [''REDACTED''] else map_of q k')"
  by (auto simp: redactKey_def values_set_def map_of_update)

lemma redacted_query_independent:
  "values_encode (fold redactKey [''X-Plex-Token'', ''token'', ''authToken'']
     (parse_query (values_encode (values_set (url_values u) ''X-Plex-Token'' token)))) =
   values_encode (fold redactKey [''X-Plex-Token'', ''token'', ''authToken'']
     (parse_query (values_encode (values_set (url_values u) ''X-Plex-Token'' token'))))"
proof (rule values_encode_cong)
  show "map_of (fold redactKey [''X-Plex-Token'', ''token'', ''authToken'']
     (parse_query (values_encode (values_set (url_values u) ''X-Plex-Token'' token)))) =
    map_of (fold redactKey [''X-Plex-Token'', ''token'', ''authToken'']
     (parse_query (values_encode (values_set (url_values u) ''X-Plex-Token'' token'))))"
    by (rule ext) (simp add: map_of_redactKey map_of_parse_query location_query)
qed (simp_all add: wf_map_redactKey wf_map_parse_query)

lemma RedactedLocation_independent:
  assumes "BuildDirectOriginURL originBase partPath token public = Inr loc"
    and "BuildDirectOriginURL originBase partPath token' public = Inr loc'"
    and "url_parse originBase = Some base" and "hostname base \<noteq> []"
  shows "RedactedLocation loc = RedactedLocation loc'"
proof -
  from assms(1,3,4) obtain ref target where r: "url_parse partPath = Some ref" "target = resolve_reference base ref"
    "uScheme target = ''https''" "uHost target = uHost base" "uUser target = uUser base" "uOpaque target = []"
    "uHost base \<noteq> []" "uRawQuery ref \<noteq> [] \<longrightarrow> uRawQuery target = uRawQuery ref" "token \<noteq> []"
    "public = [] \<or> \<not> equal_fold (hostname base) public"
    "loc = print_url (target\<lparr>uRawQuery := values_encode (values_set (url_values target) ''X-Plex-Token'' token)\<rparr>)"
    by (rule BuildDirectOriginURL_Inr)
  with assms(2-4) have loc':
    "loc' = print_url (target\<lparr>uRawQuery := values_encode (values_set (url_values target) ''X-Plex-Token'' token')\<rparr>)"
    by (auto elim!: BuildDirectOriginURL_Inr)
  have "uScheme target \<noteq> []" "uHost target \<noteq> []" using r by simp_all
  from print_url_parts [OF this r(6)] obtain path frag where p:
    "\<forall>q. q \<noteq> [] \<longrightarrow> print_url (target\<lparr>uRawQuery := q\<rparr>) =
       uScheme target @ ''://'' @ authority_string target @ path @ CHR ''?'' # q @ frag"
    "path = [] \<or> hd path = CHR ''/''" "CHR ''?'' \<notin> set path" "CHR ''#'' \<notin> set path"
    "frag = [] \<or> (\<exists>f. frag = CHR ''#'' # f)" .
  define hier where "hier = ''https://'' @ authority_string target @ path"
  have clean: "CHR ''?'' \<notin> set hier" "CHR ''#'' \<notin> set hier"
    using p(3,4) authority_string_clean [of _ target] by (auto simp: hier_def)
  define red where "red t = (case url_parse (hier @ CHR ''?'' # values_encode (values_set (url_values target) ''X-Plex-Token'' t) @ frag) of
      None \<Rightarrow> ''<unparseable-location>''
    | Some u \<Rightarrow> print_url (u\<lparr>uRawQuery :=
        values_encode (fold redactKey [''X-Plex-Token'', ''token'', ''authToken''] (url_values u))\<rparr>))" for t
  have "red t = (case parse_around hier (drop 1 frag) of None \<Rightarrow> ''<unparseable-location>''
      | Some u \<Rightarrow> print_url (u\<lparr>uRawQuery := values_encode (fold redactKey [''X-Plex-Token'', ''token'', ''authToken'']
          (parse_query (values_encode (values_set (url_values target) ''X-Plex-Token'' t))))\<rparr>))" for t
    unfolding red_def
    by (subst url_parse_query [OF clean location_query_nonempty values_encode_clean(2,3) p(5)])
       (simp add: url_values_def split: option.splits)
  then have "red token = red token'"
    by (simp only: redacted_query_independent [of target token token'])
  moreover have "RedactedLocation loc = red token" "RedactedLocation loc' = red token'"
    using p(1) r(3,11) loc' location_query_nonempty by (simp_all add: RedactedLocation_def red_def hier_def)
  ultimately show ?thesis by simp
qed

lemma BuildDirectOriginURL_any_token:
  assumes "token \<noteq> []" "token' \<noteq> []"
  shows "case BuildDirectOriginURL originBase partPath token public of
      Inl e \<Rightarrow> BuildDirectOriginURL originBase partPath token' public = Inl e
    | Inr loc \<Rightarrow> \<exists>loc'. BuildDirectOriginURL originBase partPath token' public = Inr loc'"
  using assms by (simp add: BuildDirectOriginURL_def Let_def split: option.split)

lemma BuildDirectOriginURL_base:
  "BuildDirectOriginURL originBase partPath token public = Inr loc \<Longrightarrow> \<exists>base. url_parse originBase = Some base"
  by (auto simp: BuildDirectOriginURL_def split: if_splits option.splits)

lemma recordEvent_bounded: "length (ssEvents (recordEvent w e s)) \<le> maxEvents"
  by (simp add: recordEvent_def Let_def maxEvents_def)

text \<open>Two delegation services that succeed and fail alike, but may mint different tokens.\<close>

definition mintAlike :: "(string \<Rightarrow> string \<Rightarrow> fetch_error + string) \<Rightarrow> (string \<Rightarrow> string \<Rightarrow> fetch_error + string) \<Rightarrow> bool" where
  "mintAlike f g \<longleftrightarrow> (\<forall>origin user.
     case f origin user of Inl e \<Rightarrow> g origin user = Inl e
     | Inr t \<Rightarrow> t \<noteq> [] \<and> (\<exists>t'. g origin user = Inr t' \<and> t' \<noteq> []))"

text \<open>
  C31. The trace of a redirect decision hides the minted token: for two delegation services that differ only in the tokens
  they mint, resolving the same request leaves the same events in the ring, redacted locations
  included, and redirects in the same cases. The ring never exceeds two hundred events after a decision.
\<close>
theorem ResolveMedia_trace_hides_token:
  assumes "mintAlike (swFetchTransient w) mint"
    and "\<forall>media internal base. LookupOrigins w = Some (media, internal) \<longrightarrow> url_parse media = Some base \<longrightarrow> hostname base \<noteq> []"
  shows "fst (ResolveMedia (w\<lparr>swFetchTransient := mint\<rparr>) r u ctx s) = fst (ResolveMedia w r u ctx s) \<and>
    (snd (ResolveMedia (w\<lparr>swFetchTransient := mint\<rparr>) r u ctx s) = None \<longleftrightarrow> snd (ResolveMedia w r u ctx s) = None) \<and>
    length (ssEvents (fst (ResolveMedia w r u ctx s))) \<le> maxEvents"
proof -
  let ?w = "w\<lparr>swFetchTransient := mint\<rparr>"
  have world: "LookupOrigins ?w = LookupOrigins w" "unavailable ?w = unavailable w" "recordEvent ?w = recordEvent w"
    by (simp_all add: fun_eq_iff LookupOrigins_def unavailable_def recordEvent_def)
  have bound: "length (ssEvents (fst (ResolveMedia w r u ctx s))) \<le> maxEvents"
    by (auto simp: ResolveMedia_def unavailable_def Let_def recordEvent_bounded split: option.split sum.split)
  note unfold = ResolveMedia_def Let_def world
  show ?thesis
  proof (cases "LookupOrigins w = None \<or> ExtractToken r = [] \<or> isl (boundedTarget r u s)")
    case True
    then have "ResolveMedia ?w r u ctx s = ResolveMedia w r u ctx s"
      by (cases "LookupOrigins w"; cases "boundedTarget r u s") (auto simp: unfold)
    with bound show ?thesis by simp
  next
    case False
    then obtain media internal uri sub where c: "LookupOrigins w = Some (media, internal)" "ExtractToken r \<noteq> []"
      "boundedTarget r u s = Inr (uri, sub)"
      by (cases "boundedTarget r u s") auto
    have fetch: "case swFetchTransient w internal (ExtractToken r) of Inl e \<Rightarrow> mint internal (ExtractToken r) = Inl e
       | Inr t \<Rightarrow> t \<noteq> [] \<and> (\<exists>t'. mint internal (ExtractToken r) = Inr t' \<and> t' \<noteq> [])"
      using assms(1) unfolding mintAlike_def by blast
    show ?thesis
    proof (cases "swFetchTransient w internal (ExtractToken r)")
      case (Inl e)
      with fetch have "mint internal (ExtractToken r) = Inl e" by simp
      with Inl c bound show ?thesis by (simp add: unfold)
    next
      case (Inr t)
      with fetch obtain t' where t: "mint internal (ExtractToken r) = Inr t'" "t \<noteq> []" "t' \<noteq> []" by auto
      note alike = BuildDirectOriginURL_any_token [OF t(2,3), of media uri "ssPublicHost s"]
      show ?thesis
      proof (cases "BuildDirectOriginURL media uri t (ssPublicHost s)")
        case (Inl e)
        with Inr c t alike bound show ?thesis by (simp add: unfold)
      next
        fix loc
        assume loc: "BuildDirectOriginURL media uri t (ssPublicHost s) = Inr loc"
        with alike obtain loc' where loc': "BuildDirectOriginURL media uri t' (ssPublicHost s) = Inr loc'" by auto
        obtain base where base: "url_parse media = Some base" using BuildDirectOriginURL_base [OF loc] by blast
        with assms(2) c(1) have "hostname base \<noteq> []" by blast
        from RedactedLocation_independent [OF loc loc' base this] loc loc' c t Inr bound show ?thesis
          by (simp add: unfold)
      qed
    qed
  qed
qed

section \<open>What a redirect forwards of the caller's query\<close>

lemma url_parse_request_uri:
  assumes "uOpaque u = []" "uRawQuery u \<noteq> []" "CHR ''#'' \<notin> set (uRawQuery u)" "\<not> list_ex ctl_byte (uRawQuery u)"
    and "url_parse (request_uri u) = Some ref"
  shows "uRawQuery ref = uRawQuery u"
proof -
  define path where "path = (if escaped_path u = [] then ''/'' else escaped_path u)"
  have "CHR ''?'' \<notin> set path" "CHR ''#'' \<notin> set path"
    using escaped_path_clean [of "CHR ''?''" u] escaped_path_clean [of "CHR ''#''" u] by (auto simp: path_def)
  from url_parse_query [OF this assms(2,3,4), of "[]"] assms(1,2,5) show ?thesis
    by (auto simp: request_uri_def path_def)
qed

lemma ResolveMedia_located:
  assumes "ResolveMedia w r u ctx s = (s', Some loc)" "LookupOrigins w = Some (media, internal)"
    and "boundedTarget r u s = Inr (uri, sub)"
  shows "ExtractToken r \<noteq> [] \<and> (\<exists>t. swFetchTransient w internal (ExtractToken r) = Inr t \<and>
    BuildDirectOriginURL media uri t (ssPublicHost s) = Inr loc)"
proof (cases "swFetchTransient w internal (ExtractToken r)")
  case (Inr t)
  with assms show ?thesis
    by (cases "BuildDirectOriginURL media uri t (ssPublicHost s)")
       (simp_all add: ResolveMedia_def unavailable_def Let_def split: if_splits)
qed (use assms in \<open>simp add: ResolveMedia_def unavailable_def Let_def split: if_splits\<close>)

text \<open>
  The redirect keeps every parameter of the caller's query other than \<open>X-Plex-Token\<close>. A caller
  who presented the persistent token as \<open>token\<close> or \<open>authToken\<close>, which \<open>ExtractToken\<close>
  accepts, therefore finds it in the location next to the transient one.
\<close>

lemma ResolveMedia_forwards_caller_token:
  assumes "ResolveMedia w r u ctx s = (s', Some loc)" "ssPartPolicy s = None"
    and "LookupOrigins w = Some (media, internal)" "url_parse media = Some base" "hostname base \<noteq> []"
    and "uOpaque u = []" "uRawQuery u = RawQuery r" "RawQuery r \<noteq> []"
    and "CHR ''#'' \<notin> set (RawQuery r)" "\<not> list_ex ctl_byte (RawQuery r)"
    and "header_get (Header r) ''X-Plex-Token'' = []" "values_get (url_query r) ''X-Plex-Token'' = []"
  shows "\<exists>k \<in> {''token'', ''authToken''}. \<exists>head query frag. loc = head @ CHR ''?'' # query @ frag \<and>
    CHR ''?'' \<notin> set head \<and> CHR ''#'' \<notin> set query \<and> ExtractToken r \<noteq> [] \<and>
    ExtractToken r \<in> set (values_of (parse_query query) k)"
proof -
  have "boundedTarget r u s = Inr (request_uri u, False)" using assms(2) by (simp add: boundedTarget_def Let_def)
  from ResolveMedia_located [OF assms(1,3) this] obtain t where token: "ExtractToken r \<noteq> []"
    and loc: "BuildDirectOriginURL media (request_uri u) t (ssPublicHost s) = Inr loc" by auto
  from BuildDirectOriginURL_at_origin [OF loc assms(4,5)] obtain ref path query frag where
    ref: "url_parse (request_uri u) = Some ref"
    and shape: "loc = ''https://'' @ authority_string base @ path @ CHR ''?'' # query @ frag"
      "set (authority_string base) \<inter> set ''/?#'' = {}" "set path \<inter> set ''?#'' = {}" "CHR ''#'' \<notin> set query"
    and keep: "uRawQuery ref \<noteq> [] \<longrightarrow> (\<forall>k. k \<noteq> ''X-Plex-Token'' \<longrightarrow>
      values_of (parse_query query) k = values_of (url_values ref) k)"
    by (elim exE conjE) (erule that)
  have "uRawQuery ref = RawQuery r"
    using url_parse_request_uri [OF assms(6) _ _ _ ref] assms(7-10) by simp
  with keep assms(8) have same: "k \<noteq> ''X-Plex-Token'' \<Longrightarrow> values_of (parse_query query) k = values_of (url_query r) k" for k
    by (simp add: url_values_def url_query_def)
  from token assms(11,12) obtain k where k: "k \<in> {''token'', ''authToken''}" "ExtractToken r = values_get (url_query r) k"
    by (auto simp: ExtractToken_def Let_def split: if_splits)
  with token have "ExtractToken r \<in> set (values_of (url_query r) k)"
    by (auto simp: values_get_of split: list.splits)
  with k(1) same [of k] have "ExtractToken r \<in> set (values_of (parse_query query) k)" by auto
  moreover have "loc = (''https://'' @ authority_string base @ path) @ CHR ''?'' # query @ frag"
    "CHR ''?'' \<notin> set (''https://'' @ authority_string base @ path)"
    using shape by auto
  ultimately show ?thesis using k(1) shape(4) token by blast
qed

section \<open>Witnesses\<close>

definition exMediaOrigin :: string where
  "exMediaOrigin = ''https://m''"

definition exAsk :: "string \<Rightarrow> url \<Rightarrow> (int \<times> string option) hop" where
  "exAsk tok u = (if uHost u = ''o'' \<and> uPath u = ''/security/token''
     then RedirectTo (u\<lparr>uPath := ''/v2''\<rparr>)
     else if uPath u = ''/v2'' then RedirectTo (u\<lparr>uHost := ''x''\<rparr>)
     else Final (200, Some tok))"

lemma exFetch:
  "length (fst (Fetch Some exAsk ''http://o/'' ''secret'')) = 2 \<and>
   snd (Fetch Some exAsk ''http://o/'' ''secret'') = Inl (RequestFailed CrossOrigin)"
  by code_simp

theorem Fetch_stays_at_origin_witness:
  "\<exists>sent out. Fetch Some exAsk ''http://o/'' ''secret'' = (sent, out) \<and> length sent = 2 \<and>
     (\<forall>v \<in> set sent. \<exists>base. url_parse ''http://o/'' = Some base \<and> sameOrigin base v)"
proof -
  obtain sent out where f: "Fetch Some exAsk ''http://o/'' ''secret'' = (sent, out)"
    by (cases "Fetch Some exAsk ''http://o/'' ''secret''")
  from Fetch_stays_at_origin [OF f] exFetch show ?thesis unfolding f by auto
qed

definition exTarget :: string where
  "exTarget = ''/p?a=1&token=c''"

lemma exLocation:
  "BuildDirectOriginURL exMediaOrigin exTarget ''t'' ''e'' =
     Inr ''https://m/p?X-Plex-Token=t&a=1&token=c''"
  "map_option hostname (url_parse exMediaOrigin) = Some ''m''"
  "map_option authority_string (url_parse exMediaOrigin) = Some ''m''"
  by code_simp+

theorem BuildDirectOriginURL_at_origin_witness:
  "\<exists>path query frag.
    ''https://m/p?X-Plex-Token=t&a=1&token=c'' =
      ''https://m'' @ path @ CHR ''?'' # query @ frag \<and>
    values_of (parse_query query) ''X-Plex-Token'' = [''t'']"
proof -
  obtain base where base: "url_parse exMediaOrigin = Some base" "hostname base \<noteq> []"
    "authority_string base = ''m''"
    using exLocation(2,3) by auto
  from BuildDirectOriginURL_at_origin [OF exLocation(1) base(1,2)] base(3) show ?thesis by auto
qed

definition exSpike :: spike_store where
  "exSpike = \<lparr>ssPartPolicy = None, ssPublicHost = ''e'', ssEvents = []\<rparr>"

definition exSpikeWorld :: "string \<Rightarrow> spike_world" where
  "exSpikeWorld t = \<lparr>swDB = True, swServerRow = Some (Some exMediaOrigin, Some ''http://o''),
     swFetchTransient = (\<lambda>_ _. Inr t), swStamp = ''now''\<rparr>"

definition exSpikeRequest :: request where
  "exSpikeRequest = \<lparr>Method = ''GET'', URLHost = [], URLPath = ''/p'',
     RawQuery = [], Header = [(''X-Plex-Token'', [''persistent''])], ContentLength = 0,
     RemoteAddr = [], ReqBody = []\<rparr>"

definition exSpikeURL :: url where
  "exSpikeURL = emptyURL\<lparr>uPath := ''/p''\<rparr>"

lemma exResolved:
  "snd (ResolveMedia (exSpikeWorld ''abc'') exSpikeRequest exSpikeURL
     \<lparr>rcRequestID = ''r'', rcSessionID = [], rcPlaybackTraceID = []\<rparr> exSpike) \<noteq> None"
  by code_simp

theorem ResolveMedia_trace_hides_token_witness:
  "let ctx = \<lparr>rcRequestID = ''r'', rcSessionID = [], rcPlaybackTraceID = []\<rparr>;
       a = ResolveMedia (exSpikeWorld ''abc'') exSpikeRequest exSpikeURL ctx exSpike;
       b = ResolveMedia (exSpikeWorld ''xyz'') exSpikeRequest exSpikeURL ctx exSpike in
   snd a \<noteq> None \<and> snd b \<noteq> None \<and> fst a = fst b"
proof -
  have "mintAlike (swFetchTransient (exSpikeWorld ''abc'')) (\<lambda>_ _. Inr ''xyz'')"
    by (simp add: mintAlike_def exSpikeWorld_def)
  moreover have "\<forall>media internal base. LookupOrigins (exSpikeWorld ''abc'') = Some (media, internal) \<longrightarrow>
      url_parse media = Some base \<longrightarrow> hostname base \<noteq> []"
    using exLocation(2) by (auto simp: LookupOrigins_def exSpikeWorld_def split: if_splits)
  moreover have "exSpikeWorld ''xyz'' = (exSpikeWorld ''abc'')\<lparr>swFetchTransient := \<lambda>_ _. Inr ''xyz''\<rparr>"
    by (simp add: exSpikeWorld_def)
  ultimately show ?thesis
    using ResolveMedia_trace_hides_token [of "exSpikeWorld ''abc''" "\<lambda>_ _. Inr ''xyz''" exSpikeRequest exSpikeURL
        "\<lparr>rcRequestID = ''r'', rcSessionID = [], rcPlaybackTraceID = []\<rparr>" exSpike] exResolved
    unfolding Let_def by metis
qed

end
