(* ===== verification/Warmer.thy ===== *)
theory Warmer
  imports Go_Url Cache_Keys Cache_Entry
begin

text \<open>
  The background refresher's tables (\<^verbatim>\<open>internal/warmer\<close>): observed requests waiting for a
  refresh, the short-lived credentials of the users who made them, and the operations of the
  foreground on both. Jobs and credentials live in separate Go maps, modelled as association
  lists. The refresh pass itself is in \<open>Warmer_Pass\<close>.
\<close>

section \<open>Stripping secrets from queries\<close>

definition secretName :: "string \<Rightarrow> bool" where
  "secretName k \<longleftrightarrow> to_lower k \<in> {''x-plex-token'', ''token'', ''authtoken''}"

text \<open>\<^verbatim>\<open>url.ParseQuery\<close> reports an error when a part holds a semicolon or a bad escape.\<close>

definition query_error :: "string \<Rightarrow> bool" where
  "query_error raw \<longleftrightarrow> list_ex (\<lambda>part. part \<noteq> [] \<and> parse_pair part = None) (split_on (CHR ''&'') raw)"

lemma length_query_unescape: "query_unescape s = Some t \<Longrightarrow> length t \<le> length s"
proof (induction s arbitrary: t rule: query_unescape.induct)
  case (2 c s)
  show ?case
  proof (cases "c = CHR ''%''")
    case True
    then obtain a b rest x y u where "s = a # b # rest" "hex_val a = Some x" "hex_val b = Some y"
      "query_unescape rest = Some u" "t = char_of (16 * x + y) # u"
      using "2.prems" by (auto split: list.splits option.splits)
    with "2.IH"(1) True show ?thesis by force
  next
    case False
    with "2.prems" "2.IH"(2) show ?thesis by auto
  qed
qed simp

lemma length_before: "length (before sep s) \<le> length s"
  by (simp add: before_def length_takeWhile_le)

lemma length_after: "length (after sep s) \<le> length s"
  unfolding after_def by (metis dropWhile_eq_drop length_drop diff_le_self le_trans drop_drop)

lemma split_on_length: "part \<in> set (split_on sep s) \<Longrightarrow> length part \<le> length s"
  by (induction s arbitrary: part) (auto simp: le_SucI split: if_splits list.splits)

lemma parse_query_values:
  assumes "v \<in> set (values_of (parse_query raw) k)"
  shows "length v \<le> length raw"
proof -
  define step where "step part q = (case parse_pair part of None \<Rightarrow> q | Some (k, v) \<Rightarrow> values_add q k v)" for part q
  have pair: "length v \<le> length part" if "parse_pair part = Some (k, v)" for part k v
  proof -
    from that have "query_unescape (after (CHR ''='') part) = Some v"
      by (auto simp: parse_pair_def split: if_splits option.splits)
    from length_query_unescape [OF this] length_after [of "CHR ''=''" part] show ?thesis by simp
  qed
  have "\<forall>k. \<forall>v \<in> set (values_of q k). length v \<le> n \<Longrightarrow> \<forall>part \<in> set parts. length part \<le> n \<Longrightarrow>
      \<forall>k. \<forall>v \<in> set (values_of (fold step parts q) k). length v \<le> n" for parts q n
  proof (induction parts arbitrary: q)
    case (Cons part parts)
    have "\<forall>k. \<forall>v \<in> set (values_of (step part q) k). length v \<le> n"
    proof (cases "parse_pair part")
      case (Some kv)
      then obtain k v where kv: "parse_pair part = Some (k, v)" by (cases kv) auto
      from pair [OF this] Cons.prems(2) have "length v \<le> n" by (simp add: order_trans)
      with kv Cons.prems(1) show ?thesis by (simp add: step_def values_of_add)
    qed (use Cons.prems(1) in \<open>simp add: step_def\<close>)
    from Cons.IH [OF this] Cons.prems(2) show ?case by simp
  qed simp
  from this [of "[]" "length raw" "split_on (CHR ''&'') raw"] assms split_on_length [of _ "CHR ''&''" raw]
  show ?thesis by (auto simp: parse_query_def step_def [abs_def] values_of_def)
qed

lemma parse_query_entry:
  "(k, vs) \<in> set (parse_query raw) \<Longrightarrow> vs = values_of (parse_query raw) k"
  using map_of_in_set [OF wf_map_parse_query, of raw k vs] by (simp add: values_of_def)

lemma url_parse_query_shorter:
  assumes "url_parse v = Some n" "uRawQuery n \<noteq> []"
  shows "length (uRawQuery n) < length v"
proof -
  from assms(1) obtain u0 where u0: "parse_url (before (CHR ''#'') v) = Some u0" "uRawQuery n = uRawQuery u0"
    by (rule url_parse_url)
  with assms(2) have "before (CHR ''#'') v \<noteq> ''*''" by (auto simp: parse_url_def emptyURL_def split: if_splits)
  from parse_url_Some [OF u0(1) this] obtain s rest where g: "get_scheme (before (CHR ''#'') v) = Some (s, rest)"
    "parse_hier (fst (parse_query_part rest (emptyURL\<lparr>uScheme := to_lower s\<rparr>)))
      (snd (parse_query_part rest (emptyURL\<lparr>uScheme := to_lower s\<rparr>))) = Some u0" .
  have "uRawQuery n = (if has_suffix rest ''?'' \<and> count_list rest (CHR ''?'') = 1 then [] else after (CHR ''?'') rest)"
    using parse_hier_RawQuery [OF g(2)] u0(2) by (simp add: parse_query_part_def emptyURL_def)
  with assms(2) have q: "uRawQuery n = after (CHR ''?'') rest" by (metis (full_types))
  then have "length (uRawQuery n) < length rest" using assms(2) by (simp add: after_shorter)
  with get_scheme_length [OF g(1)] length_before [of "CHR ''#''" v] show ?thesis by simp
qed

text \<open>
  Parameters with a secret name are dropped; a value that is itself a URL with a query has that
  query stripped in turn. The recursion ends because the nested query is shorter than the value.
\<close>

function stripSecrets :: "string \<Rightarrow> string" where
  "stripSecrets raw =
    (if raw = [] \<or> query_error raw then []
     else values_encode
       (map (\<lambda>(k, vs). (k, map (\<lambda>v. case url_parse v of
            None \<Rightarrow> v
          | Some nested \<Rightarrow> if uRawQuery nested = [] then v
              else print_url (nested\<lparr>uRawQuery := stripSecrets (uRawQuery nested)\<rparr>)) vs))
         (filter (\<lambda>(k, vs). \<not> secretName k) (parse_query raw))))"
  by pat_completeness auto
termination
proof (relation "measure length")
  fix raw :: string and kv k vs v nested
  assume "kv \<in> set (filter (\<lambda>(k, vs). \<not> secretName k) (parse_query raw))" "(k, vs) = kv" "v \<in> set vs"
    and nested: "url_parse v = Some nested" "uRawQuery nested \<noteq> []"
  then have "v \<in> set (values_of (parse_query raw) k)" using parse_query_entry by auto
  from parse_query_values [OF this] url_parse_query_shorter [OF nested]
  show "(uRawQuery nested, raw) \<in> measure length" by simp
qed simp

declare stripSecrets.simps [simp del]

section \<open>Jobs, credentials and limits\<close>

abbreviation "Low \<equiv> (0 :: int)"
abbreviation "Normal \<equiv> (1 :: int)"
abbreviation "High \<equiv> (2 :: int)"
abbreviation "Protected \<equiv> (3 :: int)"

record Snapshot =
  snMethod :: string
  snPath :: string
  snRawQuery :: string
  snAccept :: string
  snScope :: string
  snClass :: string
  snTTL :: duration
  snPriority :: int

record Config =
  cfEnabled :: bool
  cfMaxTracked :: int
  cfRequestsPerPass :: int
  cfMaxPerScopePerPass :: int
  cfBytesPerPass :: int

definition maxTracked :: int where
  "maxTracked = 512"

definition credentialTTL :: duration where
  "credentialTTL = 2 * minute"

definition maxContexts :: nat where
  "maxContexts = 32"

definition DefaultConfig :: Config where
  "DefaultConfig = \<lparr>cfEnabled = True, cfMaxTracked = 512, cfRequestsPerPass = 16,
     cfMaxPerScopePerPass = 4, cfBytesPerPass = 64 * 2 ^ 20\<rparr>"

record credentialContext =
  ccToken :: string
  ccExpires :: gotime
  ccVersion :: u64

text \<open>A job; \<open>tkNext\<close> is \<open>None\<close> for the zero time.\<close>

record tracked =
  tkKey :: string
  tkSnap :: Snapshot
  tkLast :: gotime
  tkObserved :: gotime
  tkNext :: "gotime option"
  tkFailures :: int
  tkRequiresContext :: bool
  tkSequence :: u64

text \<open>
  The mutable fields. \<open>wActive\<close> is the cancel function of the request in flight: \<open>None\<close>
  when there is none, otherwise whether it has been called.
\<close>

record Warmer =
  wTracked :: "(string \<times> tracked) list"
  wContexts :: "(string \<times> credentialContext) list"
  wServed :: "(string \<times> u64) list"
  wConfig :: Config
  wPaused :: bool
  wRunning :: bool
  wForeground :: int
  wActive :: "bool option"
  wActiveScope :: string
  wContextVersion :: u64
  wSequence :: u64
  wServedSequence :: u64
  wWarming :: bool
  wRefreshed :: int
  wErrors :: int
  wWarmedBytes :: int
  wBackoffs :: int
  wDropped :: int
  wOwner :: "(int \<times> string \<times> bool \<times> gotime) option"

text \<open>What the constructor and the wiring fix: the store, the hooks and the encoders.\<close>

record warmer_env =
  weStore :: bool
  weOrigin :: string
  weKeyFunc :: bool
  weCanWarm :: bool
  weOwnerToken :: bool
  weOwnerAccount :: bool
  weDB :: bool
  weDeleter :: bool
  weJson :: "string list \<Rightarrow> string"
  weSha :: "string \<Rightarrow> string"

definition NewWarmer :: Warmer where
  "NewWarmer = \<lparr>wTracked = [], wContexts = [], wServed = [], wConfig = DefaultConfig, wPaused = False,
     wRunning = False, wForeground = 0, wActive = None, wActiveScope = [], wContextVersion = 0,
     wSequence = 0, wServedSequence = 0, wWarming = False, wRefreshed = 0, wErrors = 0,
     wWarmedBytes = 0, wBackoffs = 0, wDropped = 0, wOwner = None\<rparr>"

section \<open>Eviction\<close>

text \<open>The loop variable of the scan is unset before the first job.\<close>

definition evictsBefore :: "tracked \<Rightarrow> tracked \<Rightarrow> bool" where
  "evictsBefore t oldest \<longleftrightarrow>
    snPriority (tkSnap t) < snPriority (tkSnap oldest) \<or>
    snPriority (tkSnap t) = snPriority (tkSnap oldest) \<and> tkObserved t < tkObserved oldest"

definition evictStep :: "string \<times> tracked \<Rightarrow> (string \<times> tracked) option \<Rightarrow> (string \<times> tracked) option" where
  "evictStep e best = (case best of None \<Rightarrow> Some e | Some b \<Rightarrow> if evictsBefore (snd e) (snd b) then Some e else best)"

definition victimJob :: "(string \<times> tracked) list \<Rightarrow> (string \<times> tracked) option" where
  "victimJob jobs = fold evictStep jobs None"

definition evictJobLocked :: "int option \<Rightarrow> Warmer \<Rightarrow> Warmer \<times> bool" where
  "evictJobLocked incoming w =
    (case victimJob (wTracked w) of
       None \<Rightarrow> (w, True)
     | Some (victim, oldest) \<Rightarrow>
         if (case incoming of Some p \<Rightarrow> snPriority (tkSnap oldest) > p | None \<Rightarrow> False)
         then (w\<lparr>wDropped := wDropped w + 1\<rparr>, False)
         else (w\<lparr>wTracked := AList.delete victim (wTracked w), wDropped := wDropped w + 1\<rparr>, True))"

lemma victimJob_None: "victimJob jobs = None \<longleftrightarrow> jobs = []"
proof -
  have "fold evictStep js (Some b) \<noteq> None" for js b
    by (induction js arbitrary: b) (auto simp: evictStep_def)
  then show ?thesis by (cases jobs) (auto simp: victimJob_def evictStep_def)
qed

lemma victimJob_mem: "victimJob jobs = Some e \<Longrightarrow> e \<in> set jobs"
proof -
  have "fold evictStep js best = Some e \<Longrightarrow> e \<in> set js \<or> best = Some e" for js best
    by (induction js arbitrary: best) (auto simp: evictStep_def split: option.splits if_splits)
  then show "victimJob jobs = Some e \<Longrightarrow> e \<in> set jobs" by (fastforce simp: victimJob_def)
qed

lemma evictJobLocked_shrinks:
  "wTracked w \<noteq> [] \<Longrightarrow> length (wTracked (fst (evictJobLocked None w))) < length (wTracked w)"
proof -
  assume "wTracked w \<noteq> []"
  then obtain k t where v: "victimJob (wTracked w) = Some (k, t)"
    using victimJob_None [of "wTracked w"] by (cases "victimJob (wTracked w)") auto
  from victimJob_mem [OF this] have "k \<in> fst ` set (wTracked w)" by force
  with v show ?thesis by (simp add: evictJobLocked_def length_delete_less)
qed

text \<open>The loop of \<open>Configure\<close> that evicts until the table fits.\<close>

function evictUntil :: "int \<Rightarrow> Warmer \<Rightarrow> Warmer" where
  "evictUntil bound w =
    (if int (length (wTracked w)) > bound \<and> wTracked w \<noteq> []
     then evictUntil bound (fst (evictJobLocked None w)) else w)"
  by pat_completeness auto
termination
  by (relation "measure (\<lambda>(bound, w). length (wTracked w))") (auto simp: evictJobLocked_shrinks)

declare evictUntil.simps [simp del]

section \<open>Foreground operations\<close>

definition cancelActive :: "Warmer \<Rightarrow> Warmer" where
  "cancelActive w = w\<lparr>wActive := map_option (\<lambda>_. True) (wActive w)\<rparr>"

definition validConfig :: "Config \<Rightarrow> bool" where
  "validConfig c \<longleftrightarrow>
    \<not> (cfMaxTracked c < 1 \<or> cfMaxTracked c > maxTracked \<or> cfRequestsPerPass c < 1 \<or> cfRequestsPerPass c > 64 \<or>
       cfMaxPerScopePerPass c < 1 \<or> cfMaxPerScopePerPass c > 16 \<or> cfMaxPerScopePerPass c > cfRequestsPerPass c \<or>
       cfBytesPerPass c < 8 * 2 ^ 20 \<or> cfBytesPerPass c > 256 * 2 ^ 20)"

definition Configure :: "Config \<Rightarrow> Warmer \<Rightarrow> Warmer \<times> bool" where
  "Configure c w =
    (if \<not> validConfig c then (w, False)
     else let w = w\<lparr>wConfig := c\<rparr>;
              w = (if cfEnabled c then w else cancelActive (w\<lparr>wContexts := []\<rparr>))
          in (evictUntil (cfMaxTracked c) w, True))"

definition SetPaused :: "bool \<Rightarrow> Warmer \<Rightarrow> Warmer" where
  "SetPaused p w = (let w = w\<lparr>wPaused := p\<rparr> in if p then cancelActive w else w)"

definition Foreground :: "Warmer \<Rightarrow> Warmer" where
  "Foreground w = cancelActive (w\<lparr>wForeground := wForeground w + 1\<rparr>)"

definition ForegroundDone :: "Warmer \<Rightarrow> Warmer" where
  "ForegroundDone w = w\<lparr>wForeground := wForeground w - 1\<rparr>"

text \<open>The jobs of a scope are dropped and counted.\<close>

definition dropScope :: "string \<Rightarrow> Warmer \<Rightarrow> Warmer" where
  "dropScope sc w =
    w\<lparr>wTracked := filter (\<lambda>(_, t). snScope (tkSnap t) \<noteq> sc) (wTracked w),
      wDropped := wDropped w + int (length (filter (\<lambda>(_, t). snScope (tkSnap t) = sc) (wTracked w)))\<rparr>"

definition ForgetScope :: "string \<Rightarrow> Warmer \<Rightarrow> Warmer" where
  "ForgetScope sc w =
    (if sc = [] then w
     else let w = w\<lparr>wContexts := AList.delete sc (wContexts w), wServed := AList.delete sc (wServed w)\<rparr>;
              w = (if wActiveScope w = sc then cancelActive w else w)
          in dropScope sc w)"

definition routePriority :: "string \<Rightarrow> int" where
  "routePriority path =
    (let p = to_lower path in
     if contains p ''/collections'' then Protected
     else if has_prefix p ''/library/sections'' then High
     else if has_prefix p ''/library/metadata'' then Normal
     else Low)"

definition snapshotID :: "warmer_env \<Rightarrow> Snapshot \<Rightarrow> string" where
  "snapshotID env s = hex_encode (weSha env (weJson env [snScope s, snMethod s, snPath s, snRawQuery s, snAccept s]))"

definition expireContextsLocked :: "gotime \<Rightarrow> Warmer \<Rightarrow> Warmer" where
  "expireContextsLocked now w =
    w\<lparr>wContexts := filter (\<lambda>(_, c). now < ccExpires c) (wContexts w),
      wServed := filter (\<lambda>(sc, _). \<exists>e \<in> set (wTracked w). snScope (tkSnap (snd e)) = sc) (wServed w)\<rparr>"

text \<open>A credential replaces that of its scope, or the one that expires first when the table is full.\<close>

definition storeCredential :: "gotime \<Rightarrow> string \<Rightarrow> string \<Rightarrow> Warmer \<Rightarrow> Warmer" where
  "storeCredential now sc credential w =
    (let ctxs = (if map_of (wContexts w) sc = None \<and> maxContexts \<le> length (wContexts w)
                 then (case scan_least (ccExpires \<circ> snd) (wContexts w) of
                         Some (oldest, _) \<Rightarrow> AList.delete oldest (wContexts w)
                       | None \<Rightarrow> wContexts w)
                 else wContexts w);
         v = wContextVersion w + 1
     in w\<lparr>wContextVersion := v,
          wContexts := AList.update sc \<lparr>ccToken = credential, ccExpires = now + credentialTTL, ccVersion = v\<rparr> ctxs\<rparr>)"

definition trackable :: "warmer_env \<Rightarrow> string \<Rightarrow> Snapshot \<Rightarrow> string \<Rightarrow> bool \<Rightarrow> bool" where
  "trackable env key s credential authorized \<longleftrightarrow>
    \<not> (\<not> weStore env \<or> key = [] \<or> length key > 512 \<or> snScope s = [] \<or> length (snScope s) > 256 \<or>
       length (snPath s) > 4096 \<or> length (snRawQuery s) > 8192 \<or> length (snAccept s) > 512 \<or> snTTL s \<le> 0 \<or>
       authorized \<and> (credential = [] \<or> length credential > 8192))"

text \<open>The snapshot as it is queued: without secrets, with the priority of its route by default.\<close>

definition queuedSnapshot :: "Snapshot \<Rightarrow> Snapshot" where
  "queuedSnapshot s =
    s\<lparr>snRawQuery := stripSecrets (snRawQuery s),
      snPriority := (if snPriority s = Low then routePriority (snPath s) else snPriority s)\<rparr>"

definition withCredential :: "gotime \<Rightarrow> string \<Rightarrow> string \<Rightarrow> bool \<Rightarrow> Warmer \<Rightarrow> Warmer" where
  "withCredential now sc credential authorized w =
    (let w = expireContextsLocked now w in
     if authorized then storeCredential now sc credential w else w)"

definition roomFor :: "string \<Rightarrow> int \<Rightarrow> Warmer \<Rightarrow> Warmer \<times> bool" where
  "roomFor jid priority w =
    (if map_of (wTracked w) jid = None \<and> int (length (wTracked w)) \<ge> cfMaxTracked (wConfig w)
     then evictJobLocked (Some priority) w else (w, True))"

definition queueJob :: "string \<Rightarrow> gotime \<Rightarrow> string \<Rightarrow> Snapshot \<Rightarrow> bool \<Rightarrow> Warmer \<Rightarrow> Warmer" where
  "queueJob jid now key s authorized w =
    w\<lparr>wSequence := wSequence w + 1,
      wTracked := AList.update jid
        \<lparr>tkKey = key, tkSnap = s, tkLast = now, tkObserved = now, tkNext = None, tkFailures = 0,
         tkRequiresContext = authorized, tkSequence = wSequence w + 1\<rparr> (wTracked w)\<rparr>"

definition track :: "warmer_env \<Rightarrow> gotime \<Rightarrow> string \<Rightarrow> Snapshot \<Rightarrow> string \<Rightarrow> bool \<Rightarrow> Warmer \<Rightarrow> Warmer" where
  "track env now key s credential authorized w =
    (if \<not> trackable env key s credential authorized then w
     else if snPriority s < Low \<or> snPriority s > Protected then w
     else if \<not> cfEnabled (wConfig w) then w
     else let s = queuedSnapshot s; jid = snapshotID env s in
       case roomFor jid (snPriority s) (withCredential now (snScope s) credential authorized w) of
         (w, fits) \<Rightarrow> if fits then queueJob jid now key s authorized w else w)"

definition Track :: "warmer_env \<Rightarrow> gotime \<Rightarrow> string \<Rightarrow> Snapshot \<Rightarrow> Warmer \<Rightarrow> Warmer" where
  "Track env now key s w = track env now key s [] False w"

definition TrackAuthorized :: "warmer_env \<Rightarrow> gotime \<Rightarrow> string \<Rightarrow> Snapshot \<Rightarrow> string \<Rightarrow> Warmer \<Rightarrow> Warmer" where
  "TrackAuthorized env now key s credential w = track env now key s credential True w"

section \<open>Statistics\<close>

definition PriorityString :: "int \<Rightarrow> string" where
  "PriorityString p = [''low'', ''normal'', ''high'', ''protected''] ! nat p"

record Stats =
  stTracked :: nat
  stQueued :: nat
  stRefreshed :: int
  stErrors :: int
  stOwnerWarming :: bool
  stEnabled :: bool
  stPaused :: bool
  stActiveContexts :: nat
  stByPriority :: "string \<Rightarrow> nat"
  stDue :: nat
  stColdScopes :: nat
  stWarmedBytes :: int
  stBackoffs :: int
  stDropped :: int
  stRequestsPerPass :: int
  stBytesPerPass :: int

definition dueJob :: "gotime \<Rightarrow> tracked \<Rightarrow> bool" where
  "dueJob now t \<longleftrightarrow>
    \<not> (now - tkLast t < go_div (snTTL (tkSnap t)) 2) \<and> \<not> (case tkNext t of Some n \<Rightarrow> now < n | None \<Rightarrow> False)"

definition stats :: "gotime \<Rightarrow> Warmer \<Rightarrow> Warmer \<times> Stats" where
  "stats now w =
    (let w = expireContextsLocked now w; jobs = map snd (wTracked w) in
     (w, \<lparr>stTracked = length jobs, stQueued = length jobs, stRefreshed = wRefreshed w, stErrors = wErrors w,
          stOwnerWarming = wWarming w, stEnabled = cfEnabled (wConfig w), stPaused = wPaused w,
          stActiveContexts = length (wContexts w),
          stByPriority = (\<lambda>p. length (filter (\<lambda>t. PriorityString (snPriority (tkSnap t)) = p) jobs)),
          stDue = length (filter (dueJob now) jobs),
          stColdScopes = length (remdups (map (snScope \<circ> tkSnap)
            (filter (\<lambda>t. tkRequiresContext t \<and> map_of (wContexts w) (snScope (tkSnap t)) = None) jobs))),
          stWarmedBytes = wWarmedBytes w, stBackoffs = wBackoffs w, stDropped = wDropped w,
          stRequestsPerPass = cfRequestsPerPass (wConfig w), stBytesPerPass = cfBytesPerPass (wConfig w)\<rparr>))"

end
