(* ===== verification/Warmer_Pass.thy ===== *)
theory Warmer_Pass
  imports Warmer
begin

text \<open>
  A refresh pass (\<^verbatim>\<open>refreshPass\<close>, \<^verbatim>\<open>nextCandidateLocked\<close>, \<^verbatim>\<open>refreshChecked\<close>). The pass
  takes the lock several times per round and runs beside the foreground, so a round carries
  the operations that other goroutines complete at each point where the lock is free, the readings of the
  clock, and the answers of the origin, the key function and the store. A pass over a
  list of rounds returns \<open>None\<close> when the list ends before the loop does. It returns
  the trace of what happened: the operations, the requests sent with their
  credentials, and the entries published.
\<close>

lemma MaxEntryBytes_code [code_unfold]:
  "int MaxEntryBytes = 2097152" "MaxEntryBytes < n \<longleftrightarrow> 2097152 < int n"
  by (auto simp: MaxEntryBytes_def)

section \<open>Rounds and traces\<close>

datatype wop = OpTrack string Snapshot | OpAuthorized string Snapshot string | OpForget string
  | OpPause bool | OpConfigure Config | OpForeground | OpForegroundDone | OpStats

definition applyOp :: "warmer_env \<Rightarrow> gotime \<Rightarrow> wop \<Rightarrow> Warmer \<Rightarrow> Warmer" where
  "applyOp env now op w =
    (case op of
       OpTrack key s \<Rightarrow> Track env now key s w
     | OpAuthorized key s credential \<Rightarrow> TrackAuthorized env now key s credential w
     | OpForget sc \<Rightarrow> ForgetScope sc w
     | OpPause p \<Rightarrow> SetPaused p w
     | OpConfigure c \<Rightarrow> fst (Configure c w)
     | OpForeground \<Rightarrow> Foreground w
     | OpForegroundDone \<Rightarrow> ForegroundDone w
     | OpStats \<Rightarrow> fst (stats now w))"

type_synonym timed_ops = "(gotime \<times> wop) list"

definition applyOps :: "warmer_env \<Rightarrow> timed_ops \<Rightarrow> Warmer \<Rightarrow> Warmer" where
  "applyOps env ops w = fold (\<lambda>(t, op). applyOp env t op) ops w"

datatype answer = DoFailed bool | Answered int multimap string "bool option"

datatype refresh_error = Refused int | LocalError | Canceled | OtherError

record wround =
  rdStart :: timed_ops
  rdLock :: timed_ops
  rdPick :: timed_ops
  rdFetch :: timed_ops
  rdPublish :: timed_ops
  rdCtxErr :: bool
  rdNow :: "nat \<Rightarrow> gotime"
  rdKey :: "nat \<Rightarrow> Snapshot \<Rightarrow> string"
  rdCanWarm :: "Snapshot \<Rightarrow> bool"
  rdAnswer :: "request \<Rightarrow> answer"
  rdSet :: "bool option"

datatype wev =
    EvOp gotime wop
  | EvRequest gotime Snapshot string bool
  | EvPublish gotime string Entry duration Snapshot string bool
  | EvDelete string

definition opEvents :: "timed_ops \<Rightarrow> wev list" where
  "opEvents ops = map (\<lambda>(t, op). EvOp t op) ops"

section \<open>Choosing a job\<close>

record candidate =
  cdID :: string
  cdJob :: tracked
  cdToken :: string
  cdVersion :: u64
  cdOwner :: bool
  cdServed :: u64

abbreviation jobScope :: "tracked \<Rightarrow> string" where
  "jobScope t \<equiv> snScope (tkSnap t)"

text \<open>The credential a job may be refreshed with: its user's, or the owner's for the owner's own scope.\<close>

definition offerFor :: "gotime \<Rightarrow> string \<Rightarrow> string \<Rightarrow> Warmer \<Rightarrow> tracked \<Rightarrow> (string \<times> u64 \<times> bool) option" where
  "offerFor now owner ownerScope w t =
    (let byOwner = (if \<not> tkRequiresContext t \<and> owner \<noteq> [] \<and> jobScope t = ownerScope
                    then Some (owner, 0, True) else None) in
     case map_of (wContexts w) (jobScope t) of
       Some c \<Rightarrow> if now < ccExpires c then Some (ccToken c, ccVersion c, False) else byOwner
     | None \<Rightarrow> byOwner)"

definition servedAt :: "Warmer \<Rightarrow> string \<Rightarrow> u64" where
  "servedAt w sc = (case map_of (wServed w) sc of Some n \<Rightarrow> n | None \<Rightarrow> 0)"

definition candidateFor ::
  "gotime \<Rightarrow> string \<Rightarrow> string \<Rightarrow> (string \<Rightarrow> int) \<Rightarrow> Warmer \<Rightarrow> string \<times> tracked \<Rightarrow> candidate option" where
  "candidateFor now owner ownerScope perScope w e =
    (case e of (jid, t) \<Rightarrow>
      if \<not> dueJob now t \<or> perScope (jobScope t) \<ge> cfMaxPerScopePerPass (wConfig w) then None
      else map_option (\<lambda>(tok, v, own).
          \<lparr>cdID = jid, cdJob = t, cdToken = tok, cdVersion = v, cdOwner = own, cdServed = servedAt w (jobScope t)\<rparr>)
        (offerFor now owner ownerScope w t))"

text \<open>A job of a foreign scope that could only use the owner's credential is dropped.\<close>

definition orphaned ::
  "gotime \<Rightarrow> string \<Rightarrow> string \<Rightarrow> (string \<Rightarrow> int) \<Rightarrow> Warmer \<Rightarrow> string \<times> tracked \<Rightarrow> bool" where
  "orphaned now owner ownerScope perScope w e =
    (case e of (jid, t) \<Rightarrow>
      dueJob now t \<and> \<not> perScope (jobScope t) \<ge> cfMaxPerScopePerPass (wConfig w) \<and>
      offerFor now owner ownerScope w t = None \<and>
      \<not> tkRequiresContext t \<and> ownerScope \<noteq> [] \<and> jobScope t \<noteq> ownerScope)"

definition betterJob :: "tracked \<Rightarrow> tracked \<Rightarrow> bool" where
  "betterJob t old \<longleftrightarrow>
    snPriority (tkSnap t) > snPriority (tkSnap old) \<or>
    snPriority (tkSnap t) = snPriority (tkSnap old) \<and> tkLast t < tkLast old"

definition perScopeBest :: "candidate \<Rightarrow> (string \<times> candidate) list \<Rightarrow> (string \<times> candidate) list" where
  "perScopeBest c best =
    (case map_of best (jobScope (cdJob c)) of
       None \<Rightarrow> AList.update (jobScope (cdJob c)) c best
     | Some old \<Rightarrow> if betterJob (cdJob c) (cdJob old) then AList.update (jobScope (cdJob c)) c best else best)"

definition candBefore :: "candidate \<Rightarrow> candidate \<Rightarrow> bool" where
  "candBefore a b \<longleftrightarrow>
    (if cdServed a \<noteq> cdServed b then cdServed a < cdServed b
     else if snPriority (tkSnap (cdJob a)) \<noteq> snPriority (tkSnap (cdJob b))
     then snPriority (tkSnap (cdJob a)) > snPriority (tkSnap (cdJob b))
     else tkSequence (cdJob a) < tkSequence (cdJob b))"

text \<open>The first element of the sorted choices.\<close>

definition firstChoice :: "candidate list \<Rightarrow> candidate option" where
  "firstChoice cs = fold (\<lambda>c best. case best of None \<Rightarrow> Some c | Some b \<Rightarrow> if candBefore c b then Some c else best) cs None"

definition nextCandidateLocked ::
  "gotime \<Rightarrow> string \<Rightarrow> string \<Rightarrow> (string \<Rightarrow> int) \<Rightarrow> Warmer \<Rightarrow> Warmer \<times> candidate option" where
  "nextCandidateLocked now owner ownerScope perScope w =
    (let byScope = fold perScopeBest
           (List.map_filter (candidateFor now owner ownerScope perScope w) (wTracked w)) [];
         dropped = filter (orphaned now owner ownerScope perScope w) (wTracked w)
     in (w\<lparr>wTracked := filter (\<lambda>e. \<not> orphaned now owner ownerScope perScope w e) (wTracked w),
           wDropped := wDropped w + int (length dropped)\<rparr>,
         firstChoice (map snd byScope)))"

section \<open>One refresh\<close>

definition validMethod :: "string \<Rightarrow> bool" where
  "validMethod m \<longleftrightarrow> m \<noteq> [] \<and> list_all token_char m"

text \<open>\<^verbatim>\<open>http.NewRequest\<close> for the target of a snapshot, with the credential in its header.\<close>

definition refreshRequest :: "warmer_env \<Rightarrow> Snapshot \<Rightarrow> string \<Rightarrow> request option" where
  "refreshRequest env s credential =
    (let target = weOrigin env @ snPath s @ (if snRawQuery s = [] then [] else CHR ''?'' # snRawQuery s);
         m = (if snMethod s = [] then ''GET'' else snMethod s) in
     if \<not> validMethod m then None
     else map_option (\<lambda>u. \<lparr>Method = m, URLHost = uHost u, URLPath = uPath u, RawQuery = uRawQuery u,
            Header = (''X-Plex-Token'', [credential]) # (if snAccept s = [] then [] else [(''Accept'', [snAccept s])]),
            ContentLength = 0, RemoteAddr = [], ReqBody = []\<rparr>)
          (url_parse target))"

definition causeOf :: "bool \<Rightarrow> refresh_error" where
  "causeOf canceled = (if canceled then Canceled else OtherError)"

text \<open>What the answer of the origin leads to before publication: a byte count, and the entry or an error.\<close>

definition judgeAnswer :: "answer \<Rightarrow> int \<times> (refresh_error + Entry)" where
  "judgeAnswer a =
    (case a of
       DoFailed canceled \<Rightarrow> (0, Inl (causeOf canceled))
     | Answered status hdr body readErr \<Rightarrow>
         if status \<noteq> 200 then (int (length (limit_read 65536 body)), Inl (Refused status))
         else if \<not> StorableResponse hdr then (int (length (limit_read 65536 body)), Inl LocalError)
         else let b = limit_read (int MaxEntryBytes + 1) body in
           case readErr of
             Some canceled \<Rightarrow> (int (length b), Inl (causeOf canceled))
           | None \<Rightarrow>
               if length b > MaxEntryBytes then (int (length b), Inl LocalError)
               else (int (length b), Inr \<lparr>Status = nat status, ContentType = header_get hdr ''Content-Type'',
                       Headers = SafeHeaders hdr, Body = b\<rparr>))"

text \<open>
  \<open>permitted\<close> is the value of the permit when the body is complete. The two lists of events are
  the request that was sent, and the publication with the deletion of the previous key.
\<close>

definition refreshChecked ::
  "warmer_env \<Rightarrow> wround \<Rightarrow> string \<Rightarrow> Snapshot \<Rightarrow> string \<Rightarrow> bool \<Rightarrow> bool
    \<Rightarrow> int \<times> refresh_error option \<times> wev list \<times> wev list" where
  "refreshChecked env rd key s credential owner permitted =
    (let storeKey = (if weKeyFunc env then rdKey rd 1 s else key) in
     if weKeyFunc env \<and> storeKey = [] then (0, Some LocalError, [], [])
     else (case refreshRequest env s credential of
         None \<Rightarrow> (0, Some OtherError, [], [])
       | Some req \<Rightarrow>
           if RequestCacheable req = None then (0, Some LocalError, [], [])
           else let sent = EvRequest (rdNow rd 1) s credential owner in
             (case judgeAnswer (rdAnswer rd req) of
                (n, Inl e) \<Rightarrow> (n, Some e, [sent], [])
              | (n, Inr entry) \<Rightarrow>
                  if weKeyFunc env \<and> rdKey rd 2 s \<noteq> storeKey then (n, Some LocalError, [sent], [])
                  else if \<not> permitted then (n, Some LocalError, [sent], [])
                  else (case rdSet rd of
                          Some canceled \<Rightarrow> (n, Some (causeOf canceled), [sent], [])
                        | None \<Rightarrow> (n, None, [sent], EvPublish (rdNow rd 2) storeKey entry (snTTL s) s credential owner #
                            (if storeKey \<noteq> key \<and> weDeleter env then [EvDelete key] else []))))))"

section \<open>One round\<close>

definition blocked :: "Warmer \<Rightarrow> bool" where
  "blocked w \<longleftrightarrow> wForeground w > 0 \<or> wPaused w \<or> \<not> cfEnabled (wConfig w)"

definition permit :: "candidate \<Rightarrow> gotime \<Rightarrow> Warmer \<Rightarrow> bool" where
  "permit c now w =
    (case map_of (wTracked w) (cdID c) of
       None \<Rightarrow> False
     | Some current \<Rightarrow>
         if tkSequence current \<noteq> tkSequence (cdJob c) \<or> blocked w then False
         else if cdOwner c then True
         else (case map_of (wContexts w) (jobScope (cdJob c)) of
                 None \<Rightarrow> False
               | Some credential \<Rightarrow> ccVersion credential = cdVersion c \<and> now < ccExpires credential))"

definition activate :: "candidate \<Rightarrow> Warmer \<Rightarrow> Warmer" where
  "activate c w =
    (let sc = jobScope (cdJob c); n = wServedSequence w + 1 in
     w\<lparr>wActive := Some False, wActiveScope := sc, wServedSequence := n,
       wServed := AList.update sc n (wServed w)\<rparr>)"

text \<open>An update of the job if it is still the one that was refreshed.\<close>

definition updateJob :: "candidate \<Rightarrow> (tracked \<Rightarrow> tracked) \<Rightarrow> Warmer \<Rightarrow> Warmer" where
  "updateJob c f w =
    (case map_of (wTracked w) (cdID c) of
       Some current \<Rightarrow>
         if tkSequence current = tkSequence (cdJob c)
         then w\<lparr>wTracked := AList.update (cdID c) (f current) (wTracked w)\<rparr> else w
     | None \<Rightarrow> w)"

definition sameJob :: "candidate \<Rightarrow> Warmer \<Rightarrow> bool" where
  "sameJob c w =
    (case map_of (wTracked w) (cdID c) of Some current \<Rightarrow> tkSequence current = tkSequence (cdJob c) | None \<Rightarrow> False)"

definition backoff :: "gotime \<Rightarrow> tracked \<Rightarrow> tracked" where
  "backoff now t =
    (let f = tkFailures t + 1 in
     t\<lparr>tkFailures := f, tkNext := Some (now + 15 * second * 2 ^ nat (min (f - 1) 4))\<rparr>)"

definition settleError :: "candidate \<Rightarrow> gotime \<Rightarrow> refresh_error \<Rightarrow> Warmer \<Rightarrow> Warmer" where
  "settleError c now e w =
    (let sc = jobScope (cdJob c);
         w = (if e = Refused 401 \<or> e = Refused 403
              then dropScope sc (w\<lparr>wContexts := AList.delete sc (wContexts w)\<rparr>) else w);
         w = (if sameJob c w then (updateJob c (backoff now) w)\<lparr>wBackoffs := wBackoffs w + 1\<rparr> else w)
     in if e = Canceled then w else w\<lparr>wErrors := wErrors w + 1\<rparr>)"

definition settleSuccess :: "candidate \<Rightarrow> gotime \<Rightarrow> int \<Rightarrow> Warmer \<Rightarrow> Warmer" where
  "settleSuccess c now n w =
    (let w = updateJob c (\<lambda>t. t\<lparr>tkLast := now, tkNext := None, tkFailures := 0\<rparr>) w
     in w\<lparr>wRefreshed := wRefreshed w + 1, wWarmedBytes := wWarmedBytes w + n\<rparr>)"

definition settle :: "candidate \<Rightarrow> gotime \<Rightarrow> int \<times> refresh_error option \<Rightarrow> Warmer \<Rightarrow> Warmer" where
  "settle c now result w =
    (let w = w\<lparr>wActive := None, wActiveScope := []\<rparr> in
     case result of
       (n, Some e) \<Rightarrow> settleError c now e w
     | (n, None) \<Rightarrow> settleSuccess c now n w)"

record counts =
  ctPerScope :: "string \<Rightarrow> int"
  ctUsed :: int
  ctRequests :: int

datatype round_result = Stop Warmer "wev list" | Continue Warmer "wev list" counts

definition fetchStep :: "warmer_env \<Rightarrow> wround \<Rightarrow> candidate \<Rightarrow> counts \<Rightarrow> Warmer \<Rightarrow> Warmer \<times> wev list \<times> counts" where
  "fetchStep env rd c k w =
    (let w = applyOps env (rdFetch rd) (activate c w);
         sc = jobScope (cdJob c);
         (n, err, sent, published) = refreshChecked env rd (tkKey (cdJob c)) (tkSnap (cdJob c)) (cdToken c) (cdOwner c)
           (permit c (rdNow rd 2) w);
         w = settle c (rdNow rd 3) (n, err) (applyOps env (rdPublish rd) w)
     in (w, sent @ opEvents (rdFetch rd) @ published @ opEvents (rdPublish rd),
         \<lparr>ctPerScope = (ctPerScope k)(sc := ctPerScope k sc + 1), ctUsed = ctUsed k + n, ctRequests = ctRequests k + 1\<rparr>))"

definition pickStep :: "warmer_env \<Rightarrow> wround \<Rightarrow> candidate \<Rightarrow> counts \<Rightarrow> Warmer \<Rightarrow> round_result" where
  "pickStep env rd c k w =
    (let w = applyOps env (rdPick rd) w; evs = opEvents (rdPick rd) in
     if weKeyFunc env \<and> rdKey rd 0 (tkSnap (cdJob c)) \<noteq> tkKey (cdJob c)
     then Continue (w\<lparr>wTracked := AList.delete (cdID c) (wTracked w), wDropped := wDropped w + 1\<rparr>) evs k
     else if weCanWarm env \<and> \<not> rdCanWarm rd (tkSnap (cdJob c)) then Stop w evs
     else if blocked w then Stop w evs
     else (case fetchStep env rd c k w of (w, evs', k) \<Rightarrow> Continue w (evs @ evs') k))"

definition roundStep :: "warmer_env \<Rightarrow> string \<Rightarrow> string \<Rightarrow> wround \<Rightarrow> counts \<Rightarrow> Warmer \<Rightarrow> round_result" where
  "roundStep env owner ownerScope rd k w =
    (let w = applyOps env (rdStart rd) w; cfg = wConfig w; evs = opEvents (rdStart rd) in
     if ctRequests k \<ge> cfRequestsPerPass cfg \<or> rdCtxErr rd \<or> cfBytesPerPass cfg - ctUsed k < int MaxEntryBytes + 1
     then Stop w evs
     else
       let w = expireContextsLocked (rdNow rd 0) (applyOps env (rdLock rd) w);
           evs = evs @ opEvents (rdLock rd) in
       if blocked w then Stop w evs
       else (case nextCandidateLocked (rdNow rd 1) owner ownerScope (ctPerScope k) w of
           (w, None) \<Rightarrow> Stop w evs
         | (w, Some c) \<Rightarrow>
             (case pickStep env rd c k w of
                Stop w evs' \<Rightarrow> Stop w (evs @ evs')
              | Continue w evs' k' \<Rightarrow> Continue w (evs @ evs') k')))"

section \<open>The pass\<close>

fun refreshLoop :: "warmer_env \<Rightarrow> string \<Rightarrow> string \<Rightarrow> wround list \<Rightarrow> counts \<Rightarrow> Warmer \<Rightarrow> (Warmer \<times> wev list) option" where
  "refreshLoop env owner ownerScope [] k w = None"
| "refreshLoop env owner ownerScope (rd # rds) k w =
    (case roundStep env owner ownerScope rd k w of
       Stop w evs \<Rightarrow> Some (w, evs)
     | Continue w evs k \<Rightarrow> map_option (\<lambda>(w, evs'). (w, evs @ evs')) (refreshLoop env owner ownerScope rds k w))"

text \<open>The owner's token, account and identity as the wired functions and the database answer.\<close>

record owner_answers =
  oaToken :: "string \<times> bool"
  oaAccount :: "int \<times> bool"
  oaUUID :: string

definition ownerToken :: "warmer_env \<Rightarrow> owner_answers \<Rightarrow> string \<times> bool" where
  "ownerToken env a = (if weOwnerToken env then oaToken a else ([], False))"

definition canonicalScope :: "warmer_env \<Rightarrow> int \<Rightarrow> string \<Rightarrow> string" where
  "canonicalScope env accountID uuid =
    (if uuid \<noteq> [] then UserScope uuid else if weDB env then [] else ''acct:'' @ itoa accountID)"

definition ownerScopeOf :: "warmer_env \<Rightarrow> gotime \<Rightarrow> owner_answers \<Rightarrow> Warmer \<Rightarrow> Warmer \<times> string" where
  "ownerScopeOf env now a w =
    (if \<not> weOwnerAccount env then (w, [])
     else (case wOwner w of
         Some (acct, uuid, True, at) \<Rightarrow>
           if now - at < minute then (w, canonicalScope env acct uuid)
           else (case oaAccount a of (acct, ok) \<Rightarrow>
             let uuid = (if ok \<and> weDB env then oaUUID a else [])
             in (w\<lparr>wOwner := Some (acct, uuid, ok, now)\<rparr>, if ok then canonicalScope env acct uuid else []))
       | _ \<Rightarrow> (case oaAccount a of (acct, ok) \<Rightarrow>
             let uuid = (if ok \<and> weDB env then oaUUID a else [])
             in (w\<lparr>wOwner := Some (acct, uuid, ok, now)\<rparr>, if ok then canonicalScope env acct uuid else []))))"

definition finishPass :: "Warmer \<Rightarrow> Warmer" where
  "finishPass w = w\<lparr>wRunning := False, wActive := None, wActiveScope := []\<rparr>"

definition startCounts :: counts where
  "startCounts = \<lparr>ctPerScope = (\<lambda>_. 0), ctUsed = 0, ctRequests = 0\<rparr>"

definition refreshPass ::
  "warmer_env \<Rightarrow> gotime \<Rightarrow> owner_answers \<Rightarrow> wround list \<Rightarrow> Warmer \<Rightarrow> (Warmer \<times> wev list) option" where
  "refreshPass env now a rounds w =
    (if \<not> weStore env \<or> wRunning w \<or> blocked w then Some (w, [])
     else
       let w = w\<lparr>wRunning := True\<rparr>; (owner, ownerOK) = ownerToken env a;
           (w, ownerScope) = (if ownerOK then ownerScopeOf env now a w else (w, []));
           w = expireContextsLocked now (w\<lparr>wWarming := ownerOK \<and> ownerScope \<noteq> []\<rparr>)
       in map_option (\<lambda>(w, evs). (finishPass w, evs)) (refreshLoop env owner ownerScope rounds startCounts w))"

end
