(* ===== verification/Warmer_Limits.thy ===== *)
theory Warmer_Limits
  imports Warmer_Pass
begin

text \<open>
  Queued jobs carry no credential, and the refresher's tables stay within their limits: the
  invariant \<open>warmer_inv\<close> and its preservation by the foreground operations. Steps that only remove credentials and
  jobs are \<open>internal\<close>; every step of a pass is, which \<open>Warmer_Safety\<close> uses.
\<close>

section \<open>Jobs carry no credential\<close>

text \<open>No parameter of a query has a secret name, nor has one of a URL among its values, at any depth.\<close>

inductive secret_free :: "string \<Rightarrow> bool" where
  secret_freeI: "(\<And>k vs. (k, vs) \<in> set (parse_query q) \<Longrightarrow> \<not> secretName k \<and>
     (\<forall>v \<in> set vs. \<forall>n. url_parse v = Some n \<longrightarrow> uRawQuery n \<noteq> [] \<longrightarrow> secret_free (uRawQuery n)))
   \<Longrightarrow> secret_free q"

lemma secret_free_Nil: "secret_free []"
  by (rule secret_freeI) (simp add: parse_query_def parse_pair_def)

lemma lower_scheme_clean:
  "list_all scheme_char s \<Longrightarrow> c \<in> set ''?#'' \<Longrightarrow> c \<notin> set (to_lower s)"
proof (induction s rule: to_lower.induct)
  case (2 a s)
  have "lower_char a \<noteq> c"
    using 2(4,5) by (auto simp: lower_char_def scheme_char_def alnum_def
        dest!: arg_cong [of "char_of _" _ "of_char :: char \<Rightarrow> nat"] split: if_splits)
  moreover have "a \<noteq> CHR 0xE2" "a \<noteq> CHR 0xC4" using 2(4) by (auto simp: scheme_char_def alnum_def)
  ultimately show ?case using 2 by simp
qed simp

lemma parsed_url_clean:
  assumes "url_parse raw = Some u" "c \<in> set ''?#''"
  shows "c \<notin> set (uScheme u)" "c \<notin> set (uOpaque u)"
proof -
  from assms(1) obtain u0 where u0: "parse_url (before (CHR ''#'') raw) = Some u0" "uScheme u = uScheme u0"
    "uOpaque u = uOpaque u0" by (rule url_parse_url)
  show "c \<notin> set (uScheme u)" "c \<notin> set (uOpaque u)"
  proof (atomize (full), cases "before (CHR ''#'') raw = ''*''")
    case True
    with u0 show "c \<notin> set (uScheme u) \<and> c \<notin> set (uOpaque u)"
      by (auto simp: parse_url_def emptyURL_def split: if_splits)
  next
    case False
    from parse_url_Some [OF u0(1) this] obtain s rest where s: "get_scheme (before (CHR ''#'') raw) = Some (s, rest)"
      "parse_hier (fst (parse_query_part rest (emptyURL\<lparr>uScheme := to_lower s\<rparr>)))
         (snd (parse_query_part rest (emptyURL\<lparr>uScheme := to_lower s\<rparr>))) = Some u0" .
    define v where "v = snd (parse_query_part rest (emptyURL\<lparr>uScheme := to_lower s\<rparr>))"
    have v: "uScheme v = to_lower s" "uOpaque v = []" by (simp_all add: v_def parse_query_part_def emptyURL_def)
    have "uScheme u0 = uScheme v \<and> (uOpaque u0 = [] \<or> uOpaque u0 = before (CHR ''?'') rest)"
      using s(2) v(2) unfolding v_def [symmetric] parse_query_part_fst
      by (auto simp: parse_hier_def Let_def dest!: set_path_sel split: if_splits option.splits)
    moreover have "list_all scheme_char s" using get_scheme_split [OF s(1)] by (cases "s = []") auto
    moreover have "set (before (CHR ''?'') rest) \<subseteq> set (before (CHR ''#'') raw) - {CHR ''?''}"
      using get_scheme_rest [OF s(1)] by (auto simp: before_def dest: set_takeWhileD)
    ultimately show "c \<notin> set (uScheme u) \<and> c \<notin> set (uOpaque u)"
      using assms(2) lower_scheme_clean [of s c] before_free [of "CHR ''#''" raw] u0(2,3) v(1) by auto
  qed
qed

lemma url_hier_clean:
  assumes "url_parse raw = Some u" "c \<in> set ''?#''"
  shows "c \<notin> set (url_hier u)"
  using parsed_url_clean [OF assms] escaped_path_clean [OF assms(2), of u] authority_string_clean [of c u] assms(2)
  by (auto simp: url_hier_def url_authority_def Let_def)

lemma no_query_mark:
  assumes "url_parse raw = Some u" "CHR ''?'' \<notin> set (before (CHR ''#'') raw)"
  shows "uRawQuery u = []"
proof -
  from assms(1) obtain u0 where u0: "parse_url (before (CHR ''#'') raw) = Some u0" "uRawQuery u = uRawQuery u0"
    by (rule url_parse_url)
  show ?thesis
  proof (cases "before (CHR ''#'') raw = ''*''")
    case True
    with u0 show ?thesis by (auto simp: parse_url_def emptyURL_def split: if_splits)
  next
    case False
    from parse_url_Some [OF u0(1) this] obtain s rest where s: "get_scheme (before (CHR ''#'') raw) = Some (s, rest)"
      "parse_hier (fst (parse_query_part rest (emptyURL\<lparr>uScheme := to_lower s\<rparr>)))
         (snd (parse_query_part rest (emptyURL\<lparr>uScheme := to_lower s\<rparr>))) = Some u0" .
    have "CHR ''?'' \<notin> set rest" using get_scheme_rest [OF s(1)] assms(2) by auto
    then show ?thesis
      using parse_hier_RawQuery [OF s(2)] u0(2) by (simp add: parse_query_part_def emptyURL_def after_no_sep)
  qed
qed

text \<open>Replacing the query of a parsed URL, printing and parsing gives the new query back.\<close>

lemma reparsed_query:
  assumes "url_parse raw = Some u" "uRawQuery u \<noteq> []" "CHR ''#'' \<notin> set q" "\<not> list_ex ctl_byte q"
    and "url_parse (print_url (u\<lparr>uRawQuery := q\<rparr>)) = Some n"
  shows "uRawQuery n = q"
proof -
  have force: "\<not> uForceQuery u"
  proof -
    from assms(1) obtain u0 where u0: "parse_url (before (CHR ''#'') raw) = Some u0" "uRawQuery u = uRawQuery u0"
      "uForceQuery u = uForceQuery u0" by (rule url_parse_url)
    with assms(2) have "before (CHR ''#'') raw \<noteq> ''*''" by (auto simp: parse_url_def emptyURL_def split: if_splits)
    from parse_url_Some [OF u0(1) this] obtain s rest where s:
      "parse_hier (fst (parse_query_part rest (emptyURL\<lparr>uScheme := to_lower s\<rparr>)))
         (snd (parse_query_part rest (emptyURL\<lparr>uScheme := to_lower s\<rparr>))) = Some u0" .
    define v where "v = snd (parse_query_part rest (emptyURL\<lparr>uScheme := to_lower s\<rparr>))"
    have "uForceQuery u0 = uForceQuery v" "uRawQuery u0 = uRawQuery v"
      using s unfolding v_def [symmetric] by (auto simp: parse_hier_def Let_def dest!: set_path_sel split: if_splits option.splits)
    moreover have "uForceQuery v \<Longrightarrow> uRawQuery v = []"
      by (auto simp: v_def parse_query_part_def emptyURL_def split: if_splits)
    ultimately show ?thesis using u0 assms(2) by auto
  qed
  define frag where "frag = (if uFragment u \<noteq> [] then CHR ''#'' # escaped_fragment u else [])"
  have frag: "frag = [] \<or> (\<exists>f. frag = CHR ''#'' # f)" by (simp add: frag_def)
  have clean: "CHR ''?'' \<notin> set (url_hier u)" "CHR ''#'' \<notin> set (url_hier u)"
    using url_hier_clean [OF assms(1)] by auto
  have "escaped_path (u\<lparr>uRawQuery := q\<rparr>) = escaped_path u" by (simp add: escaped_path_def)
  moreover have "url_authority (u\<lparr>uRawQuery := q\<rparr>) = url_authority u"
    by (simp add: url_authority_def authority_string_def)
  moreover have "uScheme (u\<lparr>uRawQuery := q\<rparr>) = uScheme u" "uOpaque (u\<lparr>uRawQuery := q\<rparr>) = uOpaque u"
    "uHost (u\<lparr>uRawQuery := q\<rparr>) = uHost u" by simp_all
  ultimately have "url_hier (u\<lparr>uRawQuery := q\<rparr>) = url_hier u" by (simp only: url_hier_def)
  moreover have "escaped_fragment (u\<lparr>uRawQuery := q\<rparr>) = escaped_fragment u" by (simp add: escaped_fragment_def)
  ultimately have print: "print_url (u\<lparr>uRawQuery := q\<rparr>) = url_hier u @ (if q \<noteq> [] then CHR ''?'' # q else []) @ frag"
    using force by (simp add: print_url_def frag_def)
  show ?thesis
  proof (cases "q = []")
    case True
    then have "before (CHR ''#'') (print_url (u\<lparr>uRawQuery := q\<rparr>)) = url_hier u"
      using clean(2) frag print by (auto simp: cut_simps)
    with no_query_mark [OF assms(5)] clean(1) True show ?thesis by simp
  next
    case False
    with url_parse_query [OF clean False assms(3,4) frag] assms(5) print show ?thesis by auto
  qed
qed

lemma stripSecrets_clean: "CHR ''#'' \<notin> set (stripSecrets raw)" "\<not> list_ex ctl_byte (stripSecrets raw)"
  by (simp_all add: stripSecrets.simps [of raw] values_encode_clean)

text \<open>
  Stripping leaves no credential in a query: whatever the query, no parameter of the result is
  named like a token in any letter case, and neither is one of the parameters of a URL among
  its values, at any depth of nesting.
\<close>

lemma stripSecrets_secret_free: "secret_free (stripSecrets raw)"
proof (induction raw rule: stripSecrets.induct)
  case (1 raw)
  show ?case
  proof (cases "raw = [] \<or> query_error raw")
    case True
    then show ?thesis by (simp add: stripSecrets.simps [of raw] secret_free_Nil)
  next
    case False
    define f where "f v = (case url_parse v of None \<Rightarrow> v | Some nested \<Rightarrow> if uRawQuery nested = [] then v
        else print_url (nested\<lparr>uRawQuery := stripSecrets (uRawQuery nested)\<rparr>))" for v
    define kept where "kept = filter (\<lambda>(k, vs). \<not> secretName k) (parse_query raw)"
    define q where "q = map (\<lambda>(k, vs). (k, map f vs)) kept"
    have strip: "stripSecrets raw = values_encode q"
      using False by (simp add: stripSecrets.simps [of raw] q_def kept_def f_def [abs_def])
    have "wf_map kept" by (simp add: kept_def wf_map_parse_query)
    then have wf: "wf_map q" by (simp add: q_def wf_map_def comp_def case_prod_unfold)
    show ?thesis
    proof (rule secret_freeI)
      fix k vs
      assume entry: "(k, vs) \<in> set (parse_query (stripSecrets raw))"
      then have "vs = values_of q k" "vs \<noteq> []"
        using parse_query_entry [OF entry] values_of_parse_encode [OF wf, of k] parse_query_nonempty [of "stripSecrets raw" k]
          map_of_in_set [OF wf_map_parse_query, of "stripSecrets raw" k vs] strip by auto
      then have "map_of q k = Some vs" by (cases "map_of q k") (auto simp: values_of_def)
      from map_of_SomeD [OF this] obtain vs0 where vs0: "(k, vs0) \<in> set kept" "vs = map f vs0"
        by (auto simp: q_def)
      have "secret_free (uRawQuery n)" if "v0 \<in> set vs0" "url_parse (f v0) = Some n" "uRawQuery n \<noteq> []" for v0 n
      proof (cases "url_parse v0")
        case (Some nested)
        show ?thesis
        proof (cases "uRawQuery nested = []")
          case False
          have "secret_free (stripSecrets (uRawQuery nested))"
            using "1.IH" \<open>\<not> (raw = [] \<or> query_error raw)\<close> vs0(1) that(1) Some False unfolding kept_def by blast
          moreover have "uRawQuery n = stripSecrets (uRawQuery nested)"
            using reparsed_query [OF Some False stripSecrets_clean] that(2) Some False by (simp add: f_def)
          ultimately show ?thesis by simp
        qed (use that Some in \<open>simp add: f_def\<close>)
      qed (use that in \<open>simp add: f_def\<close>)
      with vs0 show "\<not> secretName k \<and>
          (\<forall>v \<in> set vs. \<forall>n. url_parse v = Some n \<longrightarrow> uRawQuery n \<noteq> [] \<longrightarrow> secret_free (uRawQuery n))"
        by (auto simp: kept_def)
    qed
  qed
qed

section \<open>Tables stay within their limits\<close>

definition job_ok :: "tracked \<Rightarrow> bool" where
  "job_ok t \<longleftrightarrow> secret_free (snRawQuery (tkSnap t)) \<and> jobScope t \<noteq> [] \<and> 0 < snTTL (tkSnap t) \<and>
     Low \<le> snPriority (tkSnap t) \<and> snPriority (tkSnap t) \<le> Protected"

definition warmer_inv :: "Warmer \<Rightarrow> bool" where
  "warmer_inv w \<longleftrightarrow> wf_map (wTracked w) \<and> wf_map (wContexts w) \<and> wf_map (wServed w) \<and>
     validConfig (wConfig w) \<and> int (length (wTracked w)) \<le> cfMaxTracked (wConfig w) \<and>
     length (wContexts w) \<le> maxContexts \<and> (\<forall>e \<in> set (wTracked w). job_ok (snd e))"

text \<open>Steps that only remove credentials, and steps that only remove jobs or touch their bookkeeping.\<close>

definition narrows :: "Warmer \<Rightarrow> Warmer \<Rightarrow> bool" where
  "narrows w w' \<longleftrightarrow> (wf_map (wContexts w) \<longrightarrow> wf_map (wContexts w')) \<and> set (wContexts w') \<subseteq> set (wContexts w) \<and>
     length (wContexts w') \<le> length (wContexts w) \<and> wContextVersion w' = wContextVersion w"

definition keeps_jobs :: "Warmer \<Rightarrow> Warmer \<Rightarrow> bool" where
  "keeps_jobs w w' \<longleftrightarrow> wConfig w' = wConfig w \<and> (wf_map (wTracked w) \<longrightarrow> wf_map (wTracked w')) \<and>
     (wf_map (wServed w) \<longrightarrow> wf_map (wServed w')) \<and> length (wTracked w') \<le> length (wTracked w) \<and>
     fst ` set (wTracked w') \<subseteq> fst ` set (wTracked w) \<and>
     (\<forall>e' \<in> set (wTracked w'). \<exists>e \<in> set (wTracked w). tkSnap (snd e') = tkSnap (snd e))"

definition internal :: "Warmer \<Rightarrow> Warmer \<Rightarrow> bool" where
  "internal w w' \<longleftrightarrow> narrows w w' \<and> keeps_jobs w w'"

lemma internal_refl [simp]: "internal w w"
  by (auto simp: internal_def narrows_def keeps_jobs_def)

lemma narrows_trans: "narrows a b \<Longrightarrow> narrows b c \<Longrightarrow> narrows a c"
  unfolding narrows_def by (elim conjE, intro conjI) (blast, blast, rule order_trans, assumption+, simp)

lemma keeps_jobs_snap:
  assumes "keeps_jobs w w'" "e' \<in> set (wTracked w')"
  obtains e where "e \<in> set (wTracked w)" "tkSnap (snd e') = tkSnap (snd e)"
proof -
  from assms(1) have "\<forall>e' \<in> set (wTracked w'). \<exists>e \<in> set (wTracked w). tkSnap (snd e') = tkSnap (snd e)"
    by (simp add: keeps_jobs_def)
  with assms(2) that show thesis by blast
qed

lemma keeps_jobs_trans:
  assumes "keeps_jobs a b" "keeps_jobs b c"
  shows "keeps_jobs a c"
proof -
  have "\<exists>e \<in> set (wTracked a). tkSnap (snd e'') = tkSnap (snd e)" if job: "e'' \<in> set (wTracked c)" for e''
  proof -
    obtain e' where "e' \<in> set (wTracked b)" "tkSnap (snd e'') = tkSnap (snd e')"
      by (rule keeps_jobs_snap [OF assms(2) job])
    moreover then obtain e where "e \<in> set (wTracked a)" "tkSnap (snd e') = tkSnap (snd e)"
      using keeps_jobs_snap [OF assms(1)] by metis
    ultimately show ?thesis by auto
  qed
  moreover have "fst ` set (wTracked c) \<subseteq> fst ` set (wTracked a)"
    by (rule order_trans [of _ "fst ` set (wTracked b)"]) (use assms in \<open>simp_all add: keeps_jobs_def\<close>)
  ultimately show ?thesis using assms by (simp add: keeps_jobs_def)
qed

lemma internal_trans: "internal a b \<Longrightarrow> internal b c \<Longrightarrow> internal a c"
  unfolding internal_def by (elim conjE, intro conjI) (erule (1) narrows_trans, erule (1) keeps_jobs_trans)

lemma keeps_jobs_ok:
  assumes "keeps_jobs w w'" "\<forall>e \<in> set (wTracked w). job_ok (snd e)"
  shows "\<forall>e \<in> set (wTracked w'). job_ok (snd e)"
proof
  fix e'
  assume "e' \<in> set (wTracked w')"
  then obtain e where "e \<in> set (wTracked w)" "tkSnap (snd e') = tkSnap (snd e)"
    using keeps_jobs_snap [OF assms(1)] by metis
  with assms(2) show "job_ok (snd e')" by (auto simp: job_ok_def)
qed

lemma internal_inv: "internal w w' \<Longrightarrow> warmer_inv w \<Longrightarrow> warmer_inv w'"
  using keeps_jobs_ok [of w w'] unfolding internal_def warmer_inv_def
  by (simp add: narrows_def keeps_jobs_def)

lemma internalI:
  assumes "wConfig w' = wConfig w" "wContextVersion w' = wContextVersion w"
    and "wf_map (wTracked w) \<Longrightarrow> wf_map (wTracked w')" "set (wTracked w') \<subseteq> set (wTracked w)"
      "length (wTracked w') \<le> length (wTracked w)"
    and "wf_map (wContexts w) \<Longrightarrow> wf_map (wContexts w')" "set (wContexts w') \<subseteq> set (wContexts w)"
      "length (wContexts w') \<le> length (wContexts w)"
    and "wf_map (wServed w) \<Longrightarrow> wf_map (wServed w')"
  shows "internal w w'"
proof -
  have "\<exists>e \<in> set (wTracked w). tkSnap (snd e') = tkSnap (snd e)" if "e' \<in> set (wTracked w')" for e'
    using that assms(4) by blast
  with assms show ?thesis by (simp add: internal_def narrows_def keeps_jobs_def image_mono)
qed

lemma internal_expire: "internal w (expireContextsLocked now w)"
  by (rule internalI) (auto simp: expireContextsLocked_def)

lemma internal_cancelActive: "internal w (cancelActive w)"
  by (rule internalI) (auto simp: cancelActive_def)

lemma internal_dropScope: "internal w (dropScope sc w)"
  by (rule internalI) (auto simp: dropScope_def)

lemma internal_evict: "internal w (fst (evictJobLocked p w))"
  by (rule internalI) (auto simp: evictJobLocked_def AList.length_delete_le
      dest: subsetD [OF set_delete_subset] split: option.splits)

lemma internal_evictUntil: "internal w (evictUntil bound w)"
proof (induction bound w rule: evictUntil.induct)
  case (1 bound w)
  then show ?case
    using internal_evict [of w None] internal_trans by (subst evictUntil.simps) auto
qed

lemma evictUntil_bound: "0 \<le> bound \<Longrightarrow> int (length (wTracked (evictUntil bound w))) \<le> bound"
proof (induction bound w rule: evictUntil.induct)
  case (1 bound w)
  then show ?case by (subst evictUntil.simps) auto
qed

lemma internal_ForgetScope: "internal w (ForgetScope sc w)"
proof -
  define w1 where "w1 = w\<lparr>wContexts := AList.delete sc (wContexts w), wServed := AList.delete sc (wServed w)\<rparr>"
  have "internal w w1"
    by (rule internalI) (auto simp: w1_def AList.length_delete_le dest: subsetD [OF set_delete_subset])
  moreover define w2 where "w2 = (if wActiveScope w1 = sc then cancelActive w1 else w1)"
  then have "internal w1 w2" by (simp add: internal_cancelActive)
  ultimately have "internal w (dropScope sc w2)"
    using internal_dropScope [of w2 sc] internal_trans by blast
  moreover have "ForgetScope sc w = (if sc = [] then w else dropScope sc w2)"
    by (simp add: ForgetScope_def w2_def w1_def Let_def)
  ultimately show ?thesis by simp
qed

lemma internal_SetPaused: "internal w (SetPaused p w)"
proof -
  have "internal w (w\<lparr>wPaused := p\<rparr>)" by (rule internalI) auto
  with internal_cancelActive [of "w\<lparr>wPaused := p\<rparr>"] internal_trans show ?thesis by (auto simp: SetPaused_def Let_def)
qed

lemma internal_Foreground: "internal w (Foreground w)" "internal w (ForegroundDone w)"
  by (rule internalI; auto simp: Foreground_def ForegroundDone_def cancelActive_def)+

text \<open>Changing the limits removes credentials and jobs.\<close>

lemma Configure_narrows: "narrows w (fst (Configure c w))"
proof -
  define w1 where "w1 = (if cfEnabled c then w\<lparr>wConfig := c\<rparr> else cancelActive (w\<lparr>wConfig := c, wContexts := []\<rparr>))"
  have "narrows w w1" by (auto simp: w1_def narrows_def cancelActive_def)
  moreover have "narrows w1 (evictUntil (cfMaxTracked c) w1)" using internal_evictUntil by (simp add: internal_def)
  ultimately have "narrows w (evictUntil (cfMaxTracked c) w1)" by (auto simp: narrows_def)
  then show ?thesis by (auto simp: Configure_def w1_def Let_def narrows_def)
qed

lemma Configure_inv: "warmer_inv w \<Longrightarrow> warmer_inv (fst (Configure c w))"
proof (cases "validConfig c")
  case True
  assume inv: "warmer_inv w"
  define w1 where "w1 = (if cfEnabled c then w\<lparr>wConfig := c\<rparr> else cancelActive (w\<lparr>wConfig := c, wContexts := []\<rparr>))"
  define w2 where "w2 = evictUntil (cfMaxTracked c) w1"
  have same: "wConfig w1 = c" "wTracked w1 = wTracked w" "wServed w1 = wServed w"
    by (auto simp: w1_def cancelActive_def)
  have w2: "internal w1 w2" by (simp add: w2_def internal_evictUntil)
  have "int (length (wTracked w2)) \<le> cfMaxTracked c"
    unfolding w2_def by (rule evictUntil_bound) (use True in \<open>simp add: validConfig_def\<close>)
  moreover have "narrows w w2"
    using Configure_narrows [of w c] True by (simp add: Configure_def w2_def w1_def Let_def)
  moreover have "\<forall>e \<in> set (wTracked w2). job_ok (snd e)"
    using keeps_jobs_ok [of w1 w2] w2 same(2) inv by (simp add: internal_def warmer_inv_def)
  ultimately have "warmer_inv w2"
    using inv True w2 same by (simp add: warmer_inv_def internal_def keeps_jobs_def narrows_def)
  then show ?thesis using True by (simp add: Configure_def w2_def w1_def Let_def)
qed (simp add: Configure_def)

section \<open>Recording a job\<close>

lemma storeCredential_frame [simp]:
  "wTracked (storeCredential now sc cred w) = wTracked w" "wConfig (storeCredential now sc cred w) = wConfig w"
  "wServed (storeCredential now sc cred w) = wServed w"
  "wContextVersion (storeCredential now sc cred w) = wContextVersion w + 1"
  by (simp_all add: storeCredential_def Let_def)

lemma storeCredential_contexts:
  assumes "wf_map (wContexts w)"
  shows "wf_map (wContexts (storeCredential now sc cred w))"
    and "length (wContexts w) \<le> maxContexts \<Longrightarrow> length (wContexts (storeCredential now sc cred w)) \<le> maxContexts"
    and "map_of (wContexts (storeCredential now sc cred w)) k = Some c \<Longrightarrow>
      (if k = sc then c = \<lparr>ccToken = cred, ccExpires = now + credentialTTL, ccVersion = wContextVersion w + 1\<rparr>
       else map_of (wContexts w) k = Some c)"
proof -
  define ctxs where "ctxs = (if map_of (wContexts w) sc = None \<and> maxContexts \<le> length (wContexts w)
      then (case scan_least (ccExpires \<circ> snd) (wContexts w) of
              Some (oldest, _) \<Rightarrow> AList.delete oldest (wContexts w) | None \<Rightarrow> wContexts w)
      else wContexts w)"
  have store: "wContexts (storeCredential now sc cred w) =
      AList.update sc \<lparr>ccToken = cred, ccExpires = now + credentialTTL, ccVersion = wContextVersion w + 1\<rparr> ctxs"
    by (simp add: storeCredential_def ctxs_def Let_def)
  show "wf_map (wContexts (storeCredential now sc cred w))"
    using assms by (auto simp: store ctxs_def split: option.splits)
  show "map_of (wContexts (storeCredential now sc cred w)) k = Some c \<Longrightarrow>
      (if k = sc then c = \<lparr>ccToken = cred, ccExpires = now + credentialTTL, ccVersion = wContextVersion w + 1\<rparr>
       else map_of (wContexts w) k = Some c)"
    by (auto simp: store ctxs_def map_of_update map_of_delete split: if_splits option.splits)
  assume bound: "length (wContexts w) \<le> maxContexts"
  show "length (wContexts (storeCredential now sc cred w)) \<le> maxContexts"
  proof (cases "map_of (wContexts w) sc = None \<and> maxContexts \<le> length (wContexts w)")
    case True
    then have "wContexts w \<noteq> []" by (auto simp: maxContexts_def)
    then obtain k e where least: "scan_least (ccExpires \<circ> snd) (wContexts w) = Some (k, e)"
      using scan_least_None [of "ccExpires \<circ> snd" "wContexts w"] by (cases "scan_least (ccExpires \<circ> snd) (wContexts w)") auto
    from length_delete_scanned [OF this] have "length ctxs < maxContexts"
      using True bound least by (simp add: ctxs_def)
    then show ?thesis using length_update_le [of sc _ ctxs] by (simp add: store) (meson le_trans Suc_leI)
  next
    case False
    then have "ctxs = wContexts w" by (simp only: ctxs_def if_False)
    moreover have "sc \<in> fst ` set (wContexts w) \<or> length (wContexts w) < maxContexts"
      using False by (auto simp: map_of_eq_None_iff)
    ultimately show ?thesis using bound by (auto simp: store length_update)
  qed
qed

lemma internal_roomFor: "internal w (fst (roomFor jid p w))"
  by (simp add: roomFor_def internal_evict)

lemma roomFor_bound:
  assumes "snd (roomFor jid p w)" "0 < cfMaxTracked (wConfig w)"
  shows "map_of (wTracked (fst (roomFor jid p w))) jid \<noteq> None \<or>
    int (length (wTracked (fst (roomFor jid p w)))) < cfMaxTracked (wConfig w) \<or>
    int (length (wTracked (fst (roomFor jid p w)))) < int (length (wTracked w))"
proof (cases "map_of (wTracked w) jid = None \<and> int (length (wTracked w)) \<ge> cfMaxTracked (wConfig w)")
  case True
  with assms(2) have "wTracked w \<noteq> []" by auto
  then obtain k t where v: "victimJob (wTracked w) = Some (k, t)"
    using victimJob_None [of "wTracked w"] by (cases "victimJob (wTracked w)") auto
  from victimJob_mem [OF this] have "k \<in> fst ` set (wTracked w)" by force
  with True v assms(1) show ?thesis
    by (auto simp: roomFor_def evictJobLocked_def length_delete_less split: if_splits)
qed (auto simp: roomFor_def)

lemma withCredential_frame [simp]:
  "wTracked (withCredential now sc cred auth w) = wTracked w" "wConfig (withCredential now sc cred auth w) = wConfig w"
  by (simp_all add: withCredential_def Let_def expireContextsLocked_def)

lemma withCredential_contexts:
  assumes "wf_map (wContexts w)"
  shows "wf_map (wContexts (withCredential now sc cred auth w))"
    and "length (wContexts w) \<le> maxContexts \<Longrightarrow> length (wContexts (withCredential now sc cred auth w)) \<le> maxContexts"
    and "map_of (wContexts (withCredential now sc cred auth w)) k = Some c \<Longrightarrow>
      map_of (wContexts w) k = Some c \<or> auth \<and> k = sc \<and>
        c = \<lparr>ccToken = cred, ccExpires = now + credentialTTL, ccVersion = wContextVersion w + 1\<rparr>"
    and "wContextVersion (withCredential now sc cred auth w) = (if auth then wContextVersion w + 1 else wContextVersion w)"
proof -
  define w1 where "w1 = expireContextsLocked now w"
  have w1: "internal w w1" by (simp add: w1_def internal_expire)
  then have wf: "wf_map (wContexts w1)" and v: "wContextVersion w1 = wContextVersion w"
    and len: "length (wContexts w1) \<le> length (wContexts w)" and sub: "set (wContexts w1) \<subseteq> set (wContexts w)"
    using assms by (auto simp: internal_def narrows_def)
  have old: "map_of (wContexts w1) k = Some c \<Longrightarrow> map_of (wContexts w) k = Some c" for k c
    using sub wf assms by (simp add: map_of_in_set subset_iff)
  have w: "withCredential now sc cred auth w = (if auth then storeCredential now sc cred w1 else w1)"
    by (simp add: withCredential_def w1_def)
  show "wf_map (wContexts (withCredential now sc cred auth w))"
    using wf storeCredential_contexts(1) by (simp add: w)
  show "length (wContexts w) \<le> maxContexts \<Longrightarrow> length (wContexts (withCredential now sc cred auth w)) \<le> maxContexts"
    using len storeCredential_contexts(2) [OF wf] by (simp add: w)
  show "map_of (wContexts (withCredential now sc cred auth w)) k = Some c \<Longrightarrow>
      map_of (wContexts w) k = Some c \<or> auth \<and> k = sc \<and>
        c = \<lparr>ccToken = cred, ccExpires = now + credentialTTL, ccVersion = wContextVersion w + 1\<rparr>"
    using storeCredential_contexts(3) [OF wf, of now sc cred k c] old v by (auto simp: w split: if_splits)
  show "wContextVersion (withCredential now sc cred auth w) = (if auth then wContextVersion w + 1 else wContextVersion w)"
    by (simp add: w v)
qed

lemma queued_job_ok:
  assumes "trackable env key s cred auth" "Low \<le> snPriority s" "snPriority s \<le> Protected"
  shows "job_ok \<lparr>tkKey = key, tkSnap = queuedSnapshot s, tkLast = now, tkObserved = now, tkNext = None, tkFailures = 0,
         tkRequiresContext = auth, tkSequence = n\<rparr>"
proof -
  have "routePriority p \<in> {Low..Protected}" for p by (auto simp: routePriority_def Let_def)
  with assms stripSecrets_secret_free [of "snRawQuery s"] show ?thesis
    by (auto simp: job_ok_def queuedSnapshot_def trackable_def)
qed

text \<open>Recording a job keeps the limits and adds at most the credential of the call.\<close>

lemma track_inv: "warmer_inv w \<Longrightarrow> warmer_inv (track env now key s cred auth w)"
proof -
  assume inv: "warmer_inv w"
  define w1 where "w1 = withCredential now (snScope s) cred auth w"
  define jid where "jid = snapshotID env (queuedSnapshot s)"
  define w2 where "w2 = fst (roomFor jid (snPriority (queuedSnapshot s)) w1)"
  have "wf_map (wServed w1)" using inv by (auto simp: w1_def withCredential_def expireContextsLocked_def warmer_inv_def Let_def)
  with inv have inv1: "warmer_inv w1"
    using withCredential_contexts(1,2) [of w] by (simp add: warmer_inv_def w1_def)
  have inv2: "warmer_inv w2" using internal_inv [OF internal_roomFor inv1] by (simp add: w2_def)
  have queued: "warmer_inv (queueJob jid now key (queuedSnapshot s) auth w2)"
    if "snd (roomFor jid (snPriority (queuedSnapshot s)) w1)" "trackable env key s cred auth" "Low \<le> snPriority s" "snPriority s \<le> Protected"
  proof -
    have "0 < cfMaxTracked (wConfig w1)" using inv1 by (simp add: warmer_inv_def validConfig_def)
    from roomFor_bound [OF that(1) this] have "map_of (wTracked w2) jid \<noteq> None \<or> int (length (wTracked w2)) < cfMaxTracked (wConfig w1)"
      using inv1 by (auto simp: w2_def warmer_inv_def)
    moreover have "wConfig w2 = wConfig w1" using internal_roomFor [of w1] by (simp add: w2_def internal_def keeps_jobs_def)
    ultimately have "int (length (AList.update jid t (wTracked w2))) \<le> cfMaxTracked (wConfig w2)" for t
      using inv2 by (auto simp: warmer_inv_def length_update map_of_eq_None_iff)
    then show ?thesis
      using inv2 queued_job_ok [OF that(2-4)] unfolding queueJob_def warmer_inv_def
      by (auto dest!: subsetD [OF set_update_subset])
  qed
  have "track env now key s cred auth w = (if trackable env key s cred auth \<and> Low \<le> snPriority s \<and> snPriority s \<le> Protected \<and> cfEnabled (wConfig w)
      then if snd (roomFor jid (snPriority (queuedSnapshot s)) w1) then queueJob jid now key (queuedSnapshot s) auth w2 else w2 else w)"
    by (auto simp: track_def Let_def case_prod_unfold jid_def w1_def w2_def queuedSnapshot_def)
  with inv inv2 queued show ?thesis by simp
qed

end
