(* ===== verification/Warmer_Safety.thy ===== *)
theory Warmer_Safety
  imports Warmer_Limits
begin

text \<open>
  What a refresh pass guarantees under every interleaving with the foreground: the tables stay within their limits, a
  request goes out only with a credential that its own user presented less than two minutes ago or with the
  owner's credential for the owner's scope, an entry is published only while that credential is held and the user is not forgotten,
  and a pass ends within its budget.
\<close>

section \<open>Operations of the foreground\<close>

lemma applyOp_inv: "warmer_inv w \<Longrightarrow> warmer_inv (applyOp env t op w)"
  by (cases op) (auto simp: applyOp_def Track_def TrackAuthorized_def track_inv Configure_inv stats_def Let_def
      intro: internal_inv internal_ForgetScope internal_SetPaused internal_Foreground internal_expire)

lemma applyOps_append: "applyOps env (a @ b) w = applyOps env b (applyOps env a w)"
  by (simp add: applyOps_def)

text \<open>An operation keeps a credential as it is, removes it, or stores the one it presents.\<close>

lemma internal_contexts:
  "internal w w' \<Longrightarrow> warmer_inv w \<Longrightarrow> map_of (wContexts w') k = Some c \<Longrightarrow> map_of (wContexts w) k = Some c"
  by (auto simp: internal_def narrows_def warmer_inv_def map_of_in_set subset_iff)

lemma track_contexts:
  assumes "warmer_inv w" "map_of (wContexts (track env now key s cred auth w)) k = Some c"
  shows "map_of (wContexts w) k = Some c \<or> auth \<and> k = snScope s \<and>
      c = \<lparr>ccToken = cred, ccExpires = now + credentialTTL, ccVersion = wContextVersion w + 1\<rparr> \<and>
      wContextVersion (track env now key s cred auth w) = wContextVersion w + 1"
proof -
  define w1 where "w1 = withCredential now (snScope s) cred auth w"
  define room where "room = roomFor (snapshotID env (queuedSnapshot s)) (snPriority (queuedSnapshot s)) w1"
  have wf: "wf_map (wContexts w)" using assms(1) by (simp add: warmer_inv_def)
  have "wf_map (wContexts w1)" using withCredential_contexts(1) [OF wf] by (simp add: w1_def)
  then have room: "wContextVersion (fst room) = wContextVersion w1"
      "map_of (wContexts (fst room)) k = Some c \<Longrightarrow> map_of (wContexts w1) k = Some c"
    using internal_roomFor [of w1 "snapshotID env (queuedSnapshot s)" "snPriority (queuedSnapshot s)"]
    by (auto simp: internal_def narrows_def map_of_in_set subset_iff room_def)
  have "track env now key s cred auth w = w \<or>
      wContexts (track env now key s cred auth w) = wContexts (fst room) \<and>
      wContextVersion (track env now key s cred auth w) = wContextVersion (fst room)"
    by (simp add: track_def Let_def case_prod_unfold queueJob_def w1_def room_def queuedSnapshot_def)
  then show ?thesis
  proof
    assume "track env now key s cred auth w = w"
    with assms(2) show ?thesis by simp
  next
    assume stored: "wContexts (track env now key s cred auth w) = wContexts (fst room) \<and>
      wContextVersion (track env now key s cred auth w) = wContextVersion (fst room)"
    with assms(2) room(2) have "map_of (wContexts w1) k = Some c" by simp
    from withCredential_contexts(3) [OF wf this [unfolded w1_def]] show ?thesis
      using withCredential_contexts(4) [OF wf, of now "snScope s" cred auth] stored room(1) by (auto simp: w1_def)
  qed
qed

lemma track_version:
  "wContextVersion (track env now key s cred auth w) \<in> {wContextVersion w, if auth then wContextVersion w + 1 else wContextVersion w}"
proof -
  define w1 where "w1 = withCredential now (snScope s) cred auth w"
  have "wContextVersion (fst (roomFor jid p w1)) = wContextVersion w1" for jid p
    using internal_roomFor [of w1 jid p] by (simp add: internal_def narrows_def)
  moreover have "wContextVersion w1 = (if auth then wContextVersion w + 1 else wContextVersion w)"
    by (simp add: w1_def withCredential_def Let_def expireContextsLocked_def)
  ultimately show ?thesis
    by (auto simp: track_def Let_def case_prod_unfold queueJob_def w1_def queuedSnapshot_def)
qed

text \<open>The credential an operation presents, with its scope.\<close>

fun presents :: "wop \<Rightarrow> (string \<times> string) option" where
  "presents (OpAuthorized key s credential) = Some (snScope s, credential)"
| "presents _ = None"

lemma applyOp_contexts:
  assumes "warmer_inv w" "map_of (wContexts (applyOp env t op w)) k = Some c"
  shows "map_of (wContexts w) k = Some c \<and> (op = OpForget k \<longrightarrow> k = []) \<or>
    presents op = Some (k, ccToken c) \<and> ccExpires c = t + credentialTTL \<and> ccVersion c = wContextVersion w + 1 \<and>
      wContextVersion (applyOp env t op w) = wContextVersion w + 1"
proof (cases op)
  case (OpAuthorized key s cred)
  then show ?thesis
    using track_contexts [OF assms(1), of env t key s cred True k c] assms(2) by (auto simp: applyOp_def TrackAuthorized_def)
next
  case (OpForget sc)
  then show ?thesis
    using assms internal_contexts [OF internal_ForgetScope, of w sc k c]
    by (auto simp: applyOp_def ForgetScope_def Let_def cancelActive_def dropScope_def map_of_delete split: if_splits)
next
  case (OpTrack key s)
  then show ?thesis
    using track_contexts [OF assms(1), of env t key s "[]" False k c] assms(2) by (auto simp: applyOp_def Track_def)
next
  case (OpConfigure cf)
  then show ?thesis
    using Configure_narrows [of w cf] assms by (auto simp: applyOp_def narrows_def warmer_inv_def map_of_in_set subset_iff)
qed (use assms internal_contexts [OF internal_SetPaused] internal_contexts [OF internal_Foreground(1)]
       internal_contexts [OF internal_Foreground(2)] internal_contexts [OF internal_expire]
     in \<open>auto simp: applyOp_def stats_def Let_def\<close>)

lemma applyOp_version:
  "wContextVersion (applyOp env t op w) \<in> {wContextVersion w, if presents op = None then wContextVersion w else wContextVersion w + 1}"
proof (cases op)
  case (OpConfigure c)
  then show ?thesis using Configure_narrows [of w c] by (simp add: applyOp_def narrows_def)
next
  case (OpForget sc)
  then show ?thesis using internal_ForgetScope [of w sc] by (simp add: applyOp_def internal_def narrows_def)
next
  case (OpAuthorized key s cred)
  then show ?thesis using track_version [of env t key s cred True w] by (auto simp: applyOp_def TrackAuthorized_def)
next
  case (OpTrack key s)
  then show ?thesis using track_version [of env t key s "[]" False w] by (auto simp: applyOp_def Track_def)
qed (auto simp: applyOp_def SetPaused_def Foreground_def ForegroundDone_def cancelActive_def stats_def
      expireContextsLocked_def Let_def)

section \<open>Credentials are backed by the foreground\<close>

text \<open>
  The trace holds the presentation of a credential for a scope at time \<open>t\<close>, and the scope has not been
  forgotten since.
\<close>

definition presented :: "wev list \<Rightarrow> string \<Rightarrow> string \<Rightarrow> gotime \<Rightarrow> bool" where
  "presented tr sc tok t \<longleftrightarrow> (\<exists>pre op post. tr = pre @ EvOp t op # post \<and> presents op = Some (sc, tok) \<and>
     (\<forall>t'. EvOp t' (OpForget sc) \<in> set post \<longrightarrow> sc = []))"

definition presentations :: "wev list \<Rightarrow> nat" where
  "presentations tr = length (filter (\<lambda>e. case e of EvOp t op \<Rightarrow> presents op \<noteq> None | _ \<Rightarrow> False) tr)"

definition backed :: "wev list \<Rightarrow> Warmer \<Rightarrow> bool" where
  "backed tr w \<longleftrightarrow> warmer_inv w \<and>
     (\<forall>sc c. map_of (wContexts w) sc = Some c \<longrightarrow> presented tr sc (ccToken c) (ccExpires c - credentialTTL)) \<and>
     unat (wContextVersion w) \<le> presentations tr \<and>
     (\<forall>sc c. map_of (wContexts w) sc = Some c \<longrightarrow> unat (ccVersion c) \<le> unat (wContextVersion w))"

lemma presentations_append [simp]: "presentations (a @ b) = presentations a + presentations b"
  by (simp add: presentations_def)

lemma presented_append:
  "presented tr sc tok t \<Longrightarrow> (\<forall>t'. EvOp t' (OpForget sc) \<in> set evs \<longrightarrow> sc = []) \<Longrightarrow> presented (tr @ evs) sc tok t"
proof -
  assume "presented tr sc tok t" and kept: "\<forall>t'. EvOp t' (OpForget sc) \<in> set evs \<longrightarrow> sc = []"
  then obtain pre op post where "tr = pre @ EvOp t op # post" "presents op = Some (sc, tok)"
    "\<forall>t'. EvOp t' (OpForget sc) \<in> set post \<longrightarrow> sc = []" unfolding presented_def by blast
  with kept have "tr @ evs = pre @ EvOp t op # (post @ evs) \<and> presents op = Some (sc, tok) \<and>
      (\<forall>t'. EvOp t' (OpForget sc) \<in> set (post @ evs) \<longrightarrow> sc = [])" by auto
  then show ?thesis unfolding presented_def by blast
qed

lemma backed_inv: "backed tr w \<Longrightarrow> warmer_inv w"
  by (simp add: backed_def)

lemma backed_version:
  "backed tr w \<Longrightarrow> map_of (wContexts w) sc = Some c \<Longrightarrow> unat (ccVersion c) \<le> unat (wContextVersion w)"
  unfolding backed_def by blast

lemma backed_presented:
  "backed tr w \<Longrightarrow> map_of (wContexts w) sc = Some c \<Longrightarrow> presented tr sc (ccToken c) (ccExpires c - credentialTTL)"
  unfolding backed_def by blast

lemma backed_NewWarmer: "backed [] NewWarmer"
  by (simp add: backed_def warmer_inv_def NewWarmer_def validConfig_def DefaultConfig_def maxTracked_def)

text \<open>Steps of the pass itself neither present nor forget.\<close>

definition own_events :: "wev list \<Rightarrow> bool" where
  "own_events evs \<longleftrightarrow> (\<forall>t op. EvOp t op \<notin> set evs)"

lemma own_events_presentations: "own_events evs \<Longrightarrow> presentations evs = 0"
  by (auto simp: own_events_def presentations_def filter_empty_conv split: wev.splits)

lemma backed_internal:
  assumes "backed tr w" "internal w w'" "own_events evs"
  shows "backed (tr @ evs) w'"
proof -
  have ctx: "map_of (wContexts w') sc = Some c \<Longrightarrow> map_of (wContexts w) sc = Some c" for sc c
    using internal_contexts [OF assms(2) backed_inv [OF assms(1)]] .
  have "wContextVersion w' = wContextVersion w" using assms(2) by (simp add: internal_def narrows_def)
  moreover have "presented (tr @ evs) sc tok t" if "presented tr sc tok t" for sc tok t
    using presented_append [OF that, of evs] assms(3) by (auto simp: own_events_def)
  moreover have "warmer_inv w'" using internal_inv [OF assms(2) backed_inv [OF assms(1)]] .
  moreover have "unat (ccVersion c) \<le> unat (wContextVersion w) \<and> presented tr sc (ccToken c) (ccExpires c - credentialTTL)"
    if "map_of (wContexts w') sc = Some c" for sc c
    using backed_version [OF assms(1) ctx [OF that]] backed_presented [OF assms(1) ctx [OF that]] by simp
  moreover have "unat (wContextVersion w) \<le> presentations tr" using assms(1) by (simp add: backed_def)
  ultimately show ?thesis using assms(3) by (simp add: backed_def own_events_presentations)
qed

lemma version_succ:
  assumes "unat (wContextVersion w) \<le> presentations tr" "presentations (tr @ [EvOp t op]) < 2 ^ 64" "presents op \<noteq> None"
  shows "unat (wContextVersion w + 1) = unat (wContextVersion w) + 1"
proof -
  have "presentations [EvOp t op] = 1" using assms(3) by (simp add: presentations_def)
  with assms(1,2) have "unat (wContextVersion w) + 1 < 2 ^ 64" by simp
  with unat_u64_add [of "wContextVersion w" 1] show ?thesis by simp
qed

lemma backed_op:
  assumes "backed tr w" "presentations (tr @ [EvOp t op]) < 2 ^ 64"
  shows "backed (tr @ [EvOp t op]) (applyOp env t op w)"
  unfolding backed_def
proof (intro conjI allI impI)
  note inv = backed_inv [OF assms(1)]
  show "warmer_inv (applyOp env t op w)" by (rule applyOp_inv [OF inv])
  have version: "unat (wContextVersion w) \<le> presentations tr" using assms(1) by (simp add: backed_def)
  have count: "presentations [EvOp t op] = (if presents op = None then 0 else 1)" by (simp add: presentations_def)
  have succ: "presents op \<noteq> None \<Longrightarrow> unat (wContextVersion w + 1) = unat (wContextVersion w) + 1"
    by (rule version_succ [OF version assms(2)])
  show "unat (wContextVersion (applyOp env t op w)) \<le> presentations (tr @ [EvOp t op])"
    using applyOp_version [of env t op w] version count succ by (auto split: if_splits)
  fix k c
  assume c: "map_of (wContexts (applyOp env t op w)) k = Some c"
  from applyOp_contexts [OF inv c]
  show "presented (tr @ [EvOp t op]) k (ccToken c) (ccExpires c - credentialTTL)"
  proof
    assume "map_of (wContexts w) k = Some c \<and> (op = OpForget k \<longrightarrow> k = [])"
    with assms(1) show ?thesis by (intro presented_append) (auto simp: backed_def)
  next
    assume "presents op = Some (k, ccToken c) \<and> ccExpires c = t + credentialTTL \<and> ccVersion c = wContextVersion w + 1 \<and>
      wContextVersion (applyOp env t op w) = wContextVersion w + 1"
    then show ?thesis unfolding presented_def by (intro exI [of _ tr] exI [of _ op] exI [of _ "[]"]) simp
  qed
  have grows: "unat (wContextVersion w) \<le> unat (wContextVersion (applyOp env t op w))"
    using applyOp_version [of env t op w] succ by (auto split: if_splits)
  from applyOp_contexts [OF inv c] show "unat (ccVersion c) \<le> unat (wContextVersion (applyOp env t op w))"
  proof
    assume "map_of (wContexts w) k = Some c \<and> (op = OpForget k \<longrightarrow> k = [])"
    with backed_version [OF assms(1)] have "unat (ccVersion c) \<le> unat (wContextVersion w)" by blast
    with grows show ?thesis by (rule order_trans [rotated])
  qed simp
qed

lemma presentations_opEvents_Cons:
  "presentations (opEvents ((t, op) # ops)) = presentations [EvOp t op] + presentations (opEvents ops)"
  by (simp add: presentations_def opEvents_def)

lemma backed_ops:
  assumes "backed tr w" "presentations (tr @ opEvents ops) < 2 ^ 64"
  shows "backed (tr @ opEvents ops) (applyOps env ops w)"
  using assms
proof (induction ops arbitrary: tr w)
  case (Cons e ops)
  obtain t op where e: "e = (t, op)" by (cases e)
  have "backed (tr @ [EvOp t op]) (applyOp env t op w)"
    by (rule backed_op) (use Cons.prems in \<open>simp_all add: e presentations_opEvents_Cons\<close>)
  moreover have step: "tr @ opEvents (e # ops) = (tr @ [EvOp t op]) @ opEvents ops" by (simp add: opEvents_def e)
  ultimately show ?case unfolding step
    using Cons.IH [of "tr @ [EvOp t op]" "applyOp env t op w"] Cons.prems(2) by (simp only: step) (simp add: applyOps_def e)
qed (simp add: opEvents_def applyOps_def)

section \<open>A version names one credential\<close>

text \<open>Later credentials of a scope have other versions, so the version of a credential tells it apart.\<close>

definition pinned :: "string \<Rightarrow> credentialContext \<Rightarrow> Warmer \<Rightarrow> bool" where
  "pinned sc c w \<longleftrightarrow> unat (ccVersion c) \<le> unat (wContextVersion w) \<and>
     (\<forall>c'. map_of (wContexts w) sc = Some c' \<longrightarrow> ccVersion c' = ccVersion c \<longrightarrow> c' = c)"

lemma pinned_start: "backed tr w \<Longrightarrow> map_of (wContexts w) sc = Some c \<Longrightarrow> pinned sc c w"
  using backed_version [of tr w sc c] by (auto simp: pinned_def)

lemma pinned_internal:
  assumes "pinned sc c w" "internal w w'" "warmer_inv w"
  shows "pinned sc c w'"
  using assms internal_contexts [OF assms(2,3)] by (auto simp: pinned_def internal_def narrows_def)

lemma pinned_op:
  assumes "pinned sc c w" "backed tr w" "presentations (tr @ [EvOp t op]) < 2 ^ 64"
  shows "pinned sc c (applyOp env t op w)"
  unfolding pinned_def
proof (intro conjI allI impI)
  have "presents op \<noteq> None \<Longrightarrow> unat (wContextVersion w + 1) = unat (wContextVersion w) + 1"
    by (rule version_succ [OF _ assms(3)]) (use assms(2) in \<open>simp_all add: backed_def\<close>)
  with assms(1) have old: "presents op \<noteq> None \<Longrightarrow> unat (ccVersion c) < unat (wContextVersion w + 1)"
    by (simp add: pinned_def)
  with assms(1) show "unat (ccVersion c) \<le> unat (wContextVersion (applyOp env t op w))"
    using applyOp_version [of env t op w] by (auto simp: pinned_def split: if_splits)
  fix c'
  assume c': "map_of (wContexts (applyOp env t op w)) sc = Some c'" "ccVersion c' = ccVersion c"
  from applyOp_contexts [OF backed_inv [OF assms(2)] c'(1)] show "c' = c"
    using assms(1) c'(2) old by (auto simp: pinned_def)
qed

lemma pinned_ops:
  assumes "pinned sc c w" "backed tr w" "presentations (tr @ opEvents ops) < 2 ^ 64"
  shows "pinned sc c (applyOps env ops w)"
  using assms
proof (induction ops arbitrary: tr w)
  case (Cons e ops)
  obtain t op where e: "e = (t, op)" by (cases e)
  have count: "presentations (tr @ [EvOp t op]) < 2 ^ 64" using Cons.prems(3) by (simp add: e presentations_opEvents_Cons)
  have "pinned sc c (applyOps env ops (applyOp env t op w))"
    by (rule Cons.IH [OF pinned_op [OF Cons.prems(1,2) count] backed_op [OF Cons.prems(2) count]])
      (use Cons.prems(3) in \<open>simp add: e presentations_opEvents_Cons del: append_Cons\<close>)
  then show ?case by (simp add: e applyOps_def)
qed (simp add: applyOps_def)

section \<open>Steps of the pass\<close>

lemma internal_activate: "internal w (activate c w)"
  by (rule internalI) (auto simp: activate_def Let_def)

lemma internal_updateJob:
  assumes "\<And>t. tkSnap (f t) = tkSnap t"
  shows "internal w (updateJob c f w)"
proof (cases "map_of (wTracked w) (cdID c)")
  case (Some t)
  then have mem: "(cdID c, t) \<in> set (wTracked w)" by (rule map_of_SomeD)
  then have key: "cdID c \<in> fst ` set (wTracked w)" by force
  define w' where "w' = w\<lparr>wTracked := AList.update (cdID c) (f t) (wTracked w)\<rparr>"
  have "length (wTracked w') = length (wTracked w)" using key by (simp add: w'_def length_update)
  moreover have "\<exists>e \<in> set (wTracked w). tkSnap (snd e') = tkSnap (snd e) \<and> fst e' = fst e" if "e' \<in> set (wTracked w')" for e'
  proof (cases "e' = (cdID c, f t)")
    case True
    with mem assms show ?thesis by force
  next
    case False
    with that have "e' \<in> set (wTracked w)" using set_update_subset [of "cdID c" "f t" "wTracked w"] by (auto simp: w'_def)
    then show ?thesis by blast
  qed
  moreover from this have "fst ` set (wTracked w') \<subseteq> fst ` set (wTracked w)" by (smt (verit) image_iff subsetI)
  ultimately have "keeps_jobs w w'" by (auto simp: keeps_jobs_def w'_def)
  moreover have "narrows w w'" by (auto simp: narrows_def w'_def)
  ultimately have "internal w w'" by (simp add: internal_def)
  with Some show ?thesis by (simp add: updateJob_def w'_def [symmetric])
qed (simp add: updateJob_def)

lemma internal_settle: "internal w (settle c now r w)"
proof -
  define w0 where "w0 = w\<lparr>wActive := None, wActiveScope := []\<rparr>"
  have w0: "internal w w0" by (rule internalI) (auto simp: w0_def)
  have "internal w0 (settleSuccess c now n w0)" for n
  proof -
    define w1 where "w1 = updateJob c (\<lambda>t. t\<lparr>tkLast := now, tkNext := None, tkFailures := 0\<rparr>) w0"
    have "internal w0 w1" unfolding w1_def by (rule internal_updateJob) simp
    moreover have "internal w1 (settleSuccess c now n w0)"
      by (rule internalI) (auto simp: settleSuccess_def w1_def [symmetric])
    ultimately show ?thesis by (rule internal_trans)
  qed
  moreover have "internal w0 (settleError c now e w0)" for e
  proof -
    let ?sc = "jobScope (cdJob c)"
    define w1 where "w1 = (if e = Refused 401 \<or> e = Refused 403
      then dropScope ?sc (w0\<lparr>wContexts := AList.delete ?sc (wContexts w0)\<rparr>) else w0)"
    have "internal w0 (w0\<lparr>wContexts := AList.delete ?sc (wContexts w0)\<rparr>)"
      by (rule internalI) (auto simp: AList.length_delete_le dest: subsetD [OF set_delete_subset])
    from internal_trans [OF this internal_dropScope] have "internal w0 w1" by (simp add: w1_def)
    moreover define w2 where "w2 = (if sameJob c w1 then (updateJob c (backoff now) w1)\<lparr>wBackoffs := wBackoffs w1 + 1\<rparr> else w1)"
    have "internal w1 w2"
    proof (cases "sameJob c w1")
      case True
      have "internal w1 (updateJob c (backoff now) w1)" by (rule internal_updateJob) (simp add: backoff_def Let_def)
      moreover have "internal (updateJob c (backoff now) w1) w2" by (rule internalI) (auto simp: w2_def True)
      ultimately show ?thesis by (rule internal_trans)
    qed (simp add: w2_def)
    ultimately have "internal w0 w2" by (rule internal_trans)
    moreover have "settleError c now e w0 = (if e = Canceled then w2 else w2\<lparr>wErrors := wErrors w2 + 1\<rparr>)"
      unfolding settleError_def Let_def w2_def w1_def ..
    then have "internal w2 (settleError c now e w0)" by (simp add: internalI)
    ultimately show ?thesis by (rule internal_trans)
  qed
  ultimately have "internal w0 (settle c now r w)"
    by (cases r; cases "snd r") (simp_all add: settle_def w0_def [symmetric])
  with w0 show ?thesis by (rule internal_trans)
qed

section \<open>The chosen job\<close>

lemma fold_perScopeBest_mem:
  "(sc, c) \<in> set (fold perScopeBest cs best) \<Longrightarrow> c \<in> set cs \<or> (sc, c) \<in> set best"
proof (induction cs arbitrary: best)
  case (Cons d cs)
  have "(sc, c) \<in> set (perScopeBest d best) \<Longrightarrow> c = d \<or> (sc, c) \<in> set best"
    by (auto simp: perScopeBest_def dest!: subsetD [OF set_update_subset] split: option.splits if_splits)
  with Cons show ?case by fastforce
qed simp

lemma firstChoice_mem: "firstChoice cs = Some c \<Longrightarrow> c \<in> set cs"
proof -
  have "fold (\<lambda>c best. case best of None \<Rightarrow> Some c | Some b \<Rightarrow> if candBefore c b then Some c else best) cs best = Some c
      \<Longrightarrow> c \<in> set cs \<or> best = Some c" for best
    by (induction cs arbitrary: best) (auto split: option.splits if_splits)
  then show "firstChoice cs = Some c \<Longrightarrow> c \<in> set cs" by (fastforce simp: firstChoice_def)
qed

lemma internal_nextCandidate: "nextCandidateLocked now owner osc per w = (w', c) \<Longrightarrow> internal w w'"
  by (rule internalI) (auto simp: nextCandidateLocked_def Let_def)

text \<open>The chosen job is due, within the share of its scope, still queued, and its credential is on offer.\<close>

lemma nextCandidate_chosen:
  assumes "nextCandidateLocked now owner osc per w = (w', Some c)"
  shows "(cdID c, cdJob c) \<in> set (wTracked w')" "wContexts w' = wContexts w"
    and "dueJob now (cdJob c)" "per (jobScope (cdJob c)) < cfMaxPerScopePerPass (wConfig w)"
    and "offerFor now owner osc w (cdJob c) = Some (cdToken c, cdVersion c, cdOwner c)"
proof -
  define cs where "cs = List.map_filter (candidateFor now owner osc per w) (wTracked w)"
  from assms have w': "w' = w\<lparr>wTracked := filter (\<lambda>e. \<not> orphaned now owner osc per w e) (wTracked w),
      wDropped := wDropped w + int (length (filter (orphaned now owner osc per w) (wTracked w)))\<rparr>"
    and c: "firstChoice (map snd (fold perScopeBest cs [])) = Some c"
    by (auto simp: nextCandidateLocked_def cs_def Let_def)
  from firstChoice_mem [OF c] obtain sc where "(sc, c) \<in> set (fold perScopeBest cs [])" by auto
  then have "c \<in> set cs" using fold_perScopeBest_mem by fastforce
  then obtain jid t where mem: "(jid, t) \<in> set (wTracked w)" and cand: "candidateFor now owner osc per w (jid, t) = Some c"
    by (auto simp: cs_def map_filter_def)
  from cand have sel: "cdID c = jid" "cdJob c = t" and due: "dueJob now t" "per (jobScope t) < cfMaxPerScopePerPass (wConfig w)"
    and offer: "offerFor now owner osc w t = Some (cdToken c, cdVersion c, cdOwner c)"
    by (auto simp: candidateFor_def split: if_splits)
  then show "dueJob now (cdJob c)" "per (jobScope (cdJob c)) < cfMaxPerScopePerPass (wConfig w)"
    "offerFor now owner osc w (cdJob c) = Some (cdToken c, cdVersion c, cdOwner c)" by simp_all
  show "wContexts w' = wContexts w" by (simp add: w')
  have "\<not> orphaned now owner osc per w (jid, t)" using offer by (simp add: orphaned_def)
  with mem show "(cdID c, cdJob c) \<in> set (wTracked w')" by (simp add: w' sel)
qed

section \<open>Requests and publications are authorised\<close>

text \<open>
  What the trace before an event must show. A request needs a credential its scope presented less than
  two minutes before it was chosen; a publication needs in addition that the scope was not forgotten since.
  The owner's credential serves the owner's scope only. No request carries a secret in its query.
\<close>

definition wasPresented :: "wev list \<Rightarrow> string \<Rightarrow> string \<Rightarrow> gotime \<Rightarrow> bool" where
  "wasPresented tr sc tok t \<longleftrightarrow> (\<exists>op. EvOp t op \<in> set tr \<and> presents op = Some (sc, tok))"

fun authorised :: "string \<Rightarrow> string \<Rightarrow> wev list \<Rightarrow> wev \<Rightarrow> bool" where
  "authorised owner osc tr (EvRequest t s tok own) \<longleftrightarrow> secret_free (snRawQuery s) \<and>
    (if own then tok = owner \<and> owner \<noteq> [] \<and> snScope s = osc
     else \<exists>t0. wasPresented tr (snScope s) tok t0 \<and> t < t0 + credentialTTL)"
| "authorised owner osc tr (EvPublish t key e ttl s tok own) \<longleftrightarrow>
    (if own then tok = owner \<and> owner \<noteq> [] \<and> snScope s = osc
     else \<exists>t0. presented tr (snScope s) tok t0 \<and> t < t0 + credentialTTL)"
| "authorised owner osc tr _ \<longleftrightarrow> True"

fun audit :: "string \<Rightarrow> string \<Rightarrow> wev list \<Rightarrow> wev list \<Rightarrow> bool" where
  "audit owner osc tr [] \<longleftrightarrow> True"
| "audit owner osc tr (e # es) \<longleftrightarrow> authorised owner osc tr e \<and> audit owner osc (tr @ [e]) es"

lemma audit_append [simp]: "audit owner osc tr (a @ b) \<longleftrightarrow> audit owner osc tr a \<and> audit owner osc (tr @ a) b"
  by (induction a arbitrary: tr) auto

lemma audit_opEvents [simp]: "audit owner osc tr (opEvents ops)"
  unfolding opEvents_def by (induction ops arbitrary: tr) auto

lemma audit_nth: "audit owner osc tr (pre @ e # post) \<Longrightarrow> authorised owner osc (tr @ pre) e"
  by simp

lemma wasPresented_append: "wasPresented tr sc tok t \<Longrightarrow> wasPresented (tr @ evs) sc tok t"
  by (auto simp: wasPresented_def)

lemma presented_wasPresented: "presented tr sc tok t \<Longrightarrow> wasPresented tr sc tok t"
  unfolding presented_def wasPresented_def by auto

text \<open>The standing of a chosen job while the pass works on it.\<close>

definition granted :: "string \<Rightarrow> string \<Rightarrow> gotime \<Rightarrow> wev list \<Rightarrow> candidate \<Rightarrow> Warmer \<Rightarrow> bool" where
  "granted owner osc now tr c w \<longleftrightarrow> secret_free (snRawQuery (tkSnap (cdJob c))) \<and>
    (if cdOwner c then cdToken c = owner \<and> owner \<noteq> [] \<and> jobScope (cdJob c) = osc
     else \<exists>ctx. pinned (jobScope (cdJob c)) ctx w \<and> ccToken ctx = cdToken c \<and> ccVersion ctx = cdVersion c \<and>
       now < ccExpires ctx \<and> wasPresented tr (jobScope (cdJob c)) (cdToken c) (ccExpires ctx - credentialTTL))"

lemma granted_start:
  assumes "backed tr w" "nextCandidateLocked now owner osc per w = (w', Some c)"
  shows "granted owner osc now tr c w'"
proof -
  note chosen = nextCandidate_chosen [OF assms(2)] and int = internal_nextCandidate [OF assms(2)]
  have "job_ok (cdJob c)"
    using internal_inv [OF int backed_inv [OF assms(1)]] chosen(1) by (auto simp: warmer_inv_def)
  then have "secret_free (snRawQuery (tkSnap (cdJob c)))" by (simp add: job_ok_def)
  moreover have "\<exists>ctx. map_of (wContexts w) (jobScope (cdJob c)) = Some ctx \<and> ccToken ctx = cdToken c \<and>
      ccVersion ctx = cdVersion c \<and> now < ccExpires ctx" if "\<not> cdOwner c"
    using chosen(5) that by (auto simp: offerFor_def Let_def split: option.splits if_splits)
  moreover have "cdOwner c \<Longrightarrow> cdToken c = owner \<and> owner \<noteq> [] \<and> jobScope (cdJob c) = osc"
    using chosen(5) by (auto simp: offerFor_def Let_def split: option.splits if_splits)
  moreover have "pinned (jobScope (cdJob c)) ctx w' \<and>
      wasPresented tr (jobScope (cdJob c)) (ccToken ctx) (ccExpires ctx - credentialTTL)"
    if "map_of (wContexts w) (jobScope (cdJob c)) = Some ctx" for ctx
    using pinned_internal [OF pinned_start [OF assms(1) that] int backed_inv [OF assms(1)]]
      presented_wasPresented [OF backed_presented [OF assms(1) that]] by simp
  ultimately show ?thesis unfolding granted_def by (cases "cdOwner c") (simp, fastforce)
qed

lemma granted_mono:
  assumes "granted owner osc now tr c w" "\<And>sc ctx. pinned sc ctx w \<Longrightarrow> pinned sc ctx w'"
  shows "granted owner osc now (tr @ evs) c w'"
  using assms wasPresented_append unfolding granted_def by (cases "cdOwner c") (simp, fastforce)

lemma granted_request:
  assumes "granted owner osc now tr c w"
  shows "authorised owner osc tr (EvRequest now (tkSnap (cdJob c)) (cdToken c) (cdOwner c))"
proof (cases "cdOwner c")
  case False
  with assms obtain ctx :: credentialContext where "now < ccExpires ctx"
    "wasPresented tr (jobScope (cdJob c)) (cdToken c) (ccExpires ctx - credentialTTL)" by (auto simp: granted_def)
  with assms False show ?thesis by (auto simp: granted_def intro!: exI [of _ "ccExpires ctx - credentialTTL"])
qed (use assms in \<open>simp add: granted_def\<close>)

lemma granted_publish:
  assumes "granted owner osc now tr c w" "backed tr w" "permit c t w"
  shows "authorised owner osc tr (EvPublish t key e ttl (tkSnap (cdJob c)) (cdToken c) (cdOwner c))"
proof (cases "cdOwner c")
  case False
  with assms(3) obtain ctx' where ctx': "map_of (wContexts w) (jobScope (cdJob c)) = Some ctx'"
    "ccVersion ctx' = cdVersion c" "t < ccExpires ctx'"
    by (auto simp: permit_def split: option.splits if_splits)
  with assms(1) False have "ccToken ctx' = cdToken c" by (auto simp: granted_def pinned_def)
  with backed_presented [OF assms(2) ctx'(1)] ctx'(3) False show ?thesis
    by (auto intro!: exI [of _ "ccExpires ctx' - credentialTTL"])
qed (use assms(1) in \<open>simp add: granted_def\<close>)

section \<open>One round and the pass\<close>

lemma judgeAnswer_size:
  assumes "judgeAnswer a = (n, r)"
  shows "0 \<le> n" "n \<le> int MaxEntryBytes + 1" "r = Inr e \<Longrightarrow> int (length (Body e)) = n"
proof -
  have small: "int (length (limit_read 65536 b)) \<le> int MaxEntryBytes + 1" for b
    using length_limit_read [of 65536 b] by (simp add: MaxEntryBytes_def)
  have big: "int (length (limit_read (int MaxEntryBytes + 1) b)) \<le> int MaxEntryBytes + 1" for b
    by (rule length_limit_read) simp
  show "0 \<le> n" "n \<le> int MaxEntryBytes + 1"
    using assms small big unfolding judgeAnswer_def Let_def by (auto split: answer.splits if_splits option.splits)
  show "r = Inr e \<Longrightarrow> int (length (Body e)) = n"
    using assms unfolding judgeAnswer_def Let_def by (auto split: answer.splits if_splits option.splits)
qed

lemma refreshChecked_events:
  assumes "refreshChecked env rd key s tok own p = (n, err, sent, pub)"
  shows "sent = [] \<and> pub = [] \<or> sent = [EvRequest (rdNow rd 1) s tok own] \<and>
    (pub = [] \<or> p \<and> (\<exists>k e del. pub = EvPublish (rdNow rd 2) k e (snTTL s) s tok own # del \<and> del \<in> {[], [EvDelete key]} \<and>
       int (length (Body e)) = n))"
  and "0 \<le> n" "n \<le> int MaxEntryBytes + 1"
proof -
  define sk where "sk = (if weKeyFunc env then rdKey rd 1 s else key)"
  define sent' where "sent' = [EvRequest (rdNow rd 1) s tok own]"
  consider "n = 0" "sent = []" "pub = []"
    | req a where "judgeAnswer (rdAnswer rd req) = (n, a)" "sent = sent'" "pub = []"
    | req e where "judgeAnswer (rdAnswer rd req) = (n, Inr e)" "p" "sent = sent'"
      "pub = EvPublish (rdNow rd 2) sk e (snTTL s) s tok own # (if sk \<noteq> key \<and> weDeleter env then [EvDelete key] else [])"
    using assms unfolding refreshChecked_def Let_def sk_def [symmetric] sent'_def [symmetric]
    by (auto split: if_splits option.splits prod.splits sum.splits)
  then have "(sent = [] \<and> pub = [] \<or> sent = [EvRequest (rdNow rd 1) s tok own] \<and>
    (pub = [] \<or> p \<and> (\<exists>k e del. pub = EvPublish (rdNow rd 2) k e (snTTL s) s tok own # del \<and> del \<in> {[], [EvDelete key]} \<and>
       int (length (Body e)) = n))) \<and> 0 \<le> n \<and> n \<le> int MaxEntryBytes + 1"
  proof cases
    case (2 req a)
    with judgeAnswer_size(1,2) [OF 2(1)] show ?thesis by (simp add: sent'_def)
  next
    case (3 req e)
    with judgeAnswer_size [OF 3(1)] show ?thesis by (simp add: sent'_def)
  qed simp
  then show "sent = [] \<and> pub = [] \<or> sent = [EvRequest (rdNow rd 1) s tok own] \<and>
    (pub = [] \<or> p \<and> (\<exists>k e del. pub = EvPublish (rdNow rd 2) k e (snTTL s) s tok own # del \<and> del \<in> {[], [EvDelete key]} \<and>
       int (length (Body e)) = n))" "0 \<le> n" "n \<le> int MaxEntryBytes + 1" by simp_all
qed

lemma fetchStep_sound:
  assumes "granted owner osc (rdNow rd 1) tr c w" "backed tr w" "fetchStep env rd c k w = (w', evs, k')"
    and "presentations (tr @ evs) < 2 ^ 64"
  shows "backed (tr @ evs) w' \<and> audit owner osc tr evs"
proof -
  define w1 where "w1 = activate c w"
  define w2 where "w2 = applyOps env (rdFetch rd) w1"
  obtain n err sent pub where rc: "refreshChecked env rd (tkKey (cdJob c)) (tkSnap (cdJob c)) (cdToken c) (cdOwner c)
      (permit c (rdNow rd 2) w2) = (n, err, sent, pub)" by (metis prod_cases4)
  define tr1 where "tr1 = tr @ sent"
  define tr2 where "tr2 = tr1 @ opEvents (rdFetch rd)"
  define tr3 where "tr3 = tr2 @ pub"
  from assms(3) rc have w': "w' = settle c (rdNow rd 3) (n, err) (applyOps env (rdPublish rd) w2)"
    and evs: "tr @ evs = tr3 @ opEvents (rdPublish rd)" "evs = sent @ opEvents (rdFetch rd) @ pub @ opEvents (rdPublish rd)"
    by (auto simp: fetchStep_def Let_def w1_def w2_def tr1_def tr2_def tr3_def)
  note ev = refreshChecked_events(1) [OF rc]
  have own: "own_events sent" "own_events pub" using ev by (auto simp: own_events_def)
  have count: "presentations (tr1 @ opEvents (rdFetch rd)) < 2 ^ 64" "presentations (tr3 @ opEvents (rdPublish rd)) < 2 ^ 64"
    using assms(4) evs(1) by (simp_all add: tr3_def tr2_def)
  have b1: "backed tr1 w1" unfolding tr1_def w1_def by (rule backed_internal [OF assms(2) internal_activate own(1)])
  have g1: "granted owner osc (rdNow rd 1) tr1 c w1" unfolding tr1_def w1_def
    by (rule granted_mono [OF assms(1)]) (rule pinned_internal [OF _ internal_activate backed_inv [OF assms(2)]])
  have b2: "backed tr2 w2" unfolding tr2_def w2_def by (rule backed_ops [OF b1 count(1)])
  have g2: "granted owner osc (rdNow rd 1) tr2 c w2" unfolding tr2_def w2_def
    by (rule granted_mono [OF g1]) (rule pinned_ops [OF _ b1 count(1)])
  have "backed tr3 w2" unfolding tr3_def by (rule backed_internal [OF b2 internal_refl own(2)])
  from backed_internal [OF backed_ops [OF this count(2), of env] internal_settle, of "[]"]
  have "backed (tr @ evs) w'" by (simp add: evs(1) w' own_events_def)
  moreover have "audit owner osc tr sent" using ev granted_request [OF assms(1)] by auto
  moreover have "audit owner osc tr2 pub" using ev granted_publish [OF g2 b2] by auto
  ultimately show ?thesis by (simp add: evs(2) tr2_def tr1_def)
qed

fun outcome :: "round_result \<Rightarrow> Warmer \<times> wev list" where
  "outcome (Stop w evs) = (w, evs)"
| "outcome (Continue w evs k) = (w, evs)"

lemma pickStep_sound:
  assumes "granted owner osc (rdNow rd 1) tr c w" "backed tr w" "outcome (pickStep env rd c k w) = (w', evs)"
    and "presentations (tr @ evs) < 2 ^ 64"
  shows "backed (tr @ evs) w' \<and> audit owner osc tr evs"
proof -
  define w1 where "w1 = applyOps env (rdPick rd) w"
  define ops where "ops = opEvents (rdPick rd)"
  define w2 where "w2 = w1\<lparr>wTracked := AList.delete (cdID c) (wTracked w1), wDropped := wDropped w1 + 1\<rparr>"
  obtain w3 fevs k' where f: "fetchStep env rd c k w1 = (w3, fevs, k')" by (metis prod_cases3)
  have "(w', evs) \<in> {(w2, ops), (w1, ops), (w3, ops @ fevs)}"
    using assms(3) f by (auto simp: pickStep_def Let_def w2_def w1_def [symmetric] ops_def split: if_splits)
  then obtain rest where evs: "evs = ops @ rest" and cases: "rest = [] \<and> w' \<in> {w1, w2} \<or> rest = fevs \<and> w' = w3" by auto
  have count: "presentations (tr @ ops) < 2 ^ 64" "presentations ((tr @ ops) @ rest) < 2 ^ 64"
    using assms(4) by (simp_all add: evs)
  have b: "backed (tr @ ops) w1" unfolding ops_def w1_def by (rule backed_ops [OF assms(2)]) (use count(1) in \<open>simp add: ops_def\<close>)
  have g: "granted owner osc (rdNow rd 1) (tr @ ops) c w1" unfolding w1_def
    by (rule granted_mono [OF assms(1)], erule pinned_ops [OF _ assms(2)]) (use count(1) in \<open>simp add: ops_def\<close>)
  have "internal w1 w2" by (rule internalI) (auto simp: w2_def AList.length_delete_le dest: subsetD [OF set_delete_subset])
  from backed_internal [OF b this, of "[]"] have "backed (tr @ ops) w2" by (simp add: own_events_def)
  with b cases fetchStep_sound [OF g b f] count(2) show ?thesis by (auto simp: evs ops_def)
qed

text \<open>The ways a round goes: it ends the pass, finds nothing to do, or works on a chosen job.\<close>

definition lockedState :: "warmer_env \<Rightarrow> wround \<Rightarrow> Warmer \<Rightarrow> Warmer" where
  "lockedState env rd w = expireContextsLocked (rdNow rd 0) (applyOps env (rdLock rd) (applyOps env (rdStart rd) w))"

fun prefixed :: "wev list \<Rightarrow> round_result \<Rightarrow> round_result" where
  "prefixed evs (Stop w evs') = Stop w (evs @ evs')"
| "prefixed evs (Continue w evs' k) = Continue w (evs @ evs') k"

lemma outcome_prefixed [simp]: "outcome (prefixed evs r) = (fst (outcome r), evs @ snd (outcome r))"
  by (cases r) simp_all

lemma roundStep_cases:
  obtains (early) "roundStep env owner osc rd k w = Stop (applyOps env (rdStart rd) w) (opEvents (rdStart rd))"
  | (idle) w' where "roundStep env owner osc rd k w = Stop w' (opEvents (rdStart rd) @ opEvents (rdLock rd))"
      "internal (lockedState env rd w) w'"
  | (work) c w' where "nextCandidateLocked (rdNow rd 1) owner osc (ctPerScope k) (lockedState env rd w) = (w', Some c)"
      "roundStep env owner osc rd k w = prefixed (opEvents (rdStart rd) @ opEvents (rdLock rd)) (pickStep env rd c k w')"
      "ctRequests k < cfRequestsPerPass (wConfig (applyOps env (rdStart rd) w))"
      "ctUsed k + int MaxEntryBytes + 1 \<le> cfBytesPerPass (wConfig (applyOps env (rdStart rd) w))"
proof -
  define w1 where "w1 = applyOps env (rdStart rd) w"
  define w3 where "w3 = lockedState env rd w"
  define evs where "evs = opEvents (rdStart rd) @ opEvents (rdLock rd)"
  obtain w4 co where choice: "nextCandidateLocked (rdNow rd 1) owner osc (ctPerScope k) w3 = (w4, co)" by fastforce
  define full where "full \<longleftrightarrow> ctRequests k \<ge> cfRequestsPerPass (wConfig w1) \<or> rdCtxErr rd \<or>
    cfBytesPerPass (wConfig w1) - ctUsed k < int MaxEntryBytes + 1"
  have step: "roundStep env owner osc rd k w = (if full then Stop w1 (opEvents (rdStart rd))
      else if blocked w3 then Stop w3 evs
      else (case co of None \<Rightarrow> Stop w4 evs | Some c \<Rightarrow> prefixed evs (pickStep env rd c k w4)))"
    by (simp add: roundStep_def Let_def choice full_def w1_def [symmetric] w3_def [unfolded lockedState_def, folded w1_def, symmetric]
        evs_def del: One_nat_def split: option.splits round_result.splits)
  have int: "internal (lockedState env rd w) w4" using internal_nextCandidate [OF choice] by (simp add: w3_def)
  show thesis
  proof (cases "full \<or> blocked w3")
    case True
    show thesis
    proof (cases full)
      case True
      with step show thesis by (intro early) (simp add: w1_def)
    next
      case False
      with True step show thesis by (intro idle [of w3]) (simp_all add: evs_def w3_def)
    qed
  next
    case False
    show thesis
    proof (cases co)
      case None
      with False step int show thesis by (intro idle [of w4]) (simp_all add: evs_def)
    next
      case (Some c)
      with False step choice show thesis
        by (intro work [of w4 c]) (simp_all add: w1_def evs_def w3_def full_def)
    qed
  qed
qed

lemma backed_locked:
  assumes "backed tr w" "presentations (tr @ opEvents (rdStart rd) @ opEvents (rdLock rd)) < 2 ^ 64"
  shows "backed (tr @ opEvents (rdStart rd) @ opEvents (rdLock rd)) (lockedState env rd w)"
proof -
  have "backed (tr @ opEvents (rdStart rd)) (applyOps env (rdStart rd) w)"
    by (rule backed_ops [OF assms(1)]) (use assms(2) in simp)
  from backed_ops [OF this, of "rdLock rd" env] assms(2)
  have "backed ((tr @ opEvents (rdStart rd)) @ opEvents (rdLock rd)) (applyOps env (rdLock rd) (applyOps env (rdStart rd) w))"
    by simp
  from backed_internal [OF this internal_expire, of "[]"] show ?thesis by (simp add: lockedState_def own_events_def)
qed

lemma roundStep_sound:
  assumes "backed tr w" "outcome (roundStep env owner osc rd k w) = (w', evs)" "presentations (tr @ evs) < 2 ^ 64"
  shows "backed (tr @ evs) w' \<and> audit owner osc tr evs"
proof (cases rule: roundStep_cases [where env = env and owner = owner and osc = osc and rd = rd and k = k and w = w])
  case early
  with assms(2) have evs: "evs = opEvents (rdStart rd)" "w' = applyOps env (rdStart rd) w" by simp_all
  from backed_ops [OF assms(1) assms(3) [unfolded evs(1)]] show ?thesis by (simp add: evs)
next
  case (idle v)
  with assms(2) have evs: "evs = opEvents (rdStart rd) @ opEvents (rdLock rd)" "w' = v" by simp_all
  from backed_internal [OF backed_locked [OF assms(1) assms(3) [unfolded evs(1)]] idle(2), of "[]"]
  show ?thesis by (simp add: evs own_events_def)
next
  case (work c v)
  define ops where "ops = opEvents (rdStart rd) @ opEvents (rdLock rd)"
  obtain pevs where pick: "outcome (pickStep env rd c k v) = (w', pevs)" and evs: "evs = ops @ pevs"
    using assms(2) work(2) by (cases "outcome (pickStep env rd c k v)") (auto simp: ops_def)
  have count: "presentations (tr @ ops) < 2 ^ 64" "presentations ((tr @ ops) @ pevs) < 2 ^ 64" using assms(3) by (simp_all add: evs)
  have b: "backed (tr @ ops) (lockedState env rd w)" using backed_locked [OF assms(1)] count(1) by (simp add: ops_def)
  from backed_internal [OF b internal_nextCandidate [OF work(1)], of "[]"] have "backed (tr @ ops) v" by (simp add: own_events_def)
  from pickStep_sound [OF granted_start [OF b work(1)] this pick count(2)] show ?thesis by (simp add: evs ops_def)
qed

lemma refreshLoop_sound:
  assumes "backed tr w" "refreshLoop env owner osc rds k w = Some (w', evs)" "presentations (tr @ evs) < 2 ^ 64"
  shows "backed (tr @ evs) w' \<and> audit owner osc tr evs"
  using assms
proof (induction rds arbitrary: tr k w evs)
  case (Cons rd rds)
  show ?case
  proof (cases "roundStep env owner osc rd k w")
    case (Stop v es)
    with Cons.prems roundStep_sound [of tr w env owner osc rd k v es] show ?thesis by simp
  next
    case (Continue v es k')
    with Cons.prems(2) obtain es' where rest: "refreshLoop env owner osc rds k' v = Some (w', es')" "evs = es @ es'" by auto
    have "backed (tr @ es) v \<and> audit owner osc tr es"
      using roundStep_sound [of tr w env owner osc rd k v es] Cons.prems(1,3) Continue rest(2) by simp
    with Cons.IH [of "tr @ es" v k' es'] rest Cons.prems(3) show ?thesis by simp
  qed
qed simp

lemma ownerScopeOf_frame:
  "internal w (fst (ownerScopeOf env now a w))"
  by (rule internalI) (auto simp: ownerScopeOf_def Let_def split: option.splits prod.splits if_splits bool.splits)

definition passOwner :: "warmer_env \<Rightarrow> gotime \<Rightarrow> owner_answers \<Rightarrow> Warmer \<Rightarrow> string \<times> string" where
  "passOwner env now a w = (fst (ownerToken env a), if snd (ownerToken env a) then snd (ownerScopeOf env now a w) else [])"

text \<open>Before its loop a pass only expires credentials and notes the owner.\<close>

lemma refreshPass_loop:
  assumes "\<not> (\<not> weStore env \<or> wRunning w \<or> blocked w)"
  obtains v where "internal w v" "refreshPass env now a rds w = map_option (\<lambda>(w, evs). (finishPass w, evs))
    (refreshLoop env (fst (passOwner env now a w)) (snd (passOwner env now a w)) rds startCounts v)"
proof -
  define w0 where "w0 = w\<lparr>wRunning := True\<rparr>"
  define osc where "osc = snd (passOwner env now a w)"
  define w1 where "w1 = (if snd (ownerToken env a) then fst (ownerScopeOf env now a w0) else w0)"
  define v where "v = expireContextsLocked now (w1\<lparr>wWarming := snd (ownerToken env a) \<and> osc \<noteq> []\<rparr>)"
  have osc: "osc = (if snd (ownerToken env a) then snd (ownerScopeOf env now a w0) else [])"
    by (auto simp: osc_def passOwner_def ownerScopeOf_def w0_def Let_def split: option.splits prod.splits bool.splits)
  have pass: "refreshPass env now a rds w =
      map_option (\<lambda>(w, evs). (finishPass w, evs)) (refreshLoop env (fst (ownerToken env a)) osc rds startCounts v)"
    using assms by (simp add: refreshPass_def Let_def case_prod_unfold w0_def [symmetric] v_def w1_def osc if_distrib cong: if_cong)
  have "internal w w0" by (rule internalI) (auto simp: w0_def)
  moreover have "internal w0 w1" by (simp add: w1_def ownerScopeOf_frame)
  moreover have "internal w1 (w1\<lparr>wWarming := snd (ownerToken env a) \<and> osc \<noteq> []\<rparr>)" by (rule internalI) auto
  ultimately have "internal w v" using internal_expire internal_trans unfolding v_def by blast
  with that pass show thesis by (simp add: passOwner_def osc_def)
qed

lemma refreshPass_cases:
  assumes "refreshPass env now a rds w = Some (w', evs)"
  obtains (off) "w' = w" "evs = []"
  | (on) v v' where "internal w v" "refreshLoop env (fst (passOwner env now a w)) (snd (passOwner env now a w)) rds startCounts v = Some (v', evs)"
      "internal v' w'"
proof (cases "\<not> weStore env \<or> wRunning w \<or> blocked w")
  case True
  with assms off show thesis by (auto simp: refreshPass_def)
next
  case False
  define owner osc where "owner = fst (passOwner env now a w)" and "osc = snd (passOwner env now a w)"
  from refreshPass_loop [OF False] obtain v where v: "internal w v" "refreshPass env now a rds w =
      map_option (\<lambda>(w, evs). (finishPass w, evs)) (refreshLoop env owner osc rds startCounts v)"
    unfolding owner_def osc_def by blast
  with assms obtain v' where loop: "refreshLoop env owner osc rds startCounts v = Some (v', evs)" "w' = finishPass v'"
    by (cases "refreshLoop env owner osc rds startCounts v") auto
  have "internal v' w'" unfolding loop(2) by (rule internalI) (auto simp: finishPass_def)
  with on v(1) loop(1) show thesis by (simp add: owner_def osc_def)
qed

text \<open>
  What the pass relies on of the tables: a property that every foreground operation keeps, and that removing credentials and
  jobs keeps, is kept by a pass under every interleaving.
\<close>

locale table_invariant =
  fixes env :: warmer_env and inv :: "Warmer \<Rightarrow> bool"
  assumes inv_op: "inv w \<Longrightarrow> inv (applyOp env t op w)"
    and inv_internal: "internal w w' \<Longrightarrow> inv w \<Longrightarrow> inv w'"
begin

lemma inv_ops: "inv w \<Longrightarrow> inv (applyOps env ops w)"
  unfolding applyOps_def by (induction ops arbitrary: w) (auto simp: inv_op)

lemma inv_fetchStep:
  assumes "inv w" "fetchStep env rd c k w = (w', evs, k')"
  shows "inv w'"
proof -
  define w1 where "w1 = applyOps env (rdPublish rd) (applyOps env (rdFetch rd) (activate c w))"
  have "inv w1" unfolding w1_def by (intro inv_ops inv_internal [OF internal_activate assms(1)])
  moreover obtain r where "w' = settle c (rdNow rd 3) r w1"
    using assms(2) by (auto simp: fetchStep_def Let_def w1_def split: prod.splits)
  ultimately show ?thesis using inv_internal [OF internal_settle] by simp
qed

lemma inv_pickStep:
  assumes "inv w"
  shows "inv (fst (outcome (pickStep env rd c k w)))"
proof -
  define w1 where "w1 = applyOps env (rdPick rd) w"
  define w2 where "w2 = w1\<lparr>wTracked := AList.delete (cdID c) (wTracked w1), wDropped := wDropped w1 + 1\<rparr>"
  obtain w3 fevs k' where f: "fetchStep env rd c k w1 = (w3, fevs, k')" by (metis prod_cases3)
  have inv: "inv w1" unfolding w1_def by (rule inv_ops [OF assms])
  have "internal w1 w2" by (rule internalI) (auto simp: w2_def AList.length_delete_le dest: subsetD [OF set_delete_subset])
  with inv have "inv w2" by (rule inv_internal [rotated])
  with inv inv_fetchStep [OF inv f] show ?thesis
    by (simp add: pickStep_def Let_def w1_def [symmetric] w2_def [symmetric] f)
qed

lemma inv_locked: "inv w \<Longrightarrow> inv (lockedState env rd w)"
  unfolding lockedState_def by (intro inv_internal [OF internal_expire] inv_ops)

lemma inv_roundStep:
  assumes "inv w"
  shows "inv (fst (outcome (roundStep env owner osc rd k w)))"
proof (cases rule: roundStep_cases [where env = env and owner = owner and osc = osc and rd = rd and k = k and w = w])
  case early
  then show ?thesis using inv_ops [OF assms] by simp
next
  case (idle v)
  then show ?thesis using inv_internal [OF idle(2) inv_locked [OF assms]] by simp
next
  case (work c v)
  then show ?thesis
    using inv_pickStep [OF inv_internal [OF internal_nextCandidate [OF work(1)] inv_locked [OF assms]]] by simp
qed

lemma inv_refreshLoop: "inv w \<Longrightarrow> refreshLoop env owner osc rds k w = Some (w', evs) \<Longrightarrow> inv w'"
proof (induction rds arbitrary: k w evs)
  case (Cons rd rds)
  then show ?case using inv_roundStep [of w owner osc rd k] by (cases "roundStep env owner osc rd k w") auto
qed simp

lemma inv_refreshPass:
  assumes "inv w" "refreshPass env now a rds w = Some (w', evs)"
  shows "inv w'"
  using assms(2)
proof (cases rule: refreshPass_cases)
  case (on v v')
  then show ?thesis using assms(1) inv_refreshLoop inv_internal by blast
qed (use assms(1) in simp)

end

interpretation tables: table_invariant env warmer_inv for env
  by unfold_locales (rule applyOp_inv, assumption, rule internal_inv)

lemma refreshPass_sound:
  assumes "backed tr w" "refreshPass env now a rds w = Some (w', evs)" "presentations (tr @ evs) < 2 ^ 64"
  shows "backed (tr @ evs) w' \<and> audit (fst (passOwner env now a w)) (snd (passOwner env now a w)) tr evs"
  using assms(2)
proof (cases rule: refreshPass_cases)
  case (on v v')
  have "backed tr v" using backed_internal [OF assms(1) on(1), of "[]"] by (simp add: own_events_def)
  from refreshLoop_sound [OF this on(2) assms(3)] backed_internal [OF _ on(3), of "tr @ evs" "[]"]
  show ?thesis by (simp add: own_events_def)
qed (use assms(1) in simp)

section \<open>Histories\<close>

text \<open>A refresher from its construction through foreground operations and passes; the trace lists all events.\<close>

inductive warmer_run :: "warmer_env \<Rightarrow> wev list \<Rightarrow> Warmer \<Rightarrow> bool" for env where
  run_start: "warmer_run env [] NewWarmer"
| run_op: "warmer_run env tr w \<Longrightarrow> warmer_run env (tr @ [EvOp t op]) (applyOp env t op w)"
| run_pass: "warmer_run env tr w \<Longrightarrow> refreshPass env now a rds w = Some (w', evs) \<Longrightarrow> warmer_run env (tr @ evs) w'"

lemma warmer_run_inv: "warmer_run env tr w \<Longrightarrow> warmer_inv w"
  by (induction rule: warmer_run.induct)
    (auto simp: applyOp_inv intro: tables.inv_refreshPass backed_inv [OF backed_NewWarmer])

lemma warmer_run_backed: "warmer_run env tr w \<Longrightarrow> presentations tr < 2 ^ 64 \<Longrightarrow> backed tr w"
proof (induction rule: warmer_run.induct)
  case (run_op tr w t op)
  then show ?case by (intro backed_op) simp_all
next
  case (run_pass tr w now a rds w' evs)
  then have "backed tr w" by simp
  with run_pass show ?case using refreshPass_sound by blast
qed (rule backed_NewWarmer)

end
