(* ===== verification/Warmer_Budget.thy ===== *)
theory Warmer_Budget
  imports Warmer_Safety
begin

text \<open>
  The budget of a refresh pass and its end: the requests of a pass, those of one scope and the bytes
  published are bounded whatever the foreground does, and a pass during which nothing is recorded ends.
  The properties of the refresher stand at the end.
\<close>

section \<open>The budget of a pass\<close>

definition sends :: "(string \<Rightarrow> bool) \<Rightarrow> wev list \<Rightarrow> int" where
  "sends P evs = int (length (filter (\<lambda>e. case e of EvRequest t s tok own \<Rightarrow> P (snScope s) | _ \<Rightarrow> False) evs))"

definition publishedBytes :: "wev list \<Rightarrow> int" where
  "publishedBytes evs = sum_list (map (\<lambda>e. case e of EvPublish t key en ttl s tok own \<Rightarrow> int (length (Body en)) | _ \<Rightarrow> 0) evs)"

lemma sends_append [simp]: "sends P (a @ b) = sends P a + sends P b"
  by (simp add: sends_def)

lemma publishedBytes_append [simp]: "publishedBytes (a @ b) = publishedBytes a + publishedBytes b"
  by (simp add: publishedBytes_def)

lemma opEvents_free [simp]: "sends P (opEvents ops) = 0" "publishedBytes (opEvents ops) = 0"
proof -
  show "sends P (opEvents ops) = 0" by (auto simp: sends_def opEvents_def filter_empty_conv)
  have "map (\<lambda>e. case e of EvPublish t key en ttl s tok own \<Rightarrow> int (length (Body en)) | _ \<Rightarrow> 0) (opEvents ops) = map (\<lambda>_. 0) ops"
    by (auto simp: opEvents_def)
  then show "publishedBytes (opEvents ops) = 0" by (simp add: publishedBytes_def)
qed

text \<open>The events cost at most what the counters advance by; the counters stay within the largest limits.\<close>

definition spends :: "counts \<Rightarrow> wev list \<Rightarrow> counts \<Rightarrow> bool" where
  "spends k evs k' \<longleftrightarrow> sends (\<lambda>_. True) evs \<le> ctRequests k' - ctRequests k \<and>
     (\<forall>sc. sends ((=) sc) evs \<le> ctPerScope k' sc - ctPerScope k sc) \<and> publishedBytes evs \<le> ctUsed k' - ctUsed k"

definition within :: "counts \<Rightarrow> bool" where
  "within k \<longleftrightarrow> ctRequests k \<le> 64 \<and> (\<forall>sc. ctPerScope k sc \<le> 16) \<and> ctUsed k \<le> 256 * 2 ^ 20"

lemma spends_refl: "sends (\<lambda>_. True) evs = 0 \<Longrightarrow> (\<And>sc. sends ((=) sc) evs = 0) \<Longrightarrow> publishedBytes evs = 0 \<Longrightarrow> spends k evs k"
  by (simp add: spends_def)

lemma spends_trans: "spends k a k' \<Longrightarrow> spends k' b k'' \<Longrightarrow> spends k (a @ b) k''"
  unfolding spends_def by (smt (verit) sends_append publishedBytes_append)

lemma fetchStep_spends:
  assumes "fetchStep env rd c k w = (w', evs, k')"
  shows "spends k evs k'" "ctRequests k' = ctRequests k + 1"
    "ctPerScope k' = (ctPerScope k)(jobScope (cdJob c) := ctPerScope k (jobScope (cdJob c)) + 1)"
    "ctUsed k' \<le> ctUsed k + int MaxEntryBytes + 1"
proof -
  define w1 where "w1 = applyOps env (rdFetch rd) (activate c w)"
  obtain n err sent pub where rc: "refreshChecked env rd (tkKey (cdJob c)) (tkSnap (cdJob c)) (cdToken c) (cdOwner c)
      (permit c (rdNow rd 2) w1) = (n, err, sent, pub)" by (metis prod_cases4)
  then have evs: "evs = sent @ opEvents (rdFetch rd) @ pub @ opEvents (rdPublish rd)"
    and k': "k' = \<lparr>ctPerScope = (ctPerScope k)(jobScope (cdJob c) := ctPerScope k (jobScope (cdJob c)) + 1),
        ctUsed = ctUsed k + n, ctRequests = ctRequests k + 1\<rparr>"
    using assms by (auto simp: fetchStep_def Let_def w1_def)
  note rc = refreshChecked_events [OF rc]
  from rc(1) have s: "sends P sent \<le> (if P (jobScope (cdJob c)) then 1 else 0) \<and> sends P pub = 0" for P
    by (auto simp: sends_def)
  from rc(1,2) have "publishedBytes sent = 0 \<and> publishedBytes pub \<le> n" by (auto simp: publishedBytes_def)
  moreover have "sends ((=) sc) evs \<le> ctPerScope k' sc - ctPerScope k sc" for sc
    using s [of "(=) sc"] by (simp add: evs k' split: if_splits)
  ultimately show "spends k evs k'"
    using s [of "\<lambda>_. True"] by (simp add: spends_def evs k')
  show "ctRequests k' = ctRequests k + 1"
    "ctPerScope k' = (ctPerScope k)(jobScope (cdJob c) := ctPerScope k (jobScope (cdJob c)) + 1)"
    "ctUsed k' \<le> ctUsed k + int MaxEntryBytes + 1" using rc(3) by (simp_all add: k')
qed

fun counts_after :: "counts \<Rightarrow> round_result \<Rightarrow> counts" where
  "counts_after k (Stop w evs) = k"
| "counts_after k (Continue w evs k') = k'"

lemma pickStep_spends:
  assumes "ctRequests k < 64" "ctPerScope k (jobScope (cdJob c)) < 16" "ctUsed k + int MaxEntryBytes + 1 \<le> 256 * 2 ^ 20" "within k"
    and "r = pickStep env rd c k w"
  shows "spends k (snd (outcome r)) (counts_after k r) \<and> within (counts_after k r)"
proof -
  define w1 where "w1 = applyOps env (rdPick rd) w"
  obtain w3 fevs k' where f: "fetchStep env rd c k w1 = (w3, fevs, k')" by (metis prod_cases3)
  have ops: "spends k (opEvents (rdPick rd)) k" by (rule spends_refl) simp_all
  from spends_trans [OF ops fetchStep_spends(1) [OF f]] have "spends k (opEvents (rdPick rd) @ fevs) k'" .
  moreover have "within k'" using assms(1-4) fetchStep_spends(2-4) [OF f] by (auto simp: within_def)
  ultimately show ?thesis
    using ops assms(4) unfolding assms(5) by (simp add: pickStep_def Let_def w1_def [symmetric] f)
qed

lemma roundStep_spends:
  assumes "warmer_inv w" "within k" "r = roundStep env owner osc rd k w"
  shows "spends k (snd (outcome r)) (counts_after k r) \<and> within (counts_after k r)"
proof (cases rule: roundStep_cases [where env = env and owner = owner and osc = osc and rd = rd and k = k and w = w])
  case early
  with assms(2) show ?thesis by (simp add: assms(3) spends_refl)
next
  case (idle v)
  with assms(2) show ?thesis by (simp add: assms(3) spends_refl)
next
  case (work c v)
  define p where "p = pickStep env rd c k v"
  have "validConfig (wConfig (applyOps env (rdStart rd) w))" "validConfig (wConfig (lockedState env rd w))"
    using tables.inv_ops [OF assms(1)] tables.inv_locked [OF assms(1)] by (simp_all add: warmer_inv_def)
  with work(3,4) nextCandidate_chosen(4) [OF work(1)]
  have "spends k (snd (outcome p)) (counts_after k p) \<and> within (counts_after k p)"
    by (intro pickStep_spends [OF _ _ _ assms(2) p_def]) (auto simp: validConfig_def)
  moreover have "spends k (opEvents (rdStart rd) @ opEvents (rdLock rd)) k" by (rule spends_refl) simp_all
  moreover have "counts_after k (prefixed es p) = counts_after k p" for es by (cases p) simp_all
  ultimately show ?thesis using spends_trans by (simp add: assms(3) work(2) p_def [symmetric]) (metis append.assoc)
qed

lemma refreshLoop_spends:
  assumes "warmer_inv w" "within k" "refreshLoop env owner osc rds k w = Some (w', evs)"
  shows "\<exists>k'. spends k evs k' \<and> within k'"
  using assms
proof (induction rds arbitrary: k w evs)
  case (Cons rd rds)
  note step = roundStep_spends [OF Cons.prems(1,2) refl, of env owner osc rd]
  show ?case
  proof (cases "roundStep env owner osc rd k w")
    case (Stop v es)
    with Cons.prems step show ?thesis by auto
  next
    case (Continue v es k')
    with Cons.prems(3) obtain es' where rest: "refreshLoop env owner osc rds k' v = Some (w', es')" "evs = es @ es'" by auto
    moreover have "warmer_inv v" using tables.inv_roundStep [OF Cons.prems(1), of env owner osc rd k] Continue by simp
    ultimately obtain k'' where "spends k' es' k''" "within k''" using Cons.IH [of v k' es'] step Continue by auto
    with step Continue have "spends k (es @ es') k''" by (intro spends_trans [of k es k']) simp_all
    with \<open>within k''\<close> rest(2) show ?thesis by blast
  qed
qed simp

section \<open>A pass ends\<close>

fun records :: "wop \<Rightarrow> bool" where
  "records (OpTrack key s) = True"
| "records (OpAuthorized key s credential) = True"
| "records _ = False"

definition quiet :: "wround \<Rightarrow> bool" where
  "quiet rd \<longleftrightarrow> list_all (\<lambda>(t, op). \<not> records op) (rdStart rd @ rdLock rd @ rdPick rd @ rdFetch rd @ rdPublish rd)"

definition jobIDs :: "Warmer \<Rightarrow> string set" where
  "jobIDs w = fst ` set (wTracked w)"

lemma finite_jobIDs [simp]: "finite (jobIDs w)"
  by (simp add: jobIDs_def)

lemma internal_jobIDs: "internal w w' \<Longrightarrow> jobIDs w' \<subseteq> jobIDs w"
  by (simp add: internal_def keeps_jobs_def jobIDs_def)

lemma Configure_jobIDs: "jobIDs (fst (Configure c w)) \<subseteq> jobIDs w"
proof -
  define w1 where "w1 = (if cfEnabled c then w\<lparr>wConfig := c\<rparr> else cancelActive (w\<lparr>wConfig := c, wContexts := []\<rparr>))"
  have "jobIDs w1 = jobIDs w" by (simp add: w1_def jobIDs_def cancelActive_def)
  moreover have "fst (Configure c w) = (if validConfig c then evictUntil (cfMaxTracked c) w1 else w)"
    by (simp add: Configure_def w1_def Let_def)
  ultimately show ?thesis using internal_jobIDs [OF internal_evictUntil [of w1 "cfMaxTracked c"]] by simp
qed

lemma applyOp_jobIDs: "\<not> records op \<Longrightarrow> jobIDs (applyOp env t op w) \<subseteq> jobIDs w"
  using internal_jobIDs [OF internal_ForgetScope] internal_jobIDs [OF internal_SetPaused] Configure_jobIDs
    internal_jobIDs [OF internal_Foreground(1)] internal_jobIDs [OF internal_Foreground(2)] internal_jobIDs [OF internal_expire]
  by (cases op) (simp_all add: applyOp_def stats_def Let_def)

lemma applyOps_jobIDs: "list_all (\<lambda>(t, op). \<not> records op) ops \<Longrightarrow> jobIDs (applyOps env ops w) \<subseteq> jobIDs w"
proof (induction ops arbitrary: w)
  case (Cons e ops)
  obtain t op where e: "e = (t, op)" by (cases e)
  from Cons.prems have "\<not> records op" by (simp add: e)
  from applyOp_jobIDs [OF this, of env t w] Cons.IH [of "applyOp env t op w"] Cons.prems show ?case
    by (simp add: applyOps_def e)
qed (simp add: applyOps_def)

lemma lockedState_jobIDs: "quiet rd \<Longrightarrow> jobIDs (lockedState env rd w) \<subseteq> jobIDs w"
  using internal_jobIDs [OF internal_expire]
    applyOps_jobIDs [of "rdLock rd" env "applyOps env (rdStart rd) w"] applyOps_jobIDs [of "rdStart rd" env w]
  by (simp add: lockedState_def quiet_def) (meson order_trans)

text \<open>A round that continues either sends its request or removes the job it chose.\<close>

lemma pickStep_progress:
  assumes "quiet rd" "pickStep env rd c k w = Continue w' evs k'"
  shows "jobIDs w' \<subseteq> jobIDs w" "k' = k \<and> cdID c \<notin> jobIDs w' \<or> ctRequests k' = ctRequests k + 1"
proof -
  define w1 where "w1 = applyOps env (rdPick rd) w"
  define w2 where "w2 = w1\<lparr>wTracked := AList.delete (cdID c) (wTracked w1), wDropped := wDropped w1 + 1\<rparr>"
  obtain w3 fevs k3 where f: "fetchStep env rd c k w1 = (w3, fevs, k3)" by (metis prod_cases3)
  have w1: "jobIDs w1 \<subseteq> jobIDs w" unfolding w1_def by (rule applyOps_jobIDs) (use assms(1) in \<open>simp add: quiet_def\<close>)
  have w2: "jobIDs w2 = jobIDs w1 - {cdID c}" by (auto simp: w2_def jobIDs_def delete_keys)
  define v where "v = applyOps env (rdPublish rd) (applyOps env (rdFetch rd) (activate c w1))"
  obtain r where w3: "w3 = settle c (rdNow rd 3) r v"
    using f by (auto simp: fetchStep_def Let_def v_def split: prod.splits)
  have "jobIDs w3 \<subseteq> jobIDs v" using internal_jobIDs [OF internal_settle] by (simp add: w3)
  also have "jobIDs v \<subseteq> jobIDs (applyOps env (rdFetch rd) (activate c w1))"
    unfolding v_def by (rule applyOps_jobIDs) (use assms(1) in \<open>simp add: quiet_def\<close>)
  also have "\<dots> \<subseteq> jobIDs (activate c w1)" by (rule applyOps_jobIDs) (use assms(1) in \<open>simp add: quiet_def\<close>)
  also have "\<dots> \<subseteq> jobIDs w1" by (rule internal_jobIDs [OF internal_activate])
  finally have w3: "jobIDs w3 \<subseteq> jobIDs w1" .
  have "w' = w2 \<and> k' = k \<or> w' = w3 \<and> k' = k3"
    using assms(2) f by (auto simp: pickStep_def Let_def w2_def w1_def [symmetric] split: if_splits)
  with w1 w2 w3 fetchStep_spends(2) [OF f]
  show "jobIDs w' \<subseteq> jobIDs w" "k' = k \<and> cdID c \<notin> jobIDs w' \<or> ctRequests k' = ctRequests k + 1" by auto
qed

lemma roundStep_progress:
  assumes "warmer_inv w" "quiet rd" "roundStep env owner osc rd k w = Continue w' evs k'"
  shows "nat (64 - ctRequests k') + card (jobIDs w') < nat (64 - ctRequests k) + card (jobIDs w)"
proof (cases rule: roundStep_cases [where env = env and owner = owner and osc = osc and rd = rd and k = k and w = w])
  case (work c v)
  obtain evs' where pick: "pickStep env rd c k v = Continue w' evs' k'"
    using assms(3) work(2) by (cases "pickStep env rd c k v") auto
  have "jobIDs v \<subseteq> jobIDs w"
    using internal_jobIDs [OF internal_nextCandidate [OF work(1)]] lockedState_jobIDs [OF assms(2), of env w] by simp
  with pickStep_progress(1) [OF assms(2) pick] have sub: "jobIDs w' \<subseteq> jobIDs w" "jobIDs v \<subseteq> jobIDs w" by auto
  have "cdID c \<in> jobIDs w" using nextCandidate_chosen(1) [OF work(1)] sub(2) by (force simp: jobIDs_def)
  moreover have "ctRequests k < 64"
    using work(3) tables.inv_ops [OF assms(1), of env "rdStart rd"] by (simp add: warmer_inv_def validConfig_def)
  moreover have "card (jobIDs w') \<le> card (jobIDs w)" using sub(1) by (simp add: card_mono)
  moreover have "cdID c \<notin> jobIDs w' \<Longrightarrow> cdID c \<in> jobIDs w \<Longrightarrow> card (jobIDs w') < card (jobIDs w)"
    using sub(1) by (intro psubset_card_mono) auto
  ultimately show ?thesis using pickStep_progress(2) [OF assms(2) pick] by auto
qed (use assms(3) in simp_all)

lemma refreshLoop_ends:
  assumes "warmer_inv w" "list_all quiet rds" "nat (64 - ctRequests k) + card (jobIDs w) < length rds"
  shows "refreshLoop env owner osc rds k w \<noteq> None"
  using assms
proof (induction rds arbitrary: k w)
  case (Cons rd rds)
  show ?case
  proof (cases "roundStep env owner osc rd k w")
    case (Continue v es k')
    have "warmer_inv v" using tables.inv_roundStep [OF Cons.prems(1), of env owner osc rd k] Continue by simp
    with Cons.IH [of v k'] roundStep_progress [OF Cons.prems(1) _ Continue] Cons.prems(2,3) Continue show ?thesis by auto
  qed simp
qed simp

section \<open>Properties of the refresher\<close>

text \<open>
  C33. The refresher's tables stay bounded and free of credentials. After any history of foreground
  operations and passes, under every interleaving, there are at most 512 queued jobs and 32 credentials, the limits in force
  are valid, and no job holds a secret in its query, at any depth of nested URLs.
\<close>

theorem warmer_tables_bounded:
  assumes "warmer_run env tr w"
  shows "length (wTracked w) \<le> 512 \<and> length (wContexts w) \<le> 32 \<and> validConfig (wConfig w) \<and>
    list_all (\<lambda>(jid, t). secret_free (snRawQuery (tkSnap t)) \<and> snScope (tkSnap t) \<noteq> []) (wTracked w)"
  using warmer_run_inv [OF assms]
  by (auto simp: warmer_inv_def validConfig_def maxTracked_def maxContexts_def job_ok_def list_all_iff)


text \<open>
  C34. The budget of a pass. Whatever the foreground reconfigures meanwhile, one pass sends at most 64 requests, at most 16 of one
  scope, and publishes at most 256 MiB.
\<close>

theorem refreshPass_within_budget:
  assumes "warmer_run env tr w" "refreshPass env now a rds w = Some (w', evs)"
  shows "sends (\<lambda>_. True) evs \<le> 64 \<and> sends ((=) sc) evs \<le> 16 \<and> publishedBytes evs \<le> 256 * 2 ^ 20"
  using assms(2)
proof (cases rule: refreshPass_cases)
  case (on v v')
  have "within startCounts" by (simp add: within_def startCounts_def)
  with refreshLoop_spends [OF internal_inv [OF on(1) warmer_run_inv [OF assms(1)]] _ on(2)]
  obtain k where "spends startCounts evs k" "within k" by blast
  then show ?thesis by (simp add: spends_def within_def startCounts_def) (meson order_trans)
qed (simp add: sends_def publishedBytes_def)

text \<open>
  C35. A pass ends. If no job is recorded while it runs, a pass returns within 577 rounds whatever the origin, the
  key function and the other foreground operations do: every round sends one of its requests or removes a job.
\<close>

theorem refreshPass_ends:
  assumes "warmer_run env tr w" "list_all quiet rds" "576 < length rds"
  shows "\<exists>w' evs. refreshPass env now a rds w = Some (w', evs)"
proof (cases "\<not> weStore env \<or> wRunning w \<or> blocked w")
  case False
  define owner osc where "owner = fst (passOwner env now a w)" and "osc = snd (passOwner env now a w)"
  from refreshPass_loop [OF False] obtain v where v: "internal w v" "refreshPass env now a rds w =
      map_option (\<lambda>(w, evs). (finishPass w, evs)) (refreshLoop env owner osc rds startCounts v)"
    unfolding owner_def osc_def by blast
  have inv: "warmer_inv v" by (rule internal_inv [OF v(1) warmer_run_inv [OF assms(1)]])
  have "card (jobIDs v) \<le> length (wTracked v)" unfolding jobIDs_def by (metis card_length length_map list.set_map)
  also have "\<dots> \<le> 512" using inv by (auto simp: warmer_inv_def validConfig_def maxTracked_def)
  finally have "refreshLoop env owner osc rds startCounts v \<noteq> None"
    using assms(2,3) by (intro refreshLoop_ends [OF inv]) (auto simp: startCounts_def)
  with v(2) show ?thesis by auto
qed (simp add: refreshPass_def)

section \<open>Witnesses\<close>

text \<open>A user's request for the identity document is recorded, then refreshed and published by a pass.\<close>

definition exWarmEnv :: warmer_env where
  "exWarmEnv = \<lparr>weStore = True, weOrigin = ''http://o'', weKeyFunc = False, weCanWarm = False, weOwnerToken = False,
     weOwnerAccount = False, weDB = False, weDeleter = False, weJson = concat, weSha = (\<lambda>s. s)\<rparr>"

definition exWarmSnap :: Snapshot where
  "exWarmSnap = \<lparr>snMethod = ''GET'', snPath = ''/identity'', snRawQuery = ''token=t'', snAccept = [], snScope = ''u'',
     snClass = ''c'', snTTL = 4, snPriority = 0\<rparr>"

definition exWarmRound :: wround where
  "exWarmRound = \<lparr>rdStart = [], rdLock = [], rdPick = [], rdFetch = [], rdPublish = [], rdCtxErr = False, rdNow = (\<lambda>_. 5),
     rdKey = (\<lambda>_ _. []), rdCanWarm = (\<lambda>_. True), rdAnswer = (\<lambda>_. Answered 200 [] ''b'' None), rdSet = None\<rparr>"

definition exWarmOwner :: owner_answers where
  "exWarmOwner = \<lparr>oaToken = ([], False), oaAccount = (0, False), oaUUID = []\<rparr>"

definition exWarmTrace :: "wev list" where
  "exWarmTrace = [EvOp 0 (OpAuthorized ''k'' exWarmSnap ''t'')]"

definition exWarm :: Warmer where
  "exWarm = applyOp exWarmEnv 0 (OpAuthorized ''k'' exWarmSnap ''t'') NewWarmer"

lemma exWarm_run: "warmer_run exWarmEnv exWarmTrace exWarm"
  using run_op [OF run_start, of exWarmEnv 0 "OpAuthorized ''k'' exWarmSnap ''t''"] by (simp add: exWarmTrace_def exWarm_def)

lemma exWarm_pass:
  obtains w' evs where "refreshPass exWarmEnv 5 exWarmOwner [exWarmRound, exWarmRound] exWarm = Some (w', evs)"
    "length evs = 2" "presentations (exWarmTrace @ evs) = 1"
proof -
  have "map_option (\<lambda>(w, evs). (length evs, presentations (exWarmTrace @ evs)))
      (refreshPass exWarmEnv 5 exWarmOwner [exWarmRound, exWarmRound] exWarm) = Some (2, 1)" by code_simp
  with that show thesis by auto
qed

theorem warmer_tables_bounded_witness:
  "length (wTracked exWarm) \<le> 512 \<and> length (wContexts exWarm) \<le> 32 \<and> validConfig (wConfig exWarm)"
  using warmer_tables_bounded [OF exWarm_run] by simp


theorem refreshPass_within_budget_witness:
  "\<exists>w' evs. refreshPass exWarmEnv 5 exWarmOwner [exWarmRound, exWarmRound] exWarm = Some (w', evs) \<and> sends ((=) ''u'') evs \<le> 16"
proof -
  obtain w' evs where pass: "refreshPass exWarmEnv 5 exWarmOwner [exWarmRound, exWarmRound] exWarm = Some (w', evs)"
    by (rule exWarm_pass)
  from refreshPass_within_budget [OF exWarm_run pass, of "''u''"] pass show ?thesis by blast
qed

theorem refreshPass_ends_witness:
  "\<exists>w' evs. refreshPass exWarmEnv 5 exWarmOwner (replicate 577 exWarmRound) exWarm = Some (w', evs)"
proof -
  have "quiet exWarmRound" by (simp add: quiet_def exWarmRound_def)
  then have "list_all quiet (replicate 577 exWarmRound)" by (simp add: list_all_iff)
  from refreshPass_ends [OF exWarm_run this] show ?thesis by simp
qed

end
