(* ===== verification/Artwork_Store.thy ===== *)
theory Artwork_Store
  imports Go_Strings
begin

text \<open>
  The shared artwork store (\<^verbatim>\<open>internal/artwork/shared.go\<close>, \<^verbatim>\<open>operations.go\<close>): image bodies in
  files named by their digest, and rows of a Postgres database for the bodies, the variants that refer to them and the
  reservations of transfers under way. The model has the rows of one store and its directory. Every statement
  and every file operation can fail, and the process can die at each of them: a world gives the outcome of the n-th
  such step. A transaction works on a copy of the rows that a commit makes current; file operations take effect at once.
  The exclusive lock on the row of the store makes transactions sequential.
\<close>

section \<open>Rows and files\<close>

record art_variant =
  avDigest :: string
  avType :: string
  avPriority :: int
  avExpires :: gotime
  avAccessed :: gotime

record art_reservation =
  arBytes :: int
  arPriority :: int
  arExpires :: gotime
  arCandidate :: "string option"

record art_db =
  dbUntracked :: int
  dbBlobs :: "(string \<times> int) list"
  dbVariants :: "(string \<times> art_variant) list"
  dbReservations :: "(string \<times> art_reservation) list"

text \<open>Files are temporary files by reservation, bodies by digest, and all others below the base directory by path.\<close>

record other_file =
  ofInside :: bool
  ofRegular :: bool
  ofSize :: int

record art_files =
  flTmp :: "(string \<times> string) list"
  flBlobs :: "(string \<times> string) list"
  flOther :: "(string \<times> other_file) list"

record art_store =
  asDb :: art_db
  asTx :: art_db
  asFiles :: art_files
  asStep :: nat
  asReady :: bool
  asPending :: bool

definition variantOverhead :: int where
  "variantOverhead = 1024"

definition blobOverhead :: int where
  "blobOverhead = 4096"

definition MaxBodyBytes :: int where
  "MaxBodyBytes = 8 * 2 ^ 20"

definition reservationBytes :: int where
  "reservationBytes = MaxBodyBytes + variantOverhead + blobOverhead"

definition artworkTTL :: duration where
  "artworkTTL = 7 * 24 * hour"

record art_options =
  aoMaxBytes :: int
  aoMinFreeBytes :: int
  aoLowWatermarkBytes :: int
  aoProtectedBytes :: int
  aoMaxReservations :: int

text \<open>The defaults and limits of \<^verbatim>\<open>NewShared\<close>.\<close>

definition sharedOptions :: "art_options \<Rightarrow> art_options option" where
  "sharedOptions o1 =
    (if aoMaxBytes o1 \<le> 0 \<or> aoMinFreeBytes o1 < 0 then None
     else
       let o2 = (if aoLowWatermarkBytes o1 = 0
                 then o1\<lparr>aoLowWatermarkBytes := go_div (wrap64 (aoMaxBytes o1 * 9)) 10\<rparr> else o1);
           o3 = (if aoProtectedBytes o2 = 0 then o2\<lparr>aoProtectedBytes := go_div (aoMaxBytes o2) 20\<rparr> else o2);
           o4 = (if aoMaxReservations o3 = 0 then o3\<lparr>aoMaxReservations := 32\<rparr> else o3)
       in if aoLowWatermarkBytes o4 < 0 \<or> aoLowWatermarkBytes o4 > aoMaxBytes o4 \<or> aoProtectedBytes o4 < 0 \<or>
             aoProtectedBytes o4 > aoMaxBytes o4 \<or> aoMaxReservations o4 < 1 \<or> aoMaxReservations o4 > 128
          then None else Some o4)"

definition digestKey :: "string \<Rightarrow> bool" where
  "digestKey key \<longleftrightarrow> length key = 64 \<and>
    list_all (\<lambda>c. 48 \<le> (of_char c :: nat) \<and> (of_char c :: nat) \<le> 57 \<or> 97 \<le> (of_char c :: nat) \<and> (of_char c :: nat) \<le> 102) key"

section \<open>Steps that can fail\<close>

text \<open>
  \<open>Bad n\<close> is an error that the caller sees, \<open>Dead n\<close> the end of the process. The number says how far the step got:
  a commit or a file operation may have taken effect although it reports an error or the process dies in it.
\<close>

datatype step_outcome = Good | Bad nat | Dead nat

datatype art_error = ErrCapacity | ErrReservation | ErrInitializing | ErrOther

datatype 'a result = Done 'a | Err art_error | Died

record art_world =
  awOutcome :: "nat \<Rightarrow> step_outcome"
  awFree :: "nat \<Rightarrow> int option"
  awRandom :: "nat \<Rightarrow> string option"

type_synonym 'a act = "art_store \<Rightarrow> art_store \<times> 'a result"

definition ok :: "'a \<Rightarrow> 'a act" where
  "ok x s = (s, Done x)"

definition fail :: "art_error \<Rightarrow> 'a act" where
  "fail e s = (s, Err e)"

definition andThen :: "'a act \<Rightarrow> ('a \<Rightarrow> 'b act) \<Rightarrow> 'b act" where
  "andThen m f s = (case m s of (s', Done x) \<Rightarrow> f x s' | (s', Err e) \<Rightarrow> (s', Err e) | (s', Died) \<Rightarrow> (s', Died))"

definition catch :: "'a act \<Rightarrow> (art_error \<Rightarrow> 'a act) \<Rightarrow> 'a act" where
  "catch m h s = (case m s of (s', Err e) \<Rightarrow> h e s' | r \<Rightarrow> r)"

text \<open>Deferred calls run after success and failure alike, and their own failure is dropped.\<close>

definition deferred :: "'a act \<Rightarrow> unit act \<Rightarrow> 'a act" where
  "deferred m c s =
    (case m s of
       (s', Died) \<Rightarrow> (s', Died)
     | (s', r) \<Rightarrow> (case c s' of (s'', Died) \<Rightarrow> (s'', Died) | (s'', _) \<Rightarrow> (s'', r)))"

fun forEach :: "('e \<Rightarrow> unit act) \<Rightarrow> 'e list \<Rightarrow> unit act" where
  "forEach f [] = ok ()"
| "forEach f (x # xs) = andThen (f x) (\<lambda>_. forEach f xs)"

fun foldEach :: "('e \<Rightarrow> 'a \<Rightarrow> 'a act) \<Rightarrow> 'e list \<Rightarrow> 'a \<Rightarrow> 'a act" where
  "foldEach f [] acc = ok acc"
| "foldEach f (x # xs) acc = andThen (f x acc) (foldEach f xs)"

definition attempt :: "art_world \<Rightarrow> (nat \<Rightarrow> art_store \<Rightarrow> art_store) \<Rightarrow> (art_store \<Rightarrow> 'a) \<Rightarrow> 'a act" where
  "attempt W partial good s =
    (let s' = s\<lparr>asStep := Suc (asStep s)\<rparr> in
     case awOutcome W (asStep s) of
       Good \<Rightarrow> (partial 0 s', Done (good s'))
     | Bad n \<Rightarrow> (partial (Suc n) s', Err ErrOther)
     | Dead n \<Rightarrow> (partial (Suc n) s', Died))"

text \<open>Reading rows, changing rows of the transaction, opening and committing a transaction.\<close>

definition query :: "art_world \<Rightarrow> (art_db \<Rightarrow> 'a) \<Rightarrow> 'a act" where
  "query W q = attempt W (\<lambda>_ s. s) (\<lambda>s. q (asTx s))"

definition exec :: "art_world \<Rightarrow> (art_db \<Rightarrow> art_db) \<Rightarrow> unit act" where
  "exec W f = attempt W (\<lambda>n s. if n = 0 then s\<lparr>asTx := f (asTx s)\<rparr> else s) (\<lambda>_. ())"

definition lock :: "art_world \<Rightarrow> unit act" where
  "lock W = attempt W (\<lambda>n s. if n = 0 then s\<lparr>asTx := asDb s\<rparr> else s) (\<lambda>_. ())"

definition commitTx :: "art_world \<Rightarrow> unit act" where
  "commitTx W = attempt W (\<lambda>n s. if n = 1 then s else s\<lparr>asDb := asTx s\<rparr>) (\<lambda>_. ())"

text \<open>A file operation; removing a file that is not there is no error in any of the calls.\<close>

definition fileOp :: "art_world \<Rightarrow> (art_files \<Rightarrow> art_files) \<Rightarrow> unit act" where
  "fileOp W f = attempt W (\<lambda>n s. if n = 1 then s else s\<lparr>asFiles := f (asFiles s)\<rparr>) (\<lambda>_. ())"

definition removeTmp :: "string \<Rightarrow> art_files \<Rightarrow> art_files" where
  "removeTmp i fs = fs\<lparr>flTmp := AList.delete i (flTmp fs)\<rparr>"

definition removeBlobFile :: "string \<Rightarrow> art_files \<Rightarrow> art_files" where
  "removeBlobFile d fs = fs\<lparr>flBlobs := AList.delete d (flBlobs fs)\<rparr>"

definition removeOther :: "string \<Rightarrow> art_files \<Rightarrow> art_files" where
  "removeOther p fs = fs\<lparr>flOther := AList.delete p (flOther fs)\<rparr>"

definition renameTmp :: "string \<Rightarrow> string \<Rightarrow> art_files \<Rightarrow> art_files" where
  "renameTmp i d fs =
    (case map_of (flTmp fs) i of
       None \<Rightarrow> fs
     | Some b \<Rightarrow> fs\<lparr>flTmp := AList.delete i (flTmp fs), flBlobs := AList.update d b (flBlobs fs)\<rparr>)"

text \<open>The exclusive creation of a temporary file; an interrupted write leaves a prefix of the body.\<close>

definition writeReservedTemp :: "art_world \<Rightarrow> string \<Rightarrow> string \<Rightarrow> unit act" where
  "writeReservedTemp W i body s =
    (if map_of (flTmp (asFiles s)) i \<noteq> None then fail ErrOther s
     else attempt W (\<lambda>n s. if n = 1 then s
        else s\<lparr>asFiles := (asFiles s)\<lparr>flTmp := AList.update i (if n = 0 then body else take (n - 2) body) (flTmp (asFiles s))\<rparr>\<rparr>)
      (\<lambda>_. ()) s)"

definition readBlob :: "art_world \<Rightarrow> string \<Rightarrow> string act" where
  "readBlob W d = andThen (attempt W (\<lambda>_ s. s) (\<lambda>s. map_of (flBlobs (asFiles s)) d))
    (\<lambda>b. case b of None \<Rightarrow> fail ErrOther | Some body \<Rightarrow> if int (length body) > MaxBodyBytes then fail ErrOther else ok body)"

text \<open>The free bytes of the file system as the probe reports them.\<close>

definition probe :: "art_world \<Rightarrow> int act" where
  "probe W = andThen (attempt W (\<lambda>_ s. s) (\<lambda>s. awFree W (asStep s)))
    (\<lambda>f. case f of None \<Rightarrow> fail ErrOther | Some n \<Rightarrow> ok n)"

section \<open>Reservations and bodies\<close>

definition deleteReservation :: "string \<Rightarrow> art_db \<Rightarrow> art_db" where
  "deleteReservation i db = db\<lparr>dbReservations := AList.delete i (dbReservations db)\<rparr>"

text \<open>The variants of a deleted body go with it by the foreign key.\<close>

definition deleteBlob :: "string \<Rightarrow> art_db \<Rightarrow> art_db" where
  "deleteBlob d db =
    db\<lparr>dbBlobs := AList.delete d (dbBlobs db), dbVariants := filter (\<lambda>(_, v). avDigest v \<noteq> d) (dbVariants db)\<rparr>"

definition removeBlob :: "art_world \<Rightarrow> string \<Rightarrow> unit act" where
  "removeBlob W d =
    (if \<not> digestKey d then fail ErrOther
     else andThen (fileOp W (removeBlobFile d)) (\<lambda>_. exec W (deleteBlob d)))"

definition releaseReservation :: "art_world \<Rightarrow> string \<Rightarrow> unit act" where
  "releaseReservation W i =
    andThen (fileOp W (removeTmp i)) (\<lambda>_.
    andThen (query W (\<lambda>db. map_option arCandidate (map_of (dbReservations db) i))) (\<lambda>row.
    case row of
      None \<Rightarrow> ok ()
    | Some None \<Rightarrow> exec W (deleteReservation i)
    | Some (Some d) \<Rightarrow>
        if \<not> digestKey d then fail ErrReservation
        else andThen (query W (\<lambda>db. map_of (dbBlobs db) d \<noteq> None)) (\<lambda>committed.
          andThen (if committed then ok () else fileOp W (removeBlobFile d)) (\<lambda>_.
          exec W (deleteReservation i)))))"

definition cleanExpired :: "art_world \<Rightarrow> gotime \<Rightarrow> unit act" where
  "cleanExpired W now =
    andThen (query W (\<lambda>db. map fst (filter (\<lambda>(_, r). arExpires r \<le> now) (dbReservations db))))
      (forEach (\<lambda>i. if length i \<noteq> 32 then fail ErrReservation else releaseReservation W i))"

definition expiredVariants :: "gotime \<Rightarrow> art_db \<Rightarrow> string list" where
  "expiredVariants now db = map fst (filter (\<lambda>(_, v). avExpires v \<le> now) (dbVariants db))"

definition deleteVariants :: "string list \<Rightarrow> art_db \<Rightarrow> art_db" where
  "deleteVariants ks db = db\<lparr>dbVariants := filter (\<lambda>(k, _). k \<notin> set ks) (dbVariants db)\<rparr>"

definition pruneExpiredBatch :: "art_world \<Rightarrow> gotime \<Rightarrow> bool act" where
  "pruneExpiredBatch W now =
    andThen (exec W (\<lambda>db. deleteVariants (take 128 (expiredVariants now db)) db)) (\<lambda>_.
    query W (\<lambda>db. expiredVariants now db \<noteq> []))"

section \<open>Accounting and eviction\<close>

record art_stats =
  tsPayloadBytes :: int
  tsMetadataBytes :: int
  tsReservedBytes :: int
  tsUntrackedBytes :: int
  tsTotalBytes :: int
  tsFreeBytes :: int
  tsProtectedBytes :: int
  tsBlobs :: int
  tsVariants :: int
  tsReservations :: int
  tsAdmissionPaused :: bool

definition payloadBytes :: "art_db \<Rightarrow> int" where
  "payloadBytes db = sum_list (map snd (dbBlobs db))"

definition reservedBytes :: "art_db \<Rightarrow> int" where
  "reservedBytes db = sum_list (map (arBytes \<circ> snd) (dbReservations db))"

definition liveReferences :: "gotime \<Rightarrow> art_db \<Rightarrow> string \<Rightarrow> art_variant list" where
  "liveReferences now db d = filter (\<lambda>v. avDigest v = d \<and> avExpires v > now) (map snd (dbVariants db))"

definition totalBytes :: "art_db \<Rightarrow> int" where
  "totalBytes db = payloadBytes db +
     (int (length (dbBlobs db)) * blobOverhead + int (length (dbVariants db)) * variantOverhead) +
     reservedBytes db + dbUntracked db"

definition protectedBytes :: "gotime \<Rightarrow> art_db \<Rightarrow> int" where
  "protectedBytes now db =
    sum_list (map (\<lambda>(d, size). size + blobOverhead)
      (filter (\<lambda>(d, _). list_ex (\<lambda>v. avPriority v = 3) (liveReferences now db d)) (dbBlobs db))) +
    sum_list (map (arBytes \<circ> snd) (filter (\<lambda>(_, r). arPriority r = 3) (dbReservations db))) +
    int (length (filter (\<lambda>(_, v). avPriority v = 3 \<and> avExpires v > now) (dbVariants db))) * variantOverhead"

definition statsOf :: "art_options \<Rightarrow> gotime \<Rightarrow> int \<Rightarrow> art_db \<Rightarrow> art_stats" where
  "statsOf opts now free db =
    \<lparr>tsPayloadBytes = payloadBytes db,
     tsMetadataBytes = int (length (dbBlobs db)) * blobOverhead + int (length (dbVariants db)) * variantOverhead,
     tsReservedBytes = reservedBytes db, tsUntrackedBytes = dbUntracked db, tsTotalBytes = totalBytes db,
     tsFreeBytes = free, tsProtectedBytes = protectedBytes now db, tsBlobs = int (length (dbBlobs db)),
     tsVariants = int (length (dbVariants db)), tsReservations = int (length (dbReservations db)),
     tsAdmissionPaused =
       (totalBytes db + reservationBytes > aoMaxBytes opts \<or>
        free < aoMinFreeBytes opts + reservedBytes db + reservationBytes \<or>
        int (length (dbReservations db)) \<ge> aoMaxReservations opts)\<rparr>"

definition storeStats :: "art_world \<Rightarrow> art_options \<Rightarrow> gotime \<Rightarrow> art_stats act" where
  "storeStats W opts now =
    andThen (query W (\<lambda>db. db)) (\<lambda>db. andThen (probe W) (\<lambda>free. ok (statsOf opts now free db)))"

definition livePriority :: "gotime \<Rightarrow> art_db \<Rightarrow> string \<Rightarrow> int" where
  "livePriority now db d = fold max (map avPriority (liveReferences now db d)) 0"

text \<open>The latest use of a body by a live variant; bodies without one come first.\<close>

definition lastAccess :: "gotime \<Rightarrow> art_db \<Rightarrow> string \<Rightarrow> gotime option" where
  "lastAccess now db d =
    (case map avAccessed (liveReferences now db d) of [] \<Rightarrow> None | t # ts \<Rightarrow> Some (fold max ts t))"

definition byAccess :: "gotime \<Rightarrow> art_db \<Rightarrow> (string \<times> int) list \<Rightarrow> (string \<times> int) list" where
  "byAccess now db rows =
    sort_key (\<lambda>(d, _). if lastAccess now db d = None then 0 else 1 :: nat)
      (sort_key (\<lambda>(d, _). case lastAccess now db d of None \<Rightarrow> 0 | Some t \<Rightarrow> t) rows)"

definition evictionCandidates :: "gotime \<Rightarrow> int \<Rightarrow> art_db \<Rightarrow> string list" where
  "evictionCandidates now priority db =
    map fst (take 128 (sort_key (\<lambda>(d, _). livePriority now db d)
      (byAccess now db (sort_key (\<lambda>(_, size). - size)
        (filter (\<lambda>(d, _). livePriority now db d \<le> priority) (dbBlobs db))))))"

definition hasRoom :: "art_options \<Rightarrow> bool \<Rightarrow> int \<Rightarrow> int \<Rightarrow> int \<Rightarrow> art_stats \<Rightarrow> bool" where
  "hasRoom opts pressure target need protectedNeed st \<longleftrightarrow>
    tsTotalBytes st + need \<le> aoMaxBytes opts \<and> (\<not> pressure \<or> tsTotalBytes st \<le> target) \<and>
    tsFreeBytes st \<ge> aoMinFreeBytes opts + tsReservedBytes st + need \<and>
    (protectedNeed = 0 \<or> tsProtectedBytes st + protectedNeed \<le> aoProtectedBytes opts)"

text \<open>One body after the other is removed until there is room; a body that cannot be removed is skipped.\<close>

fun evictUntilRoom ::
  "art_world \<Rightarrow> art_options \<Rightarrow> gotime \<Rightarrow> (art_stats \<Rightarrow> bool) \<Rightarrow> string list \<Rightarrow> unit act" where
  "evictUntilRoom W opts now room [] = fail ErrCapacity"
| "evictUntilRoom W opts now room (d # ds) =
    andThen (catch (andThen (removeBlob W d) (\<lambda>_. ok True)) (\<lambda>_. ok False)) (\<lambda>removed.
    if \<not> removed then evictUntilRoom W opts now room ds
    else andThen (storeStats W opts now) (\<lambda>st.
      if room st then ok () else evictUntilRoom W opts now room ds))"

definition makeRoom :: "art_world \<Rightarrow> art_options \<Rightarrow> gotime \<Rightarrow> int \<Rightarrow> int \<Rightarrow> int \<Rightarrow> unit act" where
  "makeRoom W opts now priority need protectedNeed =
    andThen (storeStats W opts now) (\<lambda>st.
    let pressure = tsTotalBytes st + need > aoMaxBytes opts;
        target = (if pressure
          then if aoLowWatermarkBytes opts + need > aoMaxBytes opts then aoMaxBytes opts - need else aoLowWatermarkBytes opts
          else aoMaxBytes opts);
        room = hasRoom opts pressure target need protectedNeed
    in if room st then ok ()
       else andThen (query W (evictionCandidates now priority)) (evictUntilRoom W opts now room))"

definition unreferenced :: "art_db \<Rightarrow> string list" where
  "unreferenced db = filter (\<lambda>d. list_all (\<lambda>(_, v). avDigest v \<noteq> d) (dbVariants db)) (map fst (dbBlobs db))"

text \<open>
  Batches of 128: removing a body that no variant refers to changes no other reference, so the next batch is
  the continuation of the list.
\<close>

function removeBatches :: "art_world \<Rightarrow> string list \<Rightarrow> unit act" where
  "removeBatches W ds =
    andThen (query W (\<lambda>_. take 128 ds)) (\<lambda>batch.
    andThen (forEach (removeBlob W) batch) (\<lambda>_.
    if length (take 128 ds) < 128 then ok () else removeBatches W (drop 128 ds)))"
  by pat_completeness auto
termination
  by (relation "measure (length \<circ> snd)") auto

declare removeBatches.simps [simp del]

definition removeUnreferenced :: "art_world \<Rightarrow> unit act" where
  "removeUnreferenced W s = removeBatches W (unreferenced (asTx s)) s"

end
