(* ===== verification/Artwork_Ops.thy ===== *)
theory Artwork_Ops
  imports Artwork_Store "HOL-Library.List_Lexorder" "HOL-Library.Char_ord"
begin

text \<open>
  The operations of the artwork store: recovery, reads, reservations, the two transactions of a commit with the
  cancellation on failure, the sweep and the eviction of low-priority bodies (\<^verbatim>\<open>internal/artwork/shared.go\<close>,
  \<^verbatim>\<open>operations.go\<close>). \<open>now\<close> is the time of the transaction as the database reports it.
\<close>

section \<open>Recovery\<close>

datatype walk_entry = TmpEntry string string | BlobEntry string string | OtherEntry string other_file

definition walkEntries :: "art_files \<Rightarrow> walk_entry list" where
  "walkEntries fs = map (\<lambda>(i, b). TmpEntry i b) (flTmp fs) @ map (\<lambda>(d, b). BlobEntry d b) (flBlobs fs) @
     map (\<lambda>(p, f). OtherEntry p f) (flOther fs)"

text \<open>A file that is neither active nor accounted for is removed if it is below the store; else its size counts.\<close>

definition discard :: "art_world \<Rightarrow> (art_files \<Rightarrow> art_files) \<Rightarrow> int \<Rightarrow> int \<Rightarrow> int act" where
  "discard W rm n acc =
    andThen (catch (andThen (fileOp W rm) (\<lambda>_. ok True)) (\<lambda>_. ok False))
      (\<lambda>removed. ok (if removed then acc else acc + n))"

definition walkFile :: "art_world \<Rightarrow> art_db \<Rightarrow> walk_entry \<Rightarrow> int \<Rightarrow> int act" where
  "walkFile W active e acc = andThen (attempt W (\<lambda>_ s. s) (\<lambda>_. ())) (\<lambda>_.
    case e of
       TmpEntry i b \<Rightarrow>
         if map_of (dbReservations active) i \<noteq> None then ok acc
         else discard W (removeTmp i) (int (length b)) acc
     | BlobEntry d b \<Rightarrow>
         if list_ex (\<lambda>(_, r). arCandidate r = Some d) (dbReservations active) then ok acc
         else andThen (query W (\<lambda>db. map_of (dbBlobs db) d)) (\<lambda>bytes.
           if bytes = Some (int (length b)) then ok acc
           else discard W (removeBlobFile d) (int (length b)) acc)
     | OtherEntry p f \<Rightarrow>
         if \<not> ofRegular f then fail ErrOther
         else if ofInside f then discard W (removeOther p) (ofSize f) acc
         else ok (acc + ofSize f))"

definition reconcileBlob :: "art_world \<Rightarrow> string \<Rightarrow> unit act" where
  "reconcileBlob W d =
    andThen (attempt W (\<lambda>_ s. s) (\<lambda>s. map_of (flBlobs (asFiles s)) d = None)) (\<lambda>missing.
    if missing then exec W (deleteBlob d) else ok ())"

text \<open>Batches of 512 in the order of the digests; only rows of earlier batches have been deleted meanwhile.\<close>

function reconcile :: "art_world \<Rightarrow> string list \<Rightarrow> unit act" where
  "reconcile W ds =
    andThen (query W (\<lambda>_. take 512 ds)) (\<lambda>batch.
    andThen (forEach (reconcileBlob W) batch) (\<lambda>_.
    if length (take 512 ds) < 512 then ok () else reconcile W (drop 512 ds)))"
  by pat_completeness auto
termination
  by (relation "measure (length \<circ> snd)") auto

declare reconcile.simps [simp del]

definition reconcileAll :: "art_world \<Rightarrow> unit act" where
  "reconcileAll W s = reconcile W (map fst (dbBlobs (asTx s))) s"

definition setReady :: "bool \<Rightarrow> unit act" where
  "setReady b s = (s\<lparr>asReady := b\<rparr>, Done ())"

definition setPending :: "bool \<Rightarrow> unit act" where
  "setPending b s = (s\<lparr>asPending := b\<rparr>, Done ())"

definition walkAll :: "art_world \<Rightarrow> art_db \<Rightarrow> int act" where
  "walkAll W active s = foldEach (walkFile W active) (walkEntries (asFiles s)) 0 s"

definition recoverStore :: "art_world \<Rightarrow> gotime \<Rightarrow> unit act" where
  "recoverStore W now =
    andThen (setReady False) (\<lambda>_.
    andThen (lock W) (\<lambda>_.
    andThen (cleanExpired W now) (\<lambda>_.
    andThen (exec W (\<lambda>db. deleteVariants (expiredVariants now db) db)) (\<lambda>_.
    andThen (removeUnreferenced W) (\<lambda>_.
    andThen (query W (\<lambda>db. db)) (\<lambda>active.
    andThen (walkAll W active) (\<lambda>untracked.
    andThen (reconcileAll W) (\<lambda>_.
    andThen (exec W (\<lambda>db. db\<lparr>dbUntracked := untracked\<rparr>)) (\<lambda>_.
    andThen (commitTx W) (\<lambda>_. setReady True))))))))))"

definition ensure :: "art_world \<Rightarrow> gotime \<Rightarrow> unit act" where
  "ensure W now s = (if asReady s then ok () s else recoverStore W now s)"

section \<open>Reads\<close>

definition touchVariant :: "string \<Rightarrow> gotime \<Rightarrow> art_db \<Rightarrow> art_db" where
  "touchVariant key now db =
    db\<lparr>dbVariants := map (\<lambda>(k, v). (k, if k = key then v\<lparr>avAccessed := now\<rparr> else v)) (dbVariants db)\<rparr>"

definition variantRow :: "gotime \<Rightarrow> string \<Rightarrow> art_db \<Rightarrow> (string \<times> string \<times> int \<times> gotime) option" where
  "variantRow now key db =
    (case map_of (dbVariants db) key of
       None \<Rightarrow> None
     | Some v \<Rightarrow>
         (case map_of (dbBlobs db) (avDigest v) of
            None \<Rightarrow> None
          | Some bytes \<Rightarrow> if avExpires v > now then Some (avDigest v, avType v, bytes, avAccessed v) else None))"

text \<open>\<open>clock\<close> is the clock of the process, with which it compares the last access.\<close>

definition readVariant :: "art_world \<Rightarrow> (string \<Rightarrow> string) \<Rightarrow> gotime \<Rightarrow> gotime \<Rightarrow> string \<Rightarrow> (string \<times> string) act" where
  "readVariant W sha now clock key =
    andThen (lock W) (\<lambda>_.
    andThen (query W (variantRow now key)) (\<lambda>row.
    case row of
      None \<Rightarrow> fail ErrOther
    | Some (d, ct, bytes, accessed) \<Rightarrow>
        if \<not> digestKey d \<or> bytes \<le> 0 \<or> bytes > MaxBodyBytes then fail ErrOther
        else andThen (readBlob W d) (\<lambda>body.
          if int (length body) \<noteq> bytes then fail ErrOther
          else if hex_encode (sha body) \<noteq> d then fail ErrOther
          else andThen (if clock - accessed \<ge> minute then exec W (touchVariant key now) else ok ()) (\<lambda>_.
            andThen (commitTx W) (\<lambda>_. ok (ct, body))))))"

definition GetContext :: "art_world \<Rightarrow> (string \<Rightarrow> string) \<Rightarrow> gotime \<Rightarrow> gotime \<Rightarrow> string \<Rightarrow> (string \<times> string) act" where
  "GetContext W sha now clock key =
    (if \<not> digestKey key then fail ErrOther
     else andThen (ensure W now) (\<lambda>_. readVariant W sha now clock key))"

section \<open>Reservations\<close>

record art_handle =
  ahID :: string
  ahKey :: string
  ahPriority :: int
  ahClosed :: bool

definition insertReservation :: "string \<Rightarrow> int \<Rightarrow> gotime \<Rightarrow> art_db \<Rightarrow> art_db" where
  "insertReservation i priority now db =
    db\<lparr>dbReservations := AList.update i
        \<lparr>arBytes = reservationBytes, arPriority = priority, arExpires = now + 2 * minute, arCandidate = None\<rparr>
        (dbReservations db)\<rparr>"

text \<open>The insertion fails when the identifier is taken, by the primary key.\<close>

definition addReservation :: "art_world \<Rightarrow> string \<Rightarrow> int \<Rightarrow> gotime \<Rightarrow> unit act" where
  "addReservation W i priority now =
    andThen (query W (\<lambda>db. map_of (dbReservations db) i \<noteq> None)) (\<lambda>taken.
    if taken then fail ErrOther else exec W (insertReservation i priority now))"

definition admit :: "art_world \<Rightarrow> art_options \<Rightarrow> gotime \<Rightarrow> string \<Rightarrow> int \<Rightarrow> art_handle act" where
  "admit W opts now key priority =
    andThen (catch (makeRoom W opts now priority reservationBytes (if priority = 3 then reservationBytes else 0))
      (\<lambda>e. if e = ErrCapacity then andThen (commitTx W) (\<lambda>_. fail ErrCapacity) else fail e)) (\<lambda>_.
    andThen (\<lambda>s. (s, Done (awRandom W (asStep s)))) (\<lambda>random.
    case random of
      None \<Rightarrow> fail ErrOther
    | Some raw \<Rightarrow>
        andThen (addReservation W (hex_encode raw) priority now) (\<lambda>_.
        andThen (commitTx W) (\<lambda>_. ok \<lparr>ahID = hex_encode raw, ahKey = key, ahPriority = priority, ahClosed = False\<rparr>))))"

definition reserveLocked :: "art_world \<Rightarrow> art_options \<Rightarrow> gotime \<Rightarrow> string \<Rightarrow> int \<Rightarrow> art_handle act" where
  "reserveLocked W opts now key priority =
    andThen (lock W) (\<lambda>_.
    andThen (cleanExpired W now) (\<lambda>_.
    andThen (pruneExpiredBatch W now) (\<lambda>pending.
    andThen (setPending pending) (\<lambda>_.
    andThen (storeStats W opts now) (\<lambda>st.
    if tsReservations st \<ge> aoMaxReservations opts then fail ErrCapacity else admit W opts now key priority)))))"

definition Reserve :: "art_world \<Rightarrow> art_options \<Rightarrow> gotime \<Rightarrow> gotime \<Rightarrow> string \<Rightarrow> int \<Rightarrow> art_handle act" where
  "Reserve W opts now0 now key priority =
    (if key = [] \<or> priority < 0 \<or> priority > 3 \<or> \<not> digestKey key then fail ErrReservation
     else andThen (ensure W now0) (\<lambda>_. reserveLocked W opts now key priority))"

section \<open>Commit\<close>

definition liveReservation :: "gotime \<Rightarrow> string \<Rightarrow> art_db \<Rightarrow> bool" where
  "liveReservation now i db = (case map_of (dbReservations db) i of None \<Rightarrow> False | Some r \<Rightarrow> arExpires r > now)"

definition setCandidate :: "string \<Rightarrow> string \<Rightarrow> art_db \<Rightarrow> art_db" where
  "setCandidate i d db =
    db\<lparr>dbReservations := map (\<lambda>(k, r). (k, if k = i then r\<lparr>arCandidate := Some d\<rparr> else r)) (dbReservations db)\<rparr>"

text \<open>The first transaction records which body the reservation is about to publish.\<close>

definition stage :: "art_world \<Rightarrow> gotime \<Rightarrow> string \<Rightarrow> string \<Rightarrow> unit act" where
  "stage W now i d =
    andThen (lock W) (\<lambda>_.
    andThen (query W (liveReservation now i)) (\<lambda>live.
    if \<not> live then fail ErrReservation
    else andThen (exec W (setCandidate i d)) (\<lambda>_. commitTx W)))"

definition insertBlob :: "string \<Rightarrow> int \<Rightarrow> art_db \<Rightarrow> art_db" where
  "insertBlob d n db = db\<lparr>dbBlobs := AList.update d n (dbBlobs db)\<rparr>"

definition upsertVariant :: "string \<Rightarrow> string \<Rightarrow> string \<Rightarrow> int \<Rightarrow> gotime \<Rightarrow> art_db \<Rightarrow> art_db" where
  "upsertVariant key d ct priority now db =
    db\<lparr>dbVariants := AList.update key
        \<lparr>avDigest = d, avType = ct,
         avPriority = (case map_of (dbVariants db) key of None \<Rightarrow> priority | Some v \<Rightarrow> max (avPriority v) priority),
         avExpires = now + artworkTTL, avAccessed = now\<rparr> (dbVariants db)\<rparr>"

text \<open>An existing file is kept only if its bytes have the digest; otherwise the temporary file takes its place.\<close>

definition placeBlob :: "art_world \<Rightarrow> (string \<Rightarrow> string) \<Rightarrow> string \<Rightarrow> string \<Rightarrow> string \<Rightarrow> unit act" where
  "placeBlob W sha i d body =
    andThen (catch (andThen (readBlob W d) (\<lambda>b. ok (Some b))) (\<lambda>_. ok None)) (\<lambda>existing.
    if existing \<noteq> None \<and> sha (the existing) = sha body then ok ()
    else andThen (fileOp W (removeBlobFile d)) (\<lambda>_. fileOp W (renameTmp i d)))"

definition retirePrevious :: "art_world \<Rightarrow> string option \<Rightarrow> string \<Rightarrow> unit act" where
  "retirePrevious W previous d =
    (case previous of
       None \<Rightarrow> ok ()
     | Some p \<Rightarrow>
         if p = [] \<or> p = d then ok ()
         else andThen (query W (\<lambda>db. list_ex (\<lambda>(_, v). avDigest v = p) (dbVariants db))) (\<lambda>referenced.
           if referenced then ok () else removeBlob W p))"

definition publishRows :: "art_world \<Rightarrow> gotime \<Rightarrow> art_handle \<Rightarrow> string \<Rightarrow> string \<Rightarrow> int \<Rightarrow> string option \<Rightarrow> unit act" where
  "publishRows W now h ct d n previous =
    andThen (exec W (insertBlob d n)) (\<lambda>_.
    andThen (exec W (upsertVariant (ahKey h) d ct (ahPriority h) now)) (\<lambda>_.
    andThen (exec W (deleteReservation (ahID h))) (\<lambda>_.
    andThen (retirePrevious W previous d) (\<lambda>_. commitTx W))))"

definition publish ::
  "art_world \<Rightarrow> (string \<Rightarrow> string) \<Rightarrow> art_options \<Rightarrow> gotime \<Rightarrow> art_handle \<Rightarrow> string \<Rightarrow> string \<Rightarrow> unit act" where
  "publish W sha opts now h ct body =
    (let d = hex_encode (sha body) in
     andThen (lock W) (\<lambda>_.
     andThen (query W (\<lambda>db. liveReservation now (ahID h) db \<and>
         (case map_of (dbReservations db) (ahID h) of None \<Rightarrow> False | Some r \<Rightarrow> arCandidate r = Some d))) (\<lambda>live.
     if \<not> live then fail ErrReservation
     else andThen (probe W) (\<lambda>free.
       if free < aoMinFreeBytes opts + int (length body) then fail ErrCapacity
       else andThen (writeReservedTemp W (ahID h) body) (\<lambda>_.
         deferred
           (andThen (query W (\<lambda>db. map_option avDigest (map_of (dbVariants db) (ahKey h)))) (\<lambda>previous.
            andThen (placeBlob W sha (ahID h) d body) (\<lambda>_.
            publishRows W now h ct d (int (length body)) previous)))
           (fileOp W (removeTmp (ahID h))))))))"

definition cancelLocked :: "art_world \<Rightarrow> string \<Rightarrow> unit act" where
  "cancelLocked W i =
    andThen (lock W) (\<lambda>_. andThen (releaseReservation W i) (\<lambda>_. commitTx W))"

text \<open>The check of the image; the media type of the header is parsed by the standard library.\<close>

definition validImage :: "(string \<Rightarrow> string option) \<Rightarrow> string \<Rightarrow> string \<Rightarrow> bool" where
  "validImage parseMediaType ct body \<longleftrightarrow>
    (case parseMediaType ct of None \<Rightarrow> False | Some t \<Rightarrow> has_prefix (to_lower t) ''image/'') \<and>
    length ct \<le> 255 \<and> body \<noteq> [] \<and> int (length body) \<le> MaxBodyBytes"

text \<open>
  A commit: both transactions, with what other callers do in between, and the cancellation if anything failed.
\<close>

definition Commit ::
  "art_world \<Rightarrow> (string \<Rightarrow> string) \<Rightarrow> (string \<Rightarrow> string option) \<Rightarrow> art_options \<Rightarrow> gotime \<Rightarrow> gotime \<Rightarrow>
    (art_store \<Rightarrow> art_store) \<Rightarrow> (art_store \<Rightarrow> art_store) \<Rightarrow> art_handle \<Rightarrow> string \<Rightarrow> string \<Rightarrow> unit act" where
  "Commit W sha parseMediaType opts now1 now2 others1 others2 h ct body =
    (if ahClosed h then fail ErrReservation
     else catch
      (if \<not> validImage parseMediaType ct body then fail ErrOther
       else andThen (stage W now1 (ahID h) (hex_encode (sha body))) (\<lambda>_.
         andThen (\<lambda>s. (others1 s, Done ())) (\<lambda>_. publish W sha opts now2 h ct body)))
      (\<lambda>e. andThen (\<lambda>s. (others2 s, Done ())) (\<lambda>_.
        andThen (catch (cancelLocked W (ahID h)) (\<lambda>_. ok ())) (\<lambda>_. fail e))))"

text \<open>The caller's cancellation. Once \<open>Commit\<close> or \<open>Cancel\<close> has returned, the handle is closed.\<close>

definition Cancel :: "art_world \<Rightarrow> art_handle \<Rightarrow> unit act" where
  "Cancel W h = (if ahClosed h then ok () else catch (cancelLocked W (ahID h)) (\<lambda>_. ok ()))"

section \<open>Maintenance\<close>

definition sweepRoom :: "art_world \<Rightarrow> art_options \<Rightarrow> gotime \<Rightarrow> art_stats \<Rightarrow> unit act" where
  "sweepRoom W opts now first =
    (if tsTotalBytes first > aoMaxBytes opts \<or> tsFreeBytes first < aoMinFreeBytes opts + tsReservedBytes first
     then catch (makeRoom W opts now 3 0 0) (\<lambda>_. ok ()) else ok ())"

definition sweepLocked :: "art_world \<Rightarrow> art_options \<Rightarrow> gotime \<Rightarrow> (int \<times> int) act" where
  "sweepLocked W opts now =
    andThen (lock W) (\<lambda>_.
    andThen (cleanExpired W now) (\<lambda>_.
    andThen (pruneExpiredBatch W now) (\<lambda>pending.
    andThen (removeUnreferenced W) (\<lambda>_.
    andThen (storeStats W opts now) (\<lambda>first.
    andThen (sweepRoom W opts now first) (\<lambda>_.
    andThen (storeStats W opts now) (\<lambda>later.
    andThen (catch (commitTx W) (\<lambda>e. andThen (setPending True) (\<lambda>_. fail e))) (\<lambda>_.
    andThen (setPending pending) (\<lambda>_.
    ok (tsBlobs first - tsBlobs later, tsPayloadBytes first - tsPayloadBytes later))))))))))"

text \<open>Errors of the sweep are reported as nothing removed.\<close>

definition sweep :: "art_world \<Rightarrow> art_options \<Rightarrow> gotime \<Rightarrow> gotime \<Rightarrow> (int \<times> int) act" where
  "sweep W opts now0 now =
    catch (andThen (ensure W now0) (\<lambda>_. sweepLocked W opts now)) (\<lambda>_. ok (0, 0))"

definition lowCandidates :: "gotime \<Rightarrow> art_db \<Rightarrow> string list" where
  "lowCandidates now db =
    map fst (take 128 (byAccess now db (sort_key fst (filter (\<lambda>(d, _). livePriority now db d = 0) (dbBlobs db)))))"

definition evictLocked :: "art_world \<Rightarrow> art_options \<Rightarrow> gotime \<Rightarrow> (int \<times> int) act" where
  "evictLocked W opts now =
    andThen (lock W) (\<lambda>_.
    andThen (storeStats W opts now) (\<lambda>first.
    andThen (query W (lowCandidates now)) (\<lambda>ds.
    andThen (forEach (removeBlob W) ds) (\<lambda>_.
    andThen (storeStats W opts now) (\<lambda>later.
    andThen (commitTx W) (\<lambda>_. ok (int (length ds), tsTotalBytes first - tsTotalBytes later)))))))"

definition EvictLowPriority :: "art_world \<Rightarrow> art_options \<Rightarrow> gotime \<Rightarrow> gotime \<Rightarrow> (int \<times> int) act" where
  "EvictLowPriority W opts now0 now = andThen (ensure W now0) (\<lambda>_. evictLocked W opts now)"

definition storeStatsOf :: "art_world \<Rightarrow> art_options \<Rightarrow> gotime \<Rightarrow> art_stats act" where
  "storeStatsOf W opts now s =
    (if \<not> asReady s then fail ErrInitializing s
     else andThen (lock W) (\<lambda>_. andThen (storeStats W opts now) (\<lambda>st. andThen (commitTx W) (\<lambda>_. ok st))) s)"

text \<open>
  The maintenance loop reacts to its retry timer, to a wake-up by a reservation and to its ticker. The result is what
  the retry timer is reset to.
\<close>

datatype run_event = RetryTimer | MaintenanceWake | MaintenanceTick

definition runStep :: "art_world \<Rightarrow> art_options \<Rightarrow> gotime \<Rightarrow> gotime \<Rightarrow> run_event \<Rightarrow> duration option act" where
  "runStep W opts now0 now ev =
    andThen (\<lambda>s. if ev = MaintenanceWake \<or> asReady s then ok True s
        else catch (andThen (recoverStore W now0) (\<lambda>_. ok True)) (\<lambda>_. ok False) s) (\<lambda>recovered.
    if \<not> recovered then ok (Some (5 * second))
    else andThen (sweep W opts now0 now) (\<lambda>_ s. ok (if asPending s then Some second else None) s))"

end
