(* ===== verification/Artwork_Logic.thy ===== *)
theory Artwork_Logic
  imports Artwork_Ops
begin

text \<open>
  Reasoning about the artwork store. \<open>triple P m Q R\<close> says that from a state with \<open>P\<close> the action ends with \<open>Q\<close> if
  it succeeds and with \<open>R\<close> if it fails or the process dies in it. The invariant \<open>sound\<close> speaks of the current rows, of
  the rows of the open transaction and of the files together, since each step may be the last one before a rollback.
\<close>

section \<open>Triples\<close>

definition triple ::
  "(art_store \<Rightarrow> bool) \<Rightarrow> 'a act \<Rightarrow> ('a \<Rightarrow> art_store \<Rightarrow> bool) \<Rightarrow> (art_store \<Rightarrow> bool) \<Rightarrow> bool" where
  "triple P m Q R \<longleftrightarrow> (\<forall>s. P s \<longrightarrow> (case snd (m s) of Done x \<Rightarrow> Q x (fst (m s)) | _ \<Rightarrow> R (fst (m s))))"

named_theorems triple_rules \<open>triples of the primitive steps\<close>

lemma tripleD:
  assumes "triple P m Q R" "P s" "m s = (s', r)"
  shows "case r of Done x \<Rightarrow> Q x s' | _ \<Rightarrow> R s'"
  using assms unfolding triple_def by (metis fst_conv snd_conv)

lemma triple_conseq:
  assumes "triple P m Q R" "\<And>s. P' s \<Longrightarrow> P s" "\<And>x s. Q x s \<Longrightarrow> Q' x s" "\<And>s. R s \<Longrightarrow> R' s"
  shows "triple P' m Q' R'"
  unfolding triple_def
proof (intro allI impI)
  fix s
  assume "P' s"
  with assms(1,2) have "case snd (m s) of Done x \<Rightarrow> Q x (fst (m s)) | _ \<Rightarrow> R (fst (m s))" by (simp add: triple_def)
  with assms(3,4) show "case snd (m s) of Done x \<Rightarrow> Q' x (fst (m s)) | _ \<Rightarrow> R' (fst (m s))" by (cases "snd (m s)") auto
qed

lemma triple_pre: "triple P m Q R \<Longrightarrow> (\<And>s. P' s \<Longrightarrow> P s) \<Longrightarrow> triple P' m Q R"
  by (rule triple_conseq)

lemma triple_ok [triple_rules]: "(\<And>s. P s \<Longrightarrow> Q x s) \<Longrightarrow> triple P (ok x) Q R"
  by (simp add: triple_def ok_def)

lemma triple_fail [triple_rules]: "(\<And>s. P s \<Longrightarrow> R s) \<Longrightarrow> triple P (fail e) Q R"
  by (simp add: triple_def fail_def)

lemma triple_andThen:
  assumes "triple P m Q R" "\<And>x. triple (Q x) (f x) Q' R"
  shows "triple P (andThen m f) Q' R"
  unfolding triple_def
proof (intro allI impI)
  fix s
  assume "P s"
  obtain s1 r where m: "m s = (s1, r)" by fastforce
  show "case snd (andThen m f s) of Done x \<Rightarrow> Q' x (fst (andThen m f s)) | _ \<Rightarrow> R (fst (andThen m f s))"
  proof (cases r)
    case (Done x)
    then have step: "andThen m f s = f x s1" by (simp add: andThen_def m)
    show ?thesis unfolding step
      using tripleD [OF assms(1) \<open>P s\<close> m] assms(2) [of x] Done by (simp add: triple_def)
  qed (use tripleD [OF assms(1) \<open>P s\<close> m] in \<open>simp_all add: andThen_def m\<close>)
qed

lemma triple_catch:
  assumes "triple P m Q R1" "\<And>e. triple R1 (h e) Q R" "\<And>s. R1 s \<Longrightarrow> R s"
  shows "triple P (catch m h) Q R"
  unfolding triple_def
proof (intro allI impI)
  fix s
  assume "P s"
  obtain s1 r where m: "m s = (s1, r)" by fastforce
  show "case snd (catch m h s) of Done x \<Rightarrow> Q x (fst (catch m h s)) | _ \<Rightarrow> R (fst (catch m h s))"
  proof (cases r)
    case (Err e)
    then have step: "catch m h s = h e s1" by (simp add: catch_def m)
    show ?thesis unfolding step
      using tripleD [OF assms(1) \<open>P s\<close> m] assms(2) [of e] Err by (simp add: triple_def)
  qed (use tripleD [OF assms(1) \<open>P s\<close> m] assms(3) in \<open>simp_all add: catch_def m\<close>)
qed

lemma triple_deferred:
  assumes "triple P m Q R" "triple R c (\<lambda>_. R) R" "\<And>s. R s \<Longrightarrow> R' s"
    and "\<And>x. triple (Q x) c (\<lambda>_. Q' x) (Q' x)" "\<And>x s. Q' x s \<Longrightarrow> R' s"
  shows "triple P (deferred m c) Q' R'"
  unfolding triple_def
proof (intro allI impI)
  fix s
  assume "P s"
  obtain s1 r where m: "m s = (s1, r)" by fastforce
  obtain s2 r2 where c: "c s1 = (s2, r2)" by fastforce
  note d = tripleD [OF assms(1) \<open>P s\<close> m]
  show "case snd (deferred m c s) of Done x \<Rightarrow> Q' x (fst (deferred m c s)) | _ \<Rightarrow> R' (fst (deferred m c s))"
  proof (cases r)
    case (Done x)
    with d have "Q x s1" by simp
    from tripleD [OF assms(4) this c] assms(5) Done m c show ?thesis
      by (cases r2) (auto simp: deferred_def)
  next
    case (Err e)
    with d have "R s1" by simp
    from tripleD [OF assms(2) this c] assms(3) Err m c show ?thesis by (cases r2) (auto simp: deferred_def)
  next
    case Died
    with d assms(3) m show ?thesis by (simp add: deferred_def)
  qed
qed

lemma triple_forEach:
  assumes "\<And>x. x \<in> set xs \<Longrightarrow> triple P (f x) (\<lambda>_. P) R"
  shows "triple P (forEach f xs) (\<lambda>_. P) R"
  using assms by (induction xs) (auto intro: triple_ok triple_andThen)

text \<open>A fold with an invariant that knows the elements already treated.\<close>

lemma triple_foldEach:
  assumes "\<And>pre x post acc. xs = pre @ x # post \<Longrightarrow> triple (I pre acc) (f x acc) (I (pre @ [x])) R"
  shows "triple (I [] acc) (foldEach f xs acc) (I xs) R"
proof -
  have "triple (I pre acc) (foldEach f post acc) (I xs) R" if "xs = pre @ post" for pre post acc
    using that
  proof (induction post arbitrary: pre acc)
    case (Cons x post)
    have "triple (I pre acc) (f x acc) (I (pre @ [x])) R" using assms Cons.prems by blast
    moreover have "triple (I (pre @ [x]) acc') (foldEach f post acc') (I xs) R" for acc'
      using Cons.IH [of "pre @ [x]" acc'] Cons.prems by simp
    ultimately show ?case by (auto intro: triple_andThen)
  qed (simp add: triple_ok)
  from this [of "[]" xs] show ?thesis by simp
qed

lemma triple_forEach_prefix:
  assumes "\<And>pre x post. xs = pre @ x # post \<Longrightarrow> triple (I pre) (f x) (\<lambda>_. I (pre @ [x])) R"
  shows "triple (I []) (forEach f xs) (\<lambda>_. I xs) R"
proof -
  have "triple (I pre) (forEach f post) (\<lambda>_. I xs) R" if "xs = pre @ post" for pre post
    using that
  proof (induction post arbitrary: pre)
    case (Cons x post)
    have "triple (I pre) (f x) (\<lambda>_. I (pre @ [x])) R" using assms Cons.prems by blast
    moreover have "triple (I (pre @ [x])) (forEach f post) (\<lambda>_. I xs) R"
      using Cons.IH [of "pre @ [x]"] Cons.prems by simp
    ultimately show ?case by (auto intro: triple_andThen)
  qed (simp add: triple_ok)
  from this [of "[]" xs] show ?thesis by simp
qed

section \<open>Primitive steps\<close>

definition stepless :: "(art_store \<Rightarrow> bool) \<Rightarrow> bool" where
  "stepless P \<longleftrightarrow> (\<forall>s n. P s \<longrightarrow> P (s\<lparr>asStep := n\<rparr>))"

lemma triple_attempt:
  assumes "\<And>s. P s \<Longrightarrow> Q (good (s\<lparr>asStep := Suc (asStep s)\<rparr>)) (partial 0 (s\<lparr>asStep := Suc (asStep s)\<rparr>))"
    and "\<And>s n. P s \<Longrightarrow> R (partial (Suc n) (s\<lparr>asStep := Suc (asStep s)\<rparr>))"
  shows "triple P (attempt W partial good) Q R"
  using assms by (auto simp: triple_def attempt_def Let_def split: step_outcome.splits)

lemma triple_query [triple_rules]:
  assumes "stepless P" "\<And>s. P s \<Longrightarrow> R s"
  shows "triple P (query W q) (\<lambda>x s. P s \<and> x = q (asTx s)) R"
  unfolding query_def by (rule triple_attempt) (use assms in \<open>auto simp: stepless_def\<close>)

lemma triple_exec:
  assumes "stepless P" "\<And>s. P s \<Longrightarrow> Q (s\<lparr>asTx := f (asTx s)\<rparr>)" "\<And>s. P s \<Longrightarrow> R s"
  shows "triple P (exec W f) (\<lambda>_. Q) R"
  unfolding exec_def
proof (rule triple_attempt)
  fix s :: art_store and n :: nat
  assume "P s"
  then have P: "P (s\<lparr>asStep := Suc (asStep s)\<rparr>)" using assms(1) by (simp add: stepless_def)
  from assms(2) [OF this] show "Q (if 0 = 0 then s\<lparr>asStep := Suc (asStep s)\<rparr>\<lparr>asTx := f (asTx (s\<lparr>asStep := Suc (asStep s)\<rparr>))\<rparr>
      else s\<lparr>asStep := Suc (asStep s)\<rparr>)" by simp
  from assms(3) [OF P] show "R (if Suc n = 0 then s\<lparr>asStep := Suc (asStep s)\<rparr>\<lparr>asTx := f (asTx (s\<lparr>asStep := Suc (asStep s)\<rparr>))\<rparr>
      else s\<lparr>asStep := Suc (asStep s)\<rparr>)" by simp
qed

lemma triple_fileOp:
  assumes "stepless P" "\<And>s. P s \<Longrightarrow> Q (s\<lparr>asFiles := f (asFiles s)\<rparr>)" "\<And>s. P s \<Longrightarrow> R s" "\<And>s. Q s \<Longrightarrow> R s"
  shows "triple P (fileOp W f) (\<lambda>_. Q) R"
  unfolding fileOp_def
proof (rule triple_attempt)
  fix s :: art_store and n :: nat
  let ?s = "s\<lparr>asStep := Suc (asStep s)\<rparr>"
  assume "P s"
  then have P: "P ?s" using assms(1) by (simp add: stepless_def)
  from assms(2) [OF this] show "Q (if (0::nat) = 1 then ?s else ?s\<lparr>asFiles := f (asFiles ?s)\<rparr>)" by simp
  from assms(2,3) [OF P] assms(4) show "R (if Suc n = 1 then ?s else ?s\<lparr>asFiles := f (asFiles ?s)\<rparr>)" by simp
qed

lemma triple_lock:
  assumes "stepless P" "\<And>s. P s \<Longrightarrow> Q (s\<lparr>asTx := asDb s\<rparr>)" "\<And>s. P s \<Longrightarrow> R s"
  shows "triple P (lock W) (\<lambda>_. Q) R"
  unfolding lock_def
proof (rule triple_attempt)
  fix s :: art_store and n :: nat
  let ?s = "s\<lparr>asStep := Suc (asStep s)\<rparr>"
  assume "P s"
  then have P: "P ?s" using assms(1) by (simp add: stepless_def)
  from assms(2) [OF this] show "Q (if (0::nat) = 0 then ?s\<lparr>asTx := asDb ?s\<rparr> else ?s)" by simp
  from assms(3) [OF P] show "R (if Suc n = 0 then ?s\<lparr>asTx := asDb ?s\<rparr> else ?s)" by simp
qed

lemma triple_commitTx:
  assumes "stepless P" "\<And>s. P s \<Longrightarrow> Q (s\<lparr>asDb := asTx s\<rparr>)" "\<And>s. P s \<Longrightarrow> R s" "\<And>s. Q s \<Longrightarrow> R s"
  shows "triple P (commitTx W) (\<lambda>_. Q) R"
  unfolding commitTx_def
proof (rule triple_attempt)
  fix s :: art_store and n :: nat
  let ?s = "s\<lparr>asStep := Suc (asStep s)\<rparr>"
  assume "P s"
  then have P: "P ?s" using assms(1) by (simp add: stepless_def)
  from assms(2) [OF this] show "Q (if (0::nat) = 1 then ?s else ?s\<lparr>asDb := asTx ?s\<rparr>)" by simp
  from assms(2,3) [OF P] assms(4) show "R (if Suc n = 1 then ?s else ?s\<lparr>asDb := asTx ?s\<rparr>)" by simp
qed

lemma triple_read:
  assumes "stepless P" "\<And>s. P s \<Longrightarrow> R s"
  shows "triple P (attempt W (\<lambda>_ s. s) g) (\<lambda>x s. P s \<and> x = g s) R"
  by (rule triple_attempt) (use assms in \<open>auto simp: stepless_def\<close>)

lemma triple_readBlob [triple_rules]:
  assumes "stepless P" "\<And>s. P s \<Longrightarrow> R s"
  shows "triple P (readBlob W d)
    (\<lambda>b s. P s \<and> map_of (flBlobs (asFiles s)) d = Some b \<and> int (length b) \<le> MaxBodyBytes) R"
  unfolding readBlob_def
  by (rule triple_andThen [OF triple_read [OF assms]])
    (auto intro!: triple_ok triple_fail assms(2) split: option.split)

lemma triple_probe [triple_rules]:
  assumes "stepless P" "\<And>s. P s \<Longrightarrow> R s"
  shows "triple P (probe W) (\<lambda>_. P) R"
  unfolding probe_def
  by (rule triple_andThen [OF triple_read [OF assms]])
    (auto intro!: triple_ok triple_fail assms(2) split: option.split)

lemma triple_storeStats [triple_rules]:
  assumes "stepless P" "\<And>s. P s \<Longrightarrow> R s"
  shows "triple P (storeStats W opts now) (\<lambda>st s. P s \<and> (\<exists>free. st = statsOf opts now free (asTx s))) R"
  unfolding storeStats_def
proof (rule triple_andThen [OF triple_query [OF assms]])
  fix db
  have st: "stepless (\<lambda>s. P s \<and> db = asTx s)" using assms(1) by (auto simp: stepless_def)
  show "triple (\<lambda>s. P s \<and> db = asTx s) (andThen (probe W) (\<lambda>free. ok (statsOf opts now free db)))
    (\<lambda>st s. P s \<and> (\<exists>free. st = statsOf opts now free (asTx s))) R"
    by (rule triple_andThen [OF triple_probe [OF st]]) (auto intro!: triple_ok assms(2))
qed

end
