(* ===== verification/Artwork_Invariant.thy ===== *)
theory Artwork_Invariant
  imports Artwork_Logic
begin

text \<open>
  The invariant of the artwork store. Every body file has the digest it is named by and is accounted for by its row or by a
  reservation whose transfer is over, and the managed bytes stay within a bound. A reservation in \<open>busy\<close> belongs to a
  transfer under way and accounts for its temporary file instead.
\<close>

section \<open>Sums over rows\<close>

lemma sum_filter_le: "(\<And>e. e \<in> set m \<Longrightarrow> 0 \<le> f e) \<Longrightarrow> sum_list (map f (filter P m)) \<le> (sum_list (map f m) :: int)"
  by (induction m) (auto simp: add_increasing)

lemma delete_filter: "AList.delete k m = filter (\<lambda>e. fst e \<noteq> k) m"
  by (auto simp: AList.delete_eq intro!: filter_cong)

lemma sum_delete_le: "(\<And>e. e \<in> set m \<Longrightarrow> 0 \<le> f e) \<Longrightarrow> sum_list (map f (AList.delete k m)) \<le> (sum_list (map f m) :: int)"
  by (simp add: delete_filter sum_filter_le)

lemma delete_absent: "k \<notin> fst ` set m \<Longrightarrow> AList.delete k m = m"
  by (induction m) auto

lemma sum_delete:
  "wf_map m \<Longrightarrow> map_of m k = Some v \<Longrightarrow> sum_list (map f (AList.delete k m)) + f (k, v) = (sum_list (map f m) :: int)"
proof (induction m)
  case (Cons e m)
  show ?case
  proof (cases "fst e = k")
    case True
    with Cons.prems have "e = (k, v)" "k \<notin> fst ` set m" by (cases e; auto simp: wf_map_def)+
    then show ?thesis by (simp add: delete_absent)
  next
    case False
    with Cons show ?thesis by (cases e) (auto simp: wf_map_def)
  qed
qed simp

lemma sum_update:
  "wf_map m \<Longrightarrow> sum_list (map f (AList.update k v m)) = (sum_list (map f (AList.delete k m)) + f (k, v) :: int)"
proof (induction m)
  case (Cons e m)
  show ?case
  proof (cases "fst e = k")
    case True
    with Cons.prems have "k \<notin> fst ` set m" by (auto simp: wf_map_def)
    with True show ?thesis by (cases e) (simp add: delete_absent)
  next
    case False
    with Cons show ?thesis by (cases e) (auto simp: wf_map_def)
  qed
qed simp

lemma length_sum: "int (length m) = sum_list (map (\<lambda>_. 1) m)"
  by (induction m) simp_all

section \<open>The invariant\<close>

definition managedBytes :: "art_db \<Rightarrow> int" where
  "managedBytes db = payloadBytes db +
     (int (length (dbBlobs db)) * blobOverhead + int (length (dbVariants db)) * variantOverhead) + reservedBytes db"

definition otherBytes :: "art_files \<Rightarrow> int" where
  "otherBytes fs = sum_list (map (ofSize \<circ> snd) (flOther fs))"

definition rows_ok :: "(string \<Rightarrow> string) \<Rightarrow> art_db \<Rightarrow> bool" where
  "rows_ok sha db \<longleftrightarrow> wf_map (dbBlobs db) \<and> wf_map (dbVariants db) \<and> wf_map (dbReservations db) \<and> 0 \<le> dbUntracked db \<and>
     (\<forall>e \<in> set (dbBlobs db). \<exists>b. hex_encode (sha b) = fst e \<and> int (length b) = snd e \<and> snd e \<le> MaxBodyBytes) \<and>
     (\<forall>e \<in> set (dbReservations db). arBytes (snd e) = reservationBytes)"

definition files_ok :: "(string \<Rightarrow> string) \<Rightarrow> art_files \<Rightarrow> bool" where
  "files_ok sha fs \<longleftrightarrow> wf_map (flBlobs fs) \<and> wf_map (flTmp fs) \<and> wf_map (flOther fs) \<and>
     (\<forall>e \<in> set (flBlobs fs). hex_encode (sha (snd e)) = fst e \<and> int (length (snd e)) \<le> MaxBodyBytes) \<and>
     (\<forall>e \<in> set (flTmp fs). int (length (snd e)) \<le> MaxBodyBytes) \<and> (\<forall>e \<in> set (flOther fs). 0 \<le> ofSize (snd e))"

definition answers_for :: "string set \<Rightarrow> art_db \<Rightarrow> art_files \<Rightarrow> string \<Rightarrow> bool" where
  "answers_for busy db fs d \<longleftrightarrow> (\<exists>i r. map_of (dbReservations db) i = Some r \<and> arCandidate r = Some d \<and>
     i \<notin> busy \<and> map_of (flTmp fs) i = None)"

definition covered :: "string set \<Rightarrow> art_db \<Rightarrow> art_files \<Rightarrow> bool" where
  "covered busy db fs \<longleftrightarrow>
     (\<forall>d. map_of (flBlobs fs) d \<noteq> None \<longrightarrow> map_of (dbBlobs db) d \<noteq> None \<or> answers_for busy db fs d)"

definition consistent :: "(string \<Rightarrow> string) \<Rightarrow> string set \<Rightarrow> art_db \<Rightarrow> art_files \<Rightarrow> bool \<Rightarrow> bool" where
  "consistent sha busy db fs ready \<longleftrightarrow> rows_ok sha db \<and> files_ok sha fs \<and> covered busy db fs \<and>
     (ready \<longrightarrow> otherBytes fs \<le> dbUntracked db)"

definition settled :: "(string \<Rightarrow> string) \<Rightarrow> string set \<Rightarrow> int \<Rightarrow> bool \<Rightarrow> art_store \<Rightarrow> bool" where
  "settled sha busy c rd s \<longleftrightarrow> asReady s = rd \<and> consistent sha busy (asDb s) (asFiles s) rd \<and> managedBytes (asDb s) \<le> c"

definition sound :: "(string \<Rightarrow> string) \<Rightarrow> string set \<Rightarrow> int \<Rightarrow> bool \<Rightarrow> art_store \<Rightarrow> bool" where
  "sound sha busy c rd s \<longleftrightarrow> settled sha busy c rd s \<and> consistent sha busy (asTx s) (asFiles s) rd \<and> managedBytes (asTx s) \<le> c"

lemma totalBytes_managed: "totalBytes db = managedBytes db + dbUntracked db"
  by (simp add: totalBytes_def managedBytes_def)

lemma overhead_pos [simp]: "0 < variantOverhead" "0 < blobOverhead" "0 < MaxBodyBytes" "0 < reservationBytes"
  "0 \<le> variantOverhead" "0 \<le> blobOverhead" "0 \<le> MaxBodyBytes" "0 \<le> reservationBytes"
  by (simp_all add: variantOverhead_def blobOverhead_def MaxBodyBytes_def reservationBytes_def)

lemma covered_mono:
  assumes "covered busy db fs"
    and "\<And>d. map_of (flBlobs fs') d \<noteq> None \<Longrightarrow> map_of (flBlobs fs) d \<noteq> None"
    and "\<And>d. map_of (flBlobs fs') d \<noteq> None \<Longrightarrow> map_of (dbBlobs db) d \<noteq> None \<or> answers_for busy db fs d \<Longrightarrow>
      map_of (dbBlobs db') d \<noteq> None \<or> answers_for busy' db' fs' d"
  shows "covered busy' db' fs'"
  using assms unfolding covered_def by blast

section \<open>Steps on files\<close>

lemma consistent_shrink:
  assumes "consistent sha busy db fs ready" "files_ok sha fs'" "otherBytes fs' \<le> otherBytes fs"
    and "\<And>d. map_of (flBlobs fs') d \<noteq> None \<Longrightarrow> map_of (flBlobs fs) d \<noteq> None"
    and "\<And>i. map_of (flTmp fs) i = None \<Longrightarrow> map_of (flTmp fs') i = None"
  shows "consistent sha busy db fs' ready"
proof -
  have "answers_for busy db fs d \<Longrightarrow> answers_for busy db fs' d" for d
    using assms(5) unfolding answers_for_def by blast
  moreover have "covered busy db fs" using assms(1) by (simp add: consistent_def)
  ultimately have "covered busy db fs'" using covered_mono [OF _ assms(4)] by blast
  with assms(1-3) show ?thesis by (auto simp: consistent_def)
qed

lemma consistent_files: "consistent sha busy db fs ready \<Longrightarrow> files_ok sha fs"
  by (simp add: consistent_def)

lemma files_ok_remove:
  assumes "files_ok sha fs"
  shows "files_ok sha (removeTmp i fs)" "files_ok sha (removeBlobFile d fs)" "files_ok sha (removeOther p fs)"
    "otherBytes (removeOther p fs) \<le> otherBytes fs"
  using assms by (auto simp: files_ok_def removeTmp_def removeBlobFile_def removeOther_def otherBytes_def
      intro!: sum_delete_le dest: subsetD [OF set_delete_subset])

lemma consistent_removeTmp: "consistent sha busy db fs ready \<Longrightarrow> consistent sha busy db (removeTmp i fs) ready"
  by (frule consistent_files, erule consistent_shrink)
    (simp_all add: files_ok_remove, simp_all add: removeTmp_def otherBytes_def map_of_delete)

lemma consistent_removeBlobFile: "consistent sha busy db fs ready \<Longrightarrow> consistent sha busy db (removeBlobFile d fs) ready"
  by (frule consistent_files, erule consistent_shrink)
    (simp_all add: files_ok_remove, simp_all add: removeBlobFile_def otherBytes_def map_of_delete split: if_splits)

lemma consistent_removeOther: "consistent sha busy db fs ready \<Longrightarrow> consistent sha busy db (removeOther p fs) ready"
  by (frule consistent_files, erule consistent_shrink) (simp_all add: files_ok_remove, simp_all add: removeOther_def)

lemmas consistent_remove = consistent_removeTmp consistent_removeBlobFile consistent_removeOther

text \<open>A transfer under way may create its temporary file.\<close>

lemma consistent_write:
  assumes "consistent sha busy db fs ready" "i \<in> busy" "int (length b) \<le> MaxBodyBytes"
  shows "consistent sha busy db (fs\<lparr>flTmp := AList.update i b (flTmp fs)\<rparr>) ready"
proof -
  let ?fs = "fs\<lparr>flTmp := AList.update i b (flTmp fs)\<rparr>"
  have "answers_for busy db fs d \<Longrightarrow> answers_for busy db ?fs d" for d
    using assms(2) unfolding answers_for_def by (auto simp: map_of_update)
  moreover have "files_ok sha ?fs"
    using assms(1,3) by (auto simp: consistent_def files_ok_def dest!: subsetD [OF set_update_subset])
  moreover have "covered busy db fs" using assms(1) by (simp add: consistent_def)
  ultimately have "covered busy db ?fs" using covered_mono [of busy db fs ?fs db busy] by auto
  with \<open>files_ok sha ?fs\<close> assms(1) show ?thesis by (simp add: consistent_def otherBytes_def)
qed

text \<open>The complete temporary file of a finished transfer becomes the body file its reservation announced.\<close>

lemma consistent_rename:
  assumes "consistent sha busy db fs ready" "i \<notin> busy" "map_of (dbReservations db) i = Some r" "arCandidate r = Some d"
    and "map_of (flTmp fs) i = Some b" "hex_encode (sha b) = d"
  shows "consistent sha busy db (renameTmp i d fs) ready"
proof -
  define fs' where "fs' = renameTmp i d fs"
  have fs': "flTmp fs' = AList.delete i (flTmp fs)" "flBlobs fs' = AList.update d b (flBlobs fs)" "flOther fs' = flOther fs"
    using assms(5) by (simp_all add: fs'_def renameTmp_def)
  have "int (length b) \<le> MaxBodyBytes"
    using assms(1,5) map_of_SomeD [of "flTmp fs" i b] by (auto simp: consistent_def files_ok_def)
  then have "files_ok sha fs'"
    using assms(1,6) by (auto simp: consistent_def files_ok_def fs' dest!: subsetD [OF set_update_subset] subsetD [OF set_delete_subset])
  moreover have "map_of (dbBlobs db) d' \<noteq> None \<or> answers_for busy db fs' d'" if "map_of (flBlobs fs') d' \<noteq> None" for d'
  proof (cases "d' = d")
    case True
    with assms(2-4) have "answers_for busy db fs' d'" by (auto simp: answers_for_def fs' map_of_delete)
    then show ?thesis ..
  next
    case False
    with that have "map_of (flBlobs fs) d' \<noteq> None" by (simp add: fs' map_of_update)
    with assms(1) have "map_of (dbBlobs db) d' \<noteq> None \<or> answers_for busy db fs d'" by (simp add: consistent_def covered_def)
    moreover have "answers_for busy db fs d' \<Longrightarrow> answers_for busy db fs' d'"
      unfolding answers_for_def fs' by (auto simp: map_of_delete)
    ultimately show ?thesis by blast
  qed
  then have "covered busy db fs'" unfolding covered_def by blast
  ultimately show ?thesis using assms(1) unfolding fs'_def [symmetric] by (simp add: consistent_def otherBytes_def fs')
qed

section \<open>Steps on rows\<close>

lemma consistent_rows:
  assumes "consistent sha busy db fs ready" "rows_ok sha db'" "dbUntracked db' = dbUntracked db"
    and "\<And>d. map_of (flBlobs fs) d \<noteq> None \<Longrightarrow> map_of (dbBlobs db) d \<noteq> None \<Longrightarrow> map_of (dbBlobs db') d \<noteq> None"
    and "\<And>d. map_of (flBlobs fs) d \<noteq> None \<Longrightarrow> answers_for busy db fs d \<Longrightarrow>
      map_of (dbBlobs db') d \<noteq> None \<or> answers_for busy db' fs d"
  shows "consistent sha busy db' fs ready"
proof -
  have "covered busy db fs" using assms(1) by (simp add: consistent_def)
  then have "covered busy db' fs" by (rule covered_mono) (use assms(4,5) in blast)+
  with assms(1-3) show ?thesis by (simp add: consistent_def)
qed

lemma consistent_ok: "consistent sha busy db fs ready \<Longrightarrow> rows_ok sha db"
  by (simp add: consistent_def)

lemma rows_ok_steps:
  assumes "rows_ok sha db"
  shows "rows_ok sha (deleteBlob d db)" "rows_ok sha (deleteReservation i db)" "rows_ok sha (deleteVariants ks db)"
    "rows_ok sha (touchVariant key now db)" "rows_ok sha (insertReservation i p now db)" "rows_ok sha (setCandidate i d db)"
    "rows_ok sha (upsertVariant key d ct p now db)"
proof -
  show "rows_ok sha (deleteBlob d db)" "rows_ok sha (deleteReservation i db)" "rows_ok sha (deleteVariants ks db)"
    "rows_ok sha (upsertVariant key d ct p now db)" "rows_ok sha (insertReservation i p now db)"
    using assms by (auto simp: rows_ok_def deleteBlob_def deleteReservation_def deleteVariants_def upsertVariant_def
        insertReservation_def dest!: subsetD [OF set_delete_subset] subsetD [OF set_update_subset])
  have "map fst (map (\<lambda>(k, v). (k, f k v)) m) = map fst m" for f :: "string \<Rightarrow> 'b \<Rightarrow> 'b" and m by (induction m) auto
  then have wf: "wf_map m \<Longrightarrow> wf_map (map (\<lambda>(k, v). (k, f k v)) m)" for f :: "string \<Rightarrow> 'b \<Rightarrow> 'b" and m
    unfolding wf_map_def by metis
  show "rows_ok sha (touchVariant key now db)"
    using assms wf by (auto simp: rows_ok_def touchVariant_def)
  show "rows_ok sha (setCandidate i d db)"
    using assms wf by (auto simp: rows_ok_def setCandidate_def)
qed

lemma untracked_steps [simp]:
  "dbUntracked (deleteBlob d db) = dbUntracked db" "dbUntracked (deleteReservation i db) = dbUntracked db"
  "dbUntracked (deleteVariants ks db) = dbUntracked db" "dbUntracked (touchVariant key now db) = dbUntracked db"
  "dbUntracked (insertReservation i p now db) = dbUntracked db" "dbUntracked (setCandidate i d db) = dbUntracked db"
  "dbUntracked (upsertVariant key d ct p now db) = dbUntracked db" "dbUntracked (insertBlob d n db) = dbUntracked db"
  by (simp_all add: deleteBlob_def deleteReservation_def deleteVariants_def upsertVariant_def touchVariant_def setCandidate_def
      insertReservation_def insertBlob_def)

lemma consistent_deleteBlob:
  assumes "consistent sha busy db fs ready" "map_of (flBlobs fs) d = None"
  shows "consistent sha busy (deleteBlob d db) fs ready"
  using assms(1)
proof (rule consistent_rows)
  show "rows_ok sha (deleteBlob d db)" by (rule rows_ok_steps(1) [OF consistent_ok [OF assms(1)]])
qed (use assms(2) in \<open>auto simp: deleteBlob_def map_of_delete answers_for_def\<close>)

lemma consistent_deleteReservation:
  assumes "consistent sha busy db fs ready"
    and "\<And>r d. map_of (dbReservations db) i = Some r \<Longrightarrow> arCandidate r = Some d \<Longrightarrow> map_of (flBlobs fs) d \<noteq> None \<Longrightarrow>
      map_of (dbBlobs db) d \<noteq> None"
  shows "consistent sha busy (deleteReservation i db) fs ready"
  using assms(1)
proof (rule consistent_rows)
  show "rows_ok sha (deleteReservation i db)" by (rule rows_ok_steps(2) [OF consistent_ok [OF assms(1)]])
  fix d
  assume body: "map_of (flBlobs fs) d \<noteq> None" and "answers_for busy db fs d"
  then obtain j r where j: "map_of (dbReservations db) j = Some r" "arCandidate r = Some d" "j \<notin> busy" "map_of (flTmp fs) j = None"
    by (auto simp: answers_for_def)
  show "map_of (dbBlobs (deleteReservation i db)) d \<noteq> None \<or> answers_for busy (deleteReservation i db) fs d"
  proof (cases "j = i")
    case True
    with assms(2) j(1,2) body show ?thesis by (simp add: deleteReservation_def)
  next
    case False
    with j have "answers_for busy (deleteReservation i db) fs d" by (auto simp: answers_for_def deleteReservation_def map_of_delete)
    then show ?thesis ..
  qed
qed (simp_all add: deleteReservation_def)

lemma consistent_variants:
  assumes "consistent sha busy db fs ready"
  shows "consistent sha busy (deleteVariants ks db) fs ready" "consistent sha busy (touchVariant key now db) fs ready"
    "consistent sha busy (upsertVariant key d ct p now db) fs ready"
proof -
  note ok = rows_ok_steps [OF consistent_ok [OF assms]]
  show "consistent sha busy (deleteVariants ks db) fs ready"
    by (rule consistent_rows [OF assms ok(3)]) (simp_all add: deleteVariants_def answers_for_def)
  show "consistent sha busy (touchVariant key now db) fs ready"
    by (rule consistent_rows [OF assms ok(4)]) (simp_all add: touchVariant_def answers_for_def)
  show "consistent sha busy (upsertVariant key d ct p now db) fs ready"
    by (rule consistent_rows [OF assms ok(7)]) (simp_all add: upsertVariant_def answers_for_def)
qed

lemma consistent_insertReservation:
  assumes "consistent sha busy db fs ready" "map_of (dbReservations db) i = None"
  shows "consistent sha busy (insertReservation i p now db) fs ready"
proof (rule consistent_rows [OF assms(1) rows_ok_steps(5) [OF consistent_ok [OF assms(1)]]])
  fix d
  assume "answers_for busy db fs d"
  then obtain j r where "map_of (dbReservations db) j = Some r" "arCandidate r = Some d" "j \<notin> busy" "map_of (flTmp fs) j = None"
    by (auto simp: answers_for_def)
  moreover then have "j \<noteq> i" using assms(2) by auto
  ultimately have "answers_for busy (insertReservation i p now db) fs d"
    by (auto simp: answers_for_def insertReservation_def map_of_update)
  then show "map_of (dbBlobs (insertReservation i p now db)) d \<noteq> None \<or> answers_for busy (insertReservation i p now db) fs d" ..
qed (simp_all add: insertReservation_def)

text \<open>A transfer under way may announce any body.\<close>

lemma map_of_setCandidate:
  "map_of (dbReservations (setCandidate i d db)) j =
    map_option (\<lambda>r. if j = i then r\<lparr>arCandidate := Some d\<rparr> else r) (map_of (dbReservations db) j)"
proof -
  have "map_of (map (\<lambda>(k, r). (k, if k = i then r\<lparr>arCandidate := Some d\<rparr> else r)) m) j =
      map_option (\<lambda>r. if j = i then r\<lparr>arCandidate := Some d\<rparr> else r) (map_of m j)" for m :: "(string \<times> art_reservation) list"
    by (induction m) auto
  then show ?thesis by (simp add: setCandidate_def)
qed

lemma consistent_setCandidate:
  assumes "consistent sha busy db fs ready" "i \<in> busy"
  shows "consistent sha busy (setCandidate i d db) fs ready"
proof (rule consistent_rows [OF assms(1) rows_ok_steps(6) [OF consistent_ok [OF assms(1)]]])
  fix d'
  assume "answers_for busy db fs d'"
  then obtain j r where "map_of (dbReservations db) j = Some r" "arCandidate r = Some d'" "j \<notin> busy" "map_of (flTmp fs) j = None"
    by (auto simp: answers_for_def)
  moreover then have "j \<noteq> i" using assms(2) by auto
  ultimately have "answers_for busy (setCandidate i d db) fs d'" by (auto simp: answers_for_def map_of_setCandidate)
  then show "map_of (dbBlobs (setCandidate i d db)) d' \<noteq> None \<or> answers_for busy (setCandidate i d db) fs d'" ..
qed (simp_all add: setCandidate_def)

lemma consistent_insertBlob:
  assumes "consistent sha busy db fs ready" "int (length b) \<le> MaxBodyBytes"
  shows "consistent sha busy (insertBlob (hex_encode (sha b)) (int (length b)) db) fs ready"
proof (rule consistent_rows [OF assms(1)])
  show "rows_ok sha (insertBlob (hex_encode (sha b)) (int (length b)) db)"
    using consistent_ok [OF assms(1)] assms(2)
    by (auto simp: rows_ok_def insertBlob_def dest!: subsetD [OF set_update_subset])
qed (auto simp: insertBlob_def map_of_update answers_for_def)

text \<open>Fewer transfers under way, and new ones that answer for nothing yet.\<close>

lemma consistent_busy:
  assumes "consistent sha busy db fs ready" "\<And>i. i \<in> busy' \<Longrightarrow> i \<in> busy \<or> (\<forall>r. map_of (dbReservations db) i = Some r \<longrightarrow> arCandidate r = None)"
  shows "consistent sha busy' db fs ready"
proof -
  have "answers_for busy db fs d \<Longrightarrow> answers_for busy' db fs d" for d
    using assms(2) unfolding answers_for_def by (metis option.distinct(1))
  moreover have "covered busy db fs" using assms(1) by (simp add: consistent_def)
  ultimately have "covered busy' db fs" using covered_mono [of busy db fs fs db busy'] by blast
  with assms(1) show ?thesis by (simp add: consistent_def)
qed

section \<open>Managed bytes\<close>

lemma blob_nonneg: "rows_ok sha db \<Longrightarrow> e \<in> set (dbBlobs db) \<Longrightarrow> 0 \<le> snd e"
  unfolding rows_ok_def by force

lemma reservation_nonneg: "rows_ok sha db \<Longrightarrow> e \<in> set (dbReservations db) \<Longrightarrow> 0 \<le> arBytes (snd e)"
  by (auto simp: rows_ok_def)

lemma managed_shrink:
  assumes "payloadBytes db' \<le> payloadBytes db" "length (dbBlobs db') \<le> length (dbBlobs db)"
    "length (dbVariants db') \<le> length (dbVariants db)" "reservedBytes db' \<le> reservedBytes db"
  shows "managedBytes db' \<le> managedBytes db"
  unfolding managedBytes_def using assms by (intro add_mono mult_right_mono) auto

lemma managed_steps:
  assumes "rows_ok sha db"
  shows "managedBytes (deleteBlob d db) \<le> managedBytes db" "managedBytes (deleteReservation i db) \<le> managedBytes db"
    "managedBytes (deleteVariants ks db) \<le> managedBytes db" "managedBytes (touchVariant key now db) \<le> managedBytes db"
    "managedBytes (setCandidate i d db) \<le> managedBytes db"
proof -
  show "managedBytes (deleteBlob d db) \<le> managedBytes db"
    by (rule managed_shrink) (use blob_nonneg [OF assms] in \<open>auto simp: deleteBlob_def payloadBytes_def reservedBytes_def
      AList.length_delete_le intro!: sum_delete_le\<close>)
  show "managedBytes (deleteReservation i db) \<le> managedBytes db"
    by (rule managed_shrink) (use reservation_nonneg [OF assms] in \<open>auto simp: deleteReservation_def payloadBytes_def reservedBytes_def
      intro!: sum_delete_le\<close>)
  show "managedBytes (deleteVariants ks db) \<le> managedBytes db" "managedBytes (touchVariant key now db) \<le> managedBytes db"
    by (rule managed_shrink; simp add: deleteVariants_def touchVariant_def payloadBytes_def reservedBytes_def)+
  have "map (arBytes \<circ> snd) (map (\<lambda>(k, r). (k, if k = i then r\<lparr>arCandidate := Some d\<rparr> else r)) m) = map (arBytes \<circ> snd) m"
    for m :: "(string \<times> art_reservation) list" by (induction m) auto
  then show "managedBytes (setCandidate i d db) \<le> managedBytes db"
    by (intro managed_shrink) (simp_all add: setCandidate_def payloadBytes_def reservedBytes_def del: map_map)
qed

lemma managed_insertReservation:
  assumes "rows_ok sha db" "map_of (dbReservations db) i = None"
  shows "managedBytes (insertReservation i p now db) = managedBytes db + reservationBytes"
proof -
  have "AList.delete i (dbReservations db) = dbReservations db"
    using assms(2) by (intro delete_absent) (simp add: map_of_eq_None_iff)
  then have "reservedBytes (insertReservation i p now db) = reservedBytes db + reservationBytes"
    using assms(1) by (simp add: reservedBytes_def insertReservation_def sum_update rows_ok_def)
  then show ?thesis by (simp add: managedBytes_def payloadBytes_def insertReservation_def)
qed

text \<open>Publishing a body costs at most what its reservation had set aside.\<close>

lemma managed_publish:
  assumes "rows_ok sha db" "map_of (dbReservations db) i = Some r" "n \<le> MaxBodyBytes"
  shows "managedBytes (deleteReservation i (upsertVariant key d ct p now (insertBlob d n db))) \<le> managedBytes db"
proof -
  let ?db = "deleteReservation i (upsertVariant key d ct p now (insertBlob d n db))"
  have wf: "wf_map (dbBlobs db)" "wf_map (dbReservations db)" using assms(1) by (simp_all add: rows_ok_def)
  have "arBytes r = reservationBytes" using assms(1) map_of_SomeD [OF assms(2)] by (auto simp: rows_ok_def)
  with sum_delete [OF wf(2) assms(2), of "arBytes \<circ> snd"] have "reservedBytes ?db = reservedBytes db - reservationBytes"
    by (simp add: reservedBytes_def deleteReservation_def upsertVariant_def insertBlob_def)
  moreover have "payloadBytes ?db \<le> payloadBytes db + n"
    using sum_update [OF wf(1), of snd d n] sum_delete_le [where m = "dbBlobs db" and f = snd and k = d, OF blob_nonneg [OF assms(1)]]
    by (simp add: payloadBytes_def deleteReservation_def upsertVariant_def insertBlob_def)
  moreover have "int (length (dbBlobs ?db)) * blobOverhead \<le> (int (length (dbBlobs db)) + 1) * blobOverhead"
    using length_update_le [of d n "dbBlobs db"]
    by (intro mult_right_mono) (auto simp: deleteReservation_def upsertVariant_def insertBlob_def)
  moreover have "int (length (dbVariants ?db)) * variantOverhead \<le> (int (length (dbVariants db)) + 1) * variantOverhead"
  proof (rule mult_right_mono)
    have "length (dbVariants ?db) \<le> Suc (length (dbVariants db))"
      by (simp add: deleteReservation_def upsertVariant_def insertBlob_def length_update_le)
    then show "int (length (dbVariants ?db)) \<le> int (length (dbVariants db)) + 1" by linarith
  qed simp
  ultimately show ?thesis
    using assms(3) unfolding managedBytes_def reservationBytes_def by (simp add: algebra_simps)
qed

end
