(* ===== verification/Artwork_Safety.thy ===== *)
theory Artwork_Safety
  imports Artwork_Invariant
begin

text \<open>
  Every operation of the artwork store keeps its invariant, on every failure and at every point where the process may die.
\<close>

section \<open>Steps inside a transaction\<close>

lemma stepless_sound [simp]: "stepless (sound sha busy c rd)" "stepless (settled sha busy c rd)"
  by (simp_all add: stepless_def sound_def settled_def)

lemma sound_settled: "sound sha busy c rd s \<Longrightarrow> settled sha busy c rd s"
  by (simp add: sound_def)

lemma sound_exec:
  assumes "sound sha busy c rd s" "consistent sha busy db (asFiles s) rd" "managedBytes db \<le> managedBytes (asTx s)"
  shows "sound sha busy c rd (s\<lparr>asTx := db\<rparr>)"
  using assms by (simp add: sound_def settled_def)

lemma sound_files:
  assumes "sound sha busy c rd s" "\<And>db. consistent sha busy db (asFiles s) rd \<Longrightarrow> consistent sha busy db fs rd"
  shows "sound sha busy c rd (s\<lparr>asFiles := fs\<rparr>)"
  using assms by (simp add: sound_def settled_def)

lemma sound_tx: "sound sha busy c rd s \<Longrightarrow> consistent sha busy (asTx s) (asFiles s) rd"
  by (simp add: sound_def)

lemma sound_rows: "sound sha busy c rd s \<Longrightarrow> rows_ok sha (asTx s)"
  by (simp add: sound_def consistent_def)

abbreviation keeps :: "(art_store \<Rightarrow> bool) \<Rightarrow> 'a act \<Rightarrow> bool" where
  "keeps P m \<equiv> triple P m (\<lambda>_. P) P"

lemma stepless_conj: "stepless P \<Longrightarrow> (\<And>s n. P s \<Longrightarrow> Q s \<Longrightarrow> Q (s\<lparr>asStep := n\<rparr>)) \<Longrightarrow> stepless (\<lambda>s. P s \<and> Q s)"
  by (auto simp: stepless_def)

lemma keeps_query: "stepless P \<Longrightarrow> keeps P (query W q)"
  by (rule triple_conseq [OF triple_query [of P P]]) auto

lemma triple_if: "(b \<Longrightarrow> triple P m Q R) \<Longrightarrow> (\<not> b \<Longrightarrow> triple P m' Q R) \<Longrightarrow> triple P (if b then m else m') Q R"
  by simp

lemma sound_remove:
  assumes "sound sha busy c rd s"
  shows "sound sha busy c rd (s\<lparr>asFiles := removeBlobFile d (asFiles s)\<rparr>)"
    "sound sha busy c rd (s\<lparr>asFiles := removeTmp i (asFiles s)\<rparr>)"
    "sound sha busy c rd (s\<lparr>asFiles := removeOther p (asFiles s)\<rparr>)"
  by (rule sound_files [OF assms], erule consistent_remove)+

lemma remove_fields [simp]:
  "map_of (flBlobs (removeBlobFile d fs)) d' = (if d' = d then None else map_of (flBlobs fs) d')"
  "flBlobs (removeTmp i fs) = flBlobs fs" "flBlobs (removeOther p fs) = flBlobs fs"
  "flTmp (removeBlobFile d fs) = flTmp fs" "flTmp (removeOther p fs) = flTmp fs"
  "flOther (removeBlobFile d fs) = flOther fs" "flOther (removeTmp i fs) = flOther fs"
  by (simp_all add: removeBlobFile_def removeTmp_def removeOther_def map_of_delete)

lemma sound_delete:
  assumes "sound sha busy c rd s"
  shows "map_of (flBlobs (asFiles s)) d = None \<Longrightarrow> sound sha busy c rd (s\<lparr>asTx := deleteBlob d (asTx s)\<rparr>)"
    "(\<And>r d. map_of (dbReservations (asTx s)) i = Some r \<Longrightarrow> arCandidate r = Some d \<Longrightarrow>
      map_of (flBlobs (asFiles s)) d \<noteq> None \<Longrightarrow> map_of (dbBlobs (asTx s)) d \<noteq> None) \<Longrightarrow>
      sound sha busy c rd (s\<lparr>asTx := deleteReservation i (asTx s)\<rparr>)"
    "sound sha busy c rd (s\<lparr>asTx := deleteVariants ks (asTx s)\<rparr>)" "sound sha busy c rd (s\<lparr>asTx := touchVariant key now (asTx s)\<rparr>)"
proof -
  note tx = sound_tx [OF assms] and rows = sound_rows [OF assms]
  show "map_of (flBlobs (asFiles s)) d = None \<Longrightarrow> sound sha busy c rd (s\<lparr>asTx := deleteBlob d (asTx s)\<rparr>)"
    by (rule sound_exec [OF assms consistent_deleteBlob [OF tx] managed_steps(1) [OF rows]])
  show "(\<And>r d. map_of (dbReservations (asTx s)) i = Some r \<Longrightarrow> arCandidate r = Some d \<Longrightarrow>
      map_of (flBlobs (asFiles s)) d \<noteq> None \<Longrightarrow> map_of (dbBlobs (asTx s)) d \<noteq> None) \<Longrightarrow>
      sound sha busy c rd (s\<lparr>asTx := deleteReservation i (asTx s)\<rparr>)"
    by (rule sound_exec [OF assms consistent_deleteReservation [OF tx] managed_steps(2) [OF rows]])
  show "sound sha busy c rd (s\<lparr>asTx := deleteVariants ks (asTx s)\<rparr>)" "sound sha busy c rd (s\<lparr>asTx := touchVariant key now (asTx s)\<rparr>)"
    by (rule sound_exec [OF assms consistent_variants(1) [OF tx] managed_steps(3) [OF rows]])
      (rule sound_exec [OF assms consistent_variants(2) [OF tx] managed_steps(4) [OF rows]])
qed

lemma keeps_removeBlob: "keeps (sound sha busy c rd) (removeBlob W d)"
proof (cases "digestKey d")
  case True
  let ?S = "sound sha busy c rd" and ?gone = "\<lambda>s. sound sha busy c rd s \<and> map_of (flBlobs (asFiles s)) d = None"
  have "triple ?S (fileOp W (removeBlobFile d)) (\<lambda>_. ?gone) ?S"
    by (rule triple_fileOp) (auto intro: sound_remove)
  moreover have "triple ?gone (exec W (deleteBlob d)) (\<lambda>_. ?S) ?S"
    by (rule triple_exec) (auto simp: stepless_conj intro: sound_delete)
  ultimately show ?thesis unfolding removeBlob_def using True by (auto intro: triple_andThen)
qed (simp add: removeBlob_def triple_fail)

text \<open>A reservation goes only after its temporary file and, unless its row was committed, the body it announced.\<close>

lemma keeps_releaseReservation: "keeps (sound sha busy c rd) (releaseReservation W i)"
  unfolding releaseReservation_def
proof (rule triple_andThen)
  let ?S = "sound sha busy c rd"
  let ?cand = "\<lambda>x s. ?S s \<and> x = map_option arCandidate (map_of (dbReservations (asTx s)) i)"
  let ?free = "\<lambda>d s. ?cand (Some (Some d)) s \<and> (map_of (flBlobs (asFiles s)) d \<noteq> None \<longrightarrow> map_of (dbBlobs (asTx s)) d \<noteq> None)"
  have st: "stepless (?cand x)" "stepless (?free d)" for x d by (intro stepless_conj stepless_sound; simp)+
  show "triple ?S (fileOp W (removeTmp i)) (\<lambda>_. ?S) ?S" by (rule triple_fileOp) (auto intro: sound_remove)
  fix u :: unit
  show "triple ?S (andThen (query W (\<lambda>db. map_option arCandidate (map_of (dbReservations db) i))) (\<lambda>row.
    case row of
      None \<Rightarrow> ok ()
    | Some None \<Rightarrow> exec W (deleteReservation i)
    | Some (Some d) \<Rightarrow>
        if \<not> digestKey d then fail ErrReservation
        else andThen (query W (\<lambda>db. map_of (dbBlobs db) d \<noteq> None)) (\<lambda>committed.
          andThen (if committed then ok () else fileOp W (removeBlobFile d)) (\<lambda>_.
          exec W (deleteReservation i))))) (\<lambda>_. ?S) ?S"
  proof (rule triple_andThen)
    show "triple ?S (query W (\<lambda>db. map_option arCandidate (map_of (dbReservations db) i))) ?cand ?S"
      by (rule triple_query) simp_all
    fix row
    have free: "triple (?free d) (exec W (deleteReservation i)) (\<lambda>_. ?S) ?S" for d
      by (rule triple_exec [OF st(2)]) (auto intro!: sound_delete)
    have none: "triple (?cand (Some None)) (exec W (deleteReservation i)) (\<lambda>_. ?S) ?S"
      by (rule triple_exec [OF st(1)]) (auto intro!: sound_delete)
    have some: "triple (?cand (Some (Some d))) (andThen (query W (\<lambda>db. map_of (dbBlobs db) d \<noteq> None)) (\<lambda>committed.
          andThen (if committed then ok () else fileOp W (removeBlobFile d)) (\<lambda>_. exec W (deleteReservation i)))) (\<lambda>_. ?S) ?S" for d
    proof (rule triple_andThen [OF triple_query [OF st(1)]])
      fix committed
      let ?Q = "\<lambda>s. ?cand (Some (Some d)) s \<and> committed = (map_of (dbBlobs (asTx s)) d \<noteq> None)"
      have stq: "stepless ?Q" by (intro stepless_conj stepless_sound) simp_all
      have "triple ?Q (if committed then ok () else fileOp W (removeBlobFile d)) (\<lambda>_. ?free d) ?S"
      proof (rule triple_if)
        show "triple ?Q (fileOp W (removeBlobFile d)) (\<lambda>_. ?free d) ?S"
          by (rule triple_fileOp [OF stq]) (auto intro: sound_remove)
      qed (auto intro: triple_ok)
      then show "triple ?Q (andThen (if committed then ok () else fileOp W (removeBlobFile d)) (\<lambda>_. exec W (deleteReservation i))) (\<lambda>_. ?S) ?S"
        by (rule triple_andThen) (rule free)
    qed simp
    show "triple (?cand row) (case row of
      None \<Rightarrow> ok ()
    | Some None \<Rightarrow> exec W (deleteReservation i)
    | Some (Some d) \<Rightarrow>
        if \<not> digestKey d then fail ErrReservation
        else andThen (query W (\<lambda>db. map_of (dbBlobs db) d \<noteq> None)) (\<lambda>committed.
          andThen (if committed then ok () else fileOp W (removeBlobFile d)) (\<lambda>_.
          exec W (deleteReservation i)))) (\<lambda>_. ?S) ?S"
      using none some by (auto intro!: triple_ok triple_fail split: option.split)
  qed
qed

lemma keeps_andThen: "keeps P m \<Longrightarrow> (\<And>x. keeps P (f x)) \<Longrightarrow> keeps P (andThen m f)"
  by (rule triple_andThen)

lemma keeps_ok: "keeps P (ok x)"
  by (rule triple_ok)

lemma keeps_fail: "keeps P (fail e)"
  by (rule triple_fail)

lemma keeps_catch: "keeps P m \<Longrightarrow> (\<And>e. keeps P (h e)) \<Longrightarrow> keeps P (catch m h)"
  by (rule triple_catch)

lemma keeps_storeStats: "stepless P \<Longrightarrow> keeps P (storeStats W opts now)"
  by (rule triple_conseq [OF triple_storeStats [of P P]]) auto

lemma keeps_exec: "stepless P \<Longrightarrow> (\<And>s. P s \<Longrightarrow> P (s\<lparr>asTx := f (asTx s)\<rparr>)) \<Longrightarrow> keeps P (exec W f)"
  by (rule triple_exec)

lemma keeps_fileOp: "stepless P \<Longrightarrow> (\<And>s. P s \<Longrightarrow> P (s\<lparr>asFiles := f (asFiles s)\<rparr>)) \<Longrightarrow> keeps P (fileOp W f)"
  by (rule triple_fileOp)

lemma keeps_commit: "keeps (sound sha busy c rd) (commitTx W)"
  by (rule triple_commitTx) (simp_all add: sound_def settled_def)

lemma keeps_if: "keeps P m \<Longrightarrow> keeps P m' \<Longrightarrow> keeps P (if b then m else m')"
  by simp

lemmas keeps_rules = keeps_andThen keeps_ok keeps_fail keeps_catch keeps_storeStats keeps_query triple_forEach
  keeps_removeBlob keeps_releaseReservation keeps_commit keeps_if stepless_sound

lemma keeps_cleanExpired: "keeps (sound sha busy c rd) (cleanExpired W now)"
  unfolding cleanExpired_def by (intro keeps_rules)

lemma keeps_pruneExpiredBatch: "keeps (sound sha busy c rd) (pruneExpiredBatch W now)"
  unfolding pruneExpiredBatch_def by (intro keeps_rules keeps_exec) (rule sound_delete)

lemma keeps_evictUntilRoom: "keeps (sound sha busy c rd) (evictUntilRoom W opts now room ds)"
  by (induction ds) (auto intro!: keeps_rules)

lemma keeps_removeBatches: "keeps (sound sha busy c rd) (removeBatches W ds)"
proof (induction W ds rule: removeBatches.induct)
  case (1 W ds)
  have "keeps (sound sha busy c rd) (andThen (query W (\<lambda>_. take 128 ds)) (\<lambda>batch.
    andThen (forEach (removeBlob W) batch) (\<lambda>_. if length (take 128 ds) < 128 then ok () else removeBatches W (drop 128 ds))))"
    by (intro keeps_andThen keeps_query stepless_sound triple_forEach keeps_removeBlob triple_if keeps_ok) (use 1 in auto)
  then show ?case by (subst removeBatches.simps)
qed

lemma keeps_state: "(\<And>x. keeps P (f x)) \<Longrightarrow> keeps P (\<lambda>s. f (g s) s)"
  by (simp add: triple_def)

lemma keeps_removeUnreferenced: "keeps (sound sha busy c rd) (removeUnreferenced W)"
  unfolding removeUnreferenced_def [abs_def] by (rule keeps_state) (rule keeps_removeBatches)

lemma keeps_makeRoom: "keeps (sound sha busy c rd) (makeRoom W opts now p need pneed)"
  unfolding makeRoom_def Let_def by (intro keeps_rules keeps_evictUntilRoom)

text \<open>Success of \<open>makeRoom\<close> means that the needed bytes fit below the limit.\<close>

lemma evictUntilRoom_fits:
  assumes "\<And>st. room st \<Longrightarrow> tsTotalBytes st + need \<le> m"
  shows "triple (sound sha busy c rd) (evictUntilRoom W opts now room ds)
    (\<lambda>_ s. sound sha busy c rd s \<and> totalBytes (asTx s) + need \<le> m) (sound sha busy c rd)"
proof (induction ds)
  case (Cons d ds)
  let ?S = "sound sha busy c rd"
  have stats: "triple ?S (andThen (storeStats W opts now) (\<lambda>st. if room st then ok () else evictUntilRoom W opts now room ds))
      (\<lambda>_ s. ?S s \<and> totalBytes (asTx s) + need \<le> m) ?S"
  proof (rule triple_andThen [OF triple_storeStats [of ?S ?S]])
    fix st
    show "triple (\<lambda>s. ?S s \<and> (\<exists>free. st = statsOf opts now free (asTx s)))
        (if room st then ok () else evictUntilRoom W opts now room ds) (\<lambda>_ s. ?S s \<and> totalBytes (asTx s) + need \<le> m) ?S"
    proof (rule triple_if)
      assume "room st"
      with assms show "triple (\<lambda>s. ?S s \<and> (\<exists>free. st = statsOf opts now free (asTx s))) (ok ())
          (\<lambda>_ s. ?S s \<and> totalBytes (asTx s) + need \<le> m) ?S"
        by (intro triple_ok) (fastforce simp: statsOf_def)
    qed (use Cons.IH in \<open>auto intro: triple_pre\<close>)
  qed simp_all
  have "keeps ?S (catch (andThen (removeBlob W d) (\<lambda>_. ok True)) (\<lambda>_. ok False))" by (intro keeps_rules)
  then show ?case unfolding evictUntilRoom.simps by (rule triple_andThen) (rule triple_if [OF Cons.IH stats])
qed (simp add: triple_fail)

lemma makeRoom_fits:
  "triple (sound sha busy c rd) (makeRoom W opts now p need pneed)
    (\<lambda>_ s. sound sha busy c rd s \<and> totalBytes (asTx s) + need \<le> aoMaxBytes opts) (sound sha busy c rd)"
  unfolding makeRoom_def Let_def
proof (rule triple_andThen [OF triple_storeStats [of "sound sha busy c rd" "sound sha busy c rd"]])
  let ?S = "sound sha busy c rd"
  fix st :: art_stats
  let ?pressure = "aoMaxBytes opts < tsTotalBytes st + need"
  let ?room = "hasRoom opts ?pressure (if ?pressure then if aoMaxBytes opts < aoLowWatermarkBytes opts + need
    then aoMaxBytes opts - need else aoLowWatermarkBytes opts else aoMaxBytes opts) need pneed"
  have room: "?room st' \<Longrightarrow> tsTotalBytes st' + need \<le> aoMaxBytes opts" for st' :: art_stats by (simp add: hasRoom_def)
  show "triple (\<lambda>s. ?S s \<and> (\<exists>free. st = statsOf opts now free (asTx s)))
    (if ?room st then ok () else andThen (query W (evictionCandidates now p)) (evictUntilRoom W opts now ?room))
    (\<lambda>_ s. ?S s \<and> totalBytes (asTx s) + need \<le> aoMaxBytes opts) ?S"
  proof (rule triple_if)
    assume "?room st"
    from room [OF this] show "triple (\<lambda>s. ?S s \<and> (\<exists>free. st = statsOf opts now free (asTx s))) (ok ())
        (\<lambda>_ s. ?S s \<and> totalBytes (asTx s) + need \<le> aoMaxBytes opts) ?S"
      by (intro triple_ok) (auto simp: statsOf_def)
  next
    have "triple ?S (andThen (query W (evictionCandidates now p)) (evictUntilRoom W opts now ?room))
        (\<lambda>_ s. ?S s \<and> totalBytes (asTx s) + need \<le> aoMaxBytes opts) ?S"
      by (rule triple_andThen [OF keeps_query evictUntilRoom_fits]) (simp_all add: room del: not_less)
    then show "triple (\<lambda>s. ?S s \<and> (\<exists>free. st = statsOf opts now free (asTx s)))
        (andThen (query W (evictionCandidates now p)) (evictUntilRoom W opts now ?room))
        (\<lambda>_ s. ?S s \<and> totalBytes (asTx s) + need \<le> aoMaxBytes opts) ?S"
      by (rule triple_pre) simp
  qed
qed simp_all

section \<open>Recovery\<close>

lemma triple_locked:
  "triple (settled sha busy c rd) (lock W) (\<lambda>_. sound sha busy c rd) (settled sha busy c rd)"
  by (rule triple_lock) (simp_all add: sound_def settled_def)

lemma triple_setReady: "(\<And>s. P s \<Longrightarrow> Q (s\<lparr>asReady := b\<rparr>)) \<Longrightarrow> triple P (setReady b) (\<lambda>_. Q) R"
  by (simp add: triple_def setReady_def)

lemma keeps_setPending: "keeps (sound sha busy c rd) (setPending b)" "keeps (settled sha busy c rd) (setPending b)"
  by (simp_all add: triple_def setPending_def sound_def settled_def)

text \<open>The sizes of the other files that the walk has visited.\<close>

definition visitedBytes :: "walk_entry list \<Rightarrow> (string \<times> other_file) list \<Rightarrow> int" where
  "visitedBytes pre m = sum_list (map (\<lambda>(p, f). if OtherEntry p f \<in> set pre then ofSize f else 0) m)"

lemma visited_none [simp]: "visitedBytes [] m = 0"
  by (induction m) (auto simp: visitedBytes_def)

lemma visited_gone:
  assumes "map_of m p = None"
  shows "visitedBytes (pre @ [OtherEntry p f]) m = visitedBytes pre m"
proof -
  have "(p, f') \<notin> set m" for f' using assms by (metis weak_map_of_SomeI option.distinct(1))
  then show ?thesis unfolding visitedBytes_def by (intro arg_cong [of _ _ sum_list] map_cong) auto
qed

lemma visited_other:
  assumes "wf_map m" "\<forall>e \<in> set m. 0 \<le> ofSize (snd e)" "0 \<le> ofSize f"
  shows "visitedBytes (pre @ [OtherEntry p f]) m \<le> visitedBytes pre m + ofSize f"
  using assms(1,2)
proof (induction m)
  case (Cons e m)
  show ?case
  proof (cases "fst e = p")
    case True
    with Cons.prems have "map_of m p = None" by (auto simp: wf_map_def map_of_eq_None_iff)
    then have "visitedBytes (pre @ [OtherEntry p f]) m = visitedBytes pre m" by (rule visited_gone)
    with assms(3) Cons.prems(2) show ?thesis by (cases e) (auto simp: visitedBytes_def)
  next
    case False
    with Cons show ?thesis by (cases e) (auto simp: visitedBytes_def wf_map_def)
  qed
qed (simp add: visitedBytes_def assms(3))

lemma visited_skip: "\<forall>p f. x \<noteq> OtherEntry p f \<Longrightarrow> visitedBytes (pre @ [x]) m = visitedBytes pre m"
  unfolding visitedBytes_def by (intro arg_cong [of _ _ sum_list] map_cong) auto

lemma visited_delete: "\<forall>e \<in> set m. 0 \<le> ofSize (snd e) \<Longrightarrow> visitedBytes pre (AList.delete p m) \<le> visitedBytes pre m"
  unfolding visitedBytes_def by (intro sum_delete_le) auto

lemma triple_discard:
  assumes "stepless P" "\<And>s. P s \<Longrightarrow> P (s\<lparr>asFiles := rm (asFiles s)\<rparr>)" "\<And>s. P s \<Longrightarrow> gone (rm (asFiles s))"
    "\<And>fs. gone fs \<Longrightarrow> gone fs"
  shows "triple P (discard W rm n acc) (\<lambda>acc' s. P s \<and> (acc' = acc \<and> gone (asFiles s) \<or> acc' = acc + n)) P"
  unfolding discard_def
proof (rule triple_andThen)
  let ?Q = "\<lambda>removed s. P s \<and> (removed \<longrightarrow> gone (asFiles s))"
  have "triple P (fileOp W rm) (\<lambda>_. ?Q True) P"
    by (rule triple_fileOp [OF assms(1)]) (use assms in auto)
  then have "triple P (andThen (fileOp W rm) (\<lambda>_. ok True)) ?Q P" by (rule triple_andThen) (auto intro: triple_ok)
  then show "triple P (catch (andThen (fileOp W rm) (\<lambda>_. ok True)) (\<lambda>_. ok False)) ?Q P"
    by (rule triple_catch) (auto intro: triple_ok)
  fix removed
  show "triple (?Q removed) (ok (if removed then acc else acc + n)) (\<lambda>acc' s. P s \<and> (acc' = acc \<and> gone (asFiles s) \<or> acc' = acc + n)) P"
    by (rule triple_ok) auto
qed

definition walked :: "(string \<Rightarrow> string) \<Rightarrow> string set \<Rightarrow> int \<Rightarrow> (string \<times> other_file) list \<Rightarrow> walk_entry list \<Rightarrow> int \<Rightarrow> art_store \<Rightarrow> bool" where
  "walked sha busy c others pre acc s \<longleftrightarrow> sound sha busy c False s \<and> 0 \<le> acc \<and>
     set (flOther (asFiles s)) \<subseteq> set others \<and> visitedBytes pre (flOther (asFiles s)) \<le> acc"

lemma sound_sizes: "sound sha busy c rd s \<Longrightarrow> wf_map (flOther (asFiles s)) \<and> (\<forall>e \<in> set (flOther (asFiles s)). 0 \<le> ofSize (snd e))"
  by (auto simp: sound_def consistent_def files_ok_def)

lemma walked_remove:
  assumes "walked sha busy c others pre acc s"
  shows "walked sha busy c others pre acc (s\<lparr>asFiles := removeBlobFile d (asFiles s)\<rparr>)"
    "walked sha busy c others pre acc (s\<lparr>asFiles := removeTmp i (asFiles s)\<rparr>)"
    "walked sha busy c others pre acc (s\<lparr>asFiles := removeOther p (asFiles s)\<rparr>)"
proof -
  have "sound sha busy c False s" using assms by (simp add: walked_def)
  then have sizes: "\<forall>e \<in> set (flOther (asFiles s)). 0 \<le> ofSize (snd e)" using sound_sizes by blast
  show "walked sha busy c others pre acc (s\<lparr>asFiles := removeBlobFile d (asFiles s)\<rparr>)"
    "walked sha busy c others pre acc (s\<lparr>asFiles := removeTmp i (asFiles s)\<rparr>)"
    using assms by (auto simp: walked_def intro: sound_remove)
  have "set (flOther (removeOther p (asFiles s))) \<subseteq> set (flOther (asFiles s))"
    "visitedBytes pre (flOther (removeOther p (asFiles s))) \<le> visitedBytes pre (flOther (asFiles s))"
    using visited_delete [OF sizes] by (simp_all add: removeOther_def set_delete_subset)
  with assms show "walked sha busy c others pre acc (s\<lparr>asFiles := removeOther p (asFiles s)\<rparr>)"
    by (auto simp: walked_def intro: sound_remove)
qed

lemma walkFile_triple:
  assumes "\<And>p f. x = OtherEntry p f \<Longrightarrow> 0 \<le> ofSize f"
  shows "triple (walked sha busy c others pre acc) (walkFile W active x acc) (walked sha busy c others (pre @ [x])) (sound sha busy c False)"
proof -
  let ?I = "walked sha busy c others" and ?S = "sound sha busy c False"
  have st: "stepless (?I pre acc)" by (auto simp: stepless_def walked_def sound_def settled_def)
  have S: "?I pre acc s \<Longrightarrow> ?S s" for s acc by (simp add: walked_def)
  have skip: "?I pre acc' s \<Longrightarrow> \<forall>p f. x \<noteq> OtherEntry p f \<Longrightarrow> ?I (pre @ [x]) acc' s" for s acc'
    by (simp add: walked_def visited_skip)
  have stay: "triple (?I pre acc) (ok acc) (?I (pre @ [x])) ?S" if "\<forall>p f. x \<noteq> OtherEntry p f"
    by (rule triple_ok) (rule skip [OF _ that])
  have grow: "?I pre acc s \<Longrightarrow> 0 \<le> n \<Longrightarrow> ?I pre (acc + n) s" for s n by (auto simp: walked_def)
  have drop: "triple (?I pre acc) (discard W rm n acc) (?I (pre @ [x])) ?S"
    if "\<forall>p f. x \<noteq> OtherEntry p f" "rm = removeTmp i \<or> rm = removeBlobFile d" "0 \<le> n" for rm n i d
    by (rule triple_conseq [OF triple_discard [OF st, where rm = rm and gone = "\<lambda>_. True"]])
      (use that walked_remove in \<open>auto intro: S skip grow\<close>)
  have other: "triple (?I pre acc) (discard W (removeOther p) (ofSize f) acc) (?I (pre @ [x])) ?S" if "x = OtherEntry p f" for p f
  proof (rule triple_conseq [OF triple_discard [OF st, where rm = "removeOther p" and gone = "\<lambda>fs. map_of (flOther fs) p = None"]])
    fix acc' s
    assume "?I pre acc s \<and> (acc' = acc \<and> map_of (flOther (asFiles s)) p = None \<or> acc' = acc + ofSize f)"
    moreover have "visitedBytes (pre @ [x]) (flOther (asFiles s)) \<le> visitedBytes pre (flOther (asFiles s)) + ofSize f" if "?I pre acc s"
      using sound_sizes [OF S [OF that]] assms \<open>x = OtherEntry p f\<close> by (simp add: visited_other)
    ultimately show "?I (pre @ [x]) acc' s"
      using assms [OF that] visited_gone [of "flOther (asFiles s)" p pre f] that by (auto simp: walked_def)
  qed (use walked_remove in \<open>auto intro: S simp: removeOther_def map_of_delete\<close>)
  have keep: "triple (?I pre acc) (ok (acc + ofSize f)) (?I (pre @ [x])) ?S" if "x = OtherEntry p f" for p f
  proof (rule triple_ok)
    fix s
    assume "?I pre acc s"
    with sound_sizes [OF S [OF this]] assms [OF that] visited_other [of "flOther (asFiles s)" f pre p] that
    show "?I (pre @ [x]) (acc + ofSize f) s" by (auto simp: walked_def)
  qed
  have "triple (?I pre acc) (case x of
       TmpEntry i b \<Rightarrow>
         if map_of (dbReservations active) i \<noteq> None then ok acc
         else discard W (removeTmp i) (int (length b)) acc
     | BlobEntry d b \<Rightarrow>
         if list_ex (\<lambda>(_, r). arCandidate r = Some d) (dbReservations active) then ok acc
         else andThen (query W (\<lambda>db. map_of (dbBlobs db) d)) (\<lambda>bytes.
           if bytes = Some (int (length b)) then ok acc
           else discard W (removeBlobFile d) (int (length b)) acc)
     | OtherEntry p f \<Rightarrow>
         if \<not> ofRegular f then fail ErrOther
         else if ofInside f then discard W (removeOther p) (ofSize f) acc
         else ok (acc + ofSize f)) (?I (pre @ [x])) ?S"
  proof (cases x)
    case (TmpEntry i b)
    then have "triple (?I pre acc) (discard W (removeTmp i) (int (length b)) acc) (?I (pre @ [x])) ?S"
      by (intro drop [where i = i and d = "[]"]) simp_all
    moreover have "triple (?I pre acc) (ok acc) (?I (pre @ [x])) ?S" by (rule stay) (simp add: TmpEntry)
    ultimately show ?thesis by (simp add: TmpEntry)
  next
    case (BlobEntry d b)
    have stay': "triple (?I pre acc) (ok acc) (?I (pre @ [x])) ?S" by (rule stay) (simp add: BlobEntry)
    have drop': "triple (?I pre acc) (discard W (removeBlobFile d) (int (length b)) acc) (?I (pre @ [x])) ?S"
      by (rule drop [where i = "[]" and d = d]) (simp_all add: BlobEntry)
    have "triple (?I pre acc) (query W (\<lambda>db. map_of (dbBlobs db) d)) (\<lambda>_. ?I pre acc) ?S"
      by (rule triple_conseq [OF triple_query [OF st, of ?S]]) (auto intro: S)
    moreover have "triple (?I pre acc) (if bytes = Some (int (length b)) then ok acc
        else discard W (removeBlobFile d) (int (length b)) acc) (?I (pre @ [x])) ?S" for bytes
      by (rule triple_if [OF stay' drop'])
    ultimately have "triple (?I pre acc) (andThen (query W (\<lambda>db. map_of (dbBlobs db) d)) (\<lambda>bytes.
           if bytes = Some (int (length b)) then ok acc
           else discard W (removeBlobFile d) (int (length b)) acc)) (?I (pre @ [x])) ?S" by (rule triple_andThen)
    with stay' show ?thesis by (simp add: BlobEntry)
  next
    case (OtherEntry p f)
    moreover have "triple (?I pre acc) (fail ErrOther) (?I (pre @ [x])) ?S" by (rule triple_fail) (rule S)
    ultimately show ?thesis using other [of p f] keep [of p f] by simp
  qed
  then show ?thesis unfolding walkFile_def
    by (rule triple_andThen [OF triple_conseq [OF triple_read [OF st, of ?S]], rotated -1]) (auto intro: S)
qed

lemma walkAll_triple:
  "triple (sound sha busy c False) (walkAll W active)
    (\<lambda>n s. sound sha busy c False s \<and> 0 \<le> n \<and> otherBytes (asFiles s) \<le> n) (sound sha busy c False)"
  unfolding triple_def
proof (intro allI impI)
  fix s0 :: art_store
  let ?S = "sound sha busy c False" and ?others = "flOther (asFiles s0)" and ?es = "walkEntries (asFiles s0)"
  assume s0: "?S s0"
  have sizes: "0 \<le> ofSize f" if "OtherEntry p f \<in> set ?es" for p f
    using sound_sizes [OF s0] that by (auto simp: walkEntries_def)
  have "triple (walked sha busy c ?others [] 0) (foldEach (walkFile W active) ?es 0) (walked sha busy c ?others ?es) ?S"
    by (rule triple_foldEach) (use sizes in \<open>auto intro!: walkFile_triple\<close>)
  moreover have "walked sha busy c ?others [] 0 s0" using s0 by (simp add: walked_def)
  moreover have "otherBytes (asFiles s) \<le> n" if "walked sha busy c ?others ?es n s" for n s
  proof -
    have "OtherEntry p f \<in> set ?es" if "(p, f) \<in> set (flOther (asFiles s))" for p f
      using that \<open>walked sha busy c ?others ?es n s\<close> by (auto simp: walked_def walkEntries_def)
    then have "visitedBytes ?es (flOther (asFiles s)) = otherBytes (asFiles s)"
      unfolding visitedBytes_def otherBytes_def by (intro arg_cong [of _ _ sum_list] map_cong) auto
    with that show ?thesis by (simp add: walked_def)
  qed
  ultimately show "case snd (walkAll W active s0) of
      Done n \<Rightarrow> ?S (fst (walkAll W active s0)) \<and> 0 \<le> n \<and> otherBytes (asFiles (fst (walkAll W active s0))) \<le> n
    | _ \<Rightarrow> ?S (fst (walkAll W active s0))"
    unfolding walkAll_def triple_def by (auto simp: walked_def split: result.splits)
qed

lemma deleteBlob_blobs [simp]: "dbBlobs (deleteBlob d db) = AList.delete d (dbBlobs db)"
  by (simp add: deleteBlob_def)

text \<open>After the reconciliation every body row that was visited has its file.\<close>

definition reconciled :: "(string \<Rightarrow> string) \<Rightarrow> string set \<Rightarrow> int \<Rightarrow> bool \<Rightarrow> (art_files \<Rightarrow> bool) \<Rightarrow> string set \<Rightarrow> string list \<Rightarrow> art_store \<Rightarrow> bool" where
  "reconciled sha busy c rd E ks ds s \<longleftrightarrow> sound sha busy c rd s \<and> E (asFiles s) \<and> fst ` set (dbBlobs (asTx s)) \<subseteq> ks \<and>
     (\<forall>d \<in> set ds. map_of (dbBlobs (asTx s)) d \<noteq> None \<longrightarrow> map_of (flBlobs (asFiles s)) d \<noteq> None)"

lemma stepless_reconciled: "stepless (reconciled sha busy c rd E ks ds)"
  by (auto simp: stepless_def reconciled_def sound_def settled_def)

lemma reconcileBlob_triple:
  "triple (reconciled sha busy c rd E ks ds) (reconcileBlob W d) (\<lambda>_. reconciled sha busy c rd E ks (ds @ [d])) (sound sha busy c rd)"
  unfolding reconcileBlob_def
proof (rule triple_andThen)
  let ?I = "reconciled sha busy c rd E ks" and ?S = "sound sha busy c rd"
  have S: "?I ds s \<Longrightarrow> ?S s" for s by (simp add: reconciled_def)
  let ?Q = "\<lambda>missing s. ?I ds s \<and> missing = (map_of (flBlobs (asFiles s)) d = None)"
  show "triple (?I ds) (attempt W (\<lambda>_ s. s) (\<lambda>s. map_of (flBlobs (asFiles s)) d = None)) ?Q ?S"
    by (rule triple_read [OF stepless_reconciled]) (rule S)
  fix missing
  have st: "stepless (?Q missing)" using stepless_reconciled by (intro stepless_conj) simp_all
  have "triple (?Q missing) (exec W (deleteBlob d)) (\<lambda>_. ?I (ds @ [d])) ?S" if missing
    by (rule triple_exec [OF st])
      (use that in \<open>auto simp: reconciled_def map_of_delete intro: sound_delete split: if_splits\<close>)
  moreover have "triple (?Q missing) (ok ()) (\<lambda>_. ?I (ds @ [d])) ?S" if "\<not> missing"
    by (rule triple_ok) (use that in \<open>auto simp: reconciled_def\<close>)
  ultimately show "triple (?Q missing) (if missing then exec W (deleteBlob d) else ok ()) (\<lambda>_. ?I (ds @ [d])) ?S" by (rule triple_if)
qed

lemma reconcile_triple:
  "triple (reconciled sha busy c rd E ks seen) (reconcile W ds) (\<lambda>_. reconciled sha busy c rd E ks (seen @ ds)) (sound sha busy c rd)"
proof (induction W ds arbitrary: seen rule: reconcile.induct)
  case (1 W ds)
  let ?I = "reconciled sha busy c rd E ks" and ?S = "sound sha busy c rd"
  let ?b = "take 512 ds"
  have S: "?I xs s \<Longrightarrow> ?S s" for s xs by (simp add: reconciled_def)
  have "triple (?I seen) (query W (\<lambda>_. ?b)) (\<lambda>x s. ?I seen s \<and> x = ?b) ?S"
    by (rule triple_query [OF stepless_reconciled]) (rule S)
  moreover have "triple (\<lambda>s. ?I seen s \<and> batch = ?b) (forEach (reconcileBlob W) batch) (\<lambda>_. ?I (seen @ ?b)) ?S" for batch
  proof (cases "batch = ?b")
    case True
    have "triple (?I (seen @ [])) (forEach (reconcileBlob W) ?b) (\<lambda>_. ?I (seen @ ?b)) ?S"
      by (rule triple_forEach_prefix [where I = "\<lambda>pre. ?I (seen @ pre)"]) (simp add: reconcileBlob_triple flip: append_assoc)
    with True show ?thesis by simp
  qed (simp add: triple_def)
  moreover have "triple (?I (seen @ ?b)) (if length ?b < 512 then ok () else reconcile W (drop 512 ds)) (\<lambda>_. ?I (seen @ ds)) ?S"
  proof (rule triple_if)
    assume "length ?b < 512"
    then have "?b = ds" by simp
    then show "triple (?I (seen @ ?b)) (ok ()) (\<lambda>_. ?I (seen @ ds)) ?S" by (auto intro: triple_ok)
  next
    assume "\<not> length ?b < 512"
    from 1 [OF this, of "seen @ ?b"] show "triple (?I (seen @ ?b)) (reconcile W (drop 512 ds)) (\<lambda>_. ?I (seen @ ds)) ?S" by simp
  qed
  ultimately have "triple (?I seen) (andThen (query W (\<lambda>_. ?b)) (\<lambda>batch.
    andThen (forEach (reconcileBlob W) batch) (\<lambda>_. if length ?b < 512 then ok () else reconcile W (drop 512 ds)))) (\<lambda>_. ?I (seen @ ds)) ?S"
    by (intro triple_andThen)
  then show ?case by (subst reconcile.simps)
qed

lemma triple_state: "(\<And>s0. P s0 \<Longrightarrow> triple (\<lambda>s. s = s0) (f (g s0)) Q R) \<Longrightarrow> triple P (\<lambda>s. f (g s) s) Q R"
  by (simp add: triple_def)

lemma reconcileAll_triple:
  "triple (\<lambda>s. sound sha busy c rd s \<and> E (asFiles s)) (reconcileAll W)
    (\<lambda>_ s. sound sha busy c rd s \<and> E (asFiles s) \<and>
      (\<forall>d. map_of (dbBlobs (asTx s)) d \<noteq> None \<longrightarrow> map_of (flBlobs (asFiles s)) d \<noteq> None)) (sound sha busy c rd)"
  unfolding reconcileAll_def [abs_def]
proof (rule triple_state [where f = "reconcile W" and g = "\<lambda>s. map fst (dbBlobs (asTx s))"])
  fix s0 :: art_store
  let ?ks = "map fst (dbBlobs (asTx s0))"
  assume s0: "sound sha busy c rd s0 \<and> E (asFiles s0)"
  show "triple (\<lambda>s. s = s0) (reconcile W ?ks) (\<lambda>_ s. sound sha busy c rd s \<and> E (asFiles s) \<and>
      (\<forall>d. map_of (dbBlobs (asTx s)) d \<noteq> None \<longrightarrow> map_of (flBlobs (asFiles s)) d \<noteq> None)) (sound sha busy c rd)"
  proof (rule triple_conseq [OF reconcile_triple [where seen = "[]" and ks = "set ?ks" and E = E]])
    fix u :: unit and s :: art_store
    assume all: "reconciled sha busy c rd E (set ?ks) ([] @ ?ks) s"
    have "map_of (flBlobs (asFiles s)) d \<noteq> None" if "map_of (dbBlobs (asTx s)) d \<noteq> None" for d
    proof -
      from that have "d \<in> fst ` set (dbBlobs (asTx s))" by (simp only: map_of_eq_None_iff not_not)
      with all that show ?thesis unfolding reconciled_def by (simp only: append_Nil) blast
    qed
    with all show "sound sha busy c rd s \<and> E (asFiles s) \<and>
      (\<forall>d. map_of (dbBlobs (asTx s)) d \<noteq> None \<longrightarrow> map_of (flBlobs (asFiles s)) d \<noteq> None)"
      unfolding reconciled_def by blast
  qed (use s0 in \<open>auto simp: reconciled_def\<close>)
qed

section \<open>Whole operations\<close>

text \<open>Recovery ends with a complete account: no file is unknown, and every body row has its file.\<close>

lemma triple_weaken: "triple P m Q R \<Longrightarrow> (\<And>s. R s \<Longrightarrow> R' s) \<Longrightarrow> triple P m Q R'"
  by (rule triple_conseq)

lemma keeps_lift: "keeps (sound sha busy c rd) m \<Longrightarrow> triple (sound sha busy c rd) m (\<lambda>_. sound sha busy c rd) (settled sha busy c rd)"
  by (erule triple_conseq) (auto intro: sound_settled)

lemma commit_full:
  "triple (\<lambda>s. sound sha busy c False s \<and> otherBytes (asFiles s) \<le> dbUntracked (asTx s) \<and> F (asTx s) (asFiles s))
    (andThen (commitTx W) (\<lambda>_. setReady True)) (\<lambda>_ s. settled sha busy c True s \<and> F (asDb s) (asFiles s)) (settled sha busy c False)"
proof (rule triple_andThen)
  let ?Q = "\<lambda>s. sound sha busy c False s \<and> otherBytes (asFiles s) \<le> dbUntracked (asDb s) \<and> F (asDb s) (asFiles s)"
  show "triple (\<lambda>s. sound sha busy c False s \<and> otherBytes (asFiles s) \<le> dbUntracked (asTx s) \<and> F (asTx s) (asFiles s))
      (commitTx W) (\<lambda>_. ?Q) (settled sha busy c False)"
    by (rule triple_commitTx) (auto simp: stepless_def sound_def settled_def)
  show "triple ?Q (setReady True) (\<lambda>_ s. settled sha busy c True s \<and> F (asDb s) (asFiles s)) (settled sha busy c False)"
    by (rule triple_setReady) (auto simp: sound_def settled_def consistent_def)
qed

lemma recoverStore_triple:
  "triple (settled sha busy c rd) (recoverStore W now)
    (\<lambda>_ s. settled sha busy c True s \<and>
      (\<forall>d. map_of (dbBlobs (asDb s)) d \<noteq> None \<longrightarrow> map_of (flBlobs (asFiles s)) d \<noteq> None)) (settled sha busy c False)"
proof -
  let ?S = "sound sha busy c False" and ?T = "settled sha busy c False"
  define F where "F = (\<lambda>(db :: art_db) (fs :: art_files). \<forall>d. map_of (dbBlobs db) d \<noteq> None \<longrightarrow> map_of (flBlobs fs) d \<noteq> None)"
  have ready: "triple (settled sha busy c rd) (setReady False) (\<lambda>_. ?T) ?T"
    by (rule triple_setReady) (auto simp: settled_def consistent_def)
  have expire: "keeps ?S (exec W (\<lambda>db. deleteVariants (expiredVariants now db) db))"
    by (rule keeps_exec) (auto intro: sound_delete)
  have walk: "triple ?S (walkAll W active) (\<lambda>n s. ?S s \<and> 0 \<le> n \<and> otherBytes (asFiles s) \<le> n) ?T" for active
    by (rule triple_weaken [OF walkAll_triple]) (rule sound_settled)
  have rest: "triple (\<lambda>s. ?S s \<and> 0 \<le> n \<and> otherBytes (asFiles s) \<le> n) (andThen (reconcileAll W) (\<lambda>_.
      andThen (exec W (\<lambda>db. db\<lparr>dbUntracked := n\<rparr>)) (\<lambda>_. andThen (commitTx W) (\<lambda>_. setReady True))))
      (\<lambda>_ s. settled sha busy c True s \<and> F (asDb s) (asFiles s)) ?T" for n
  proof (rule triple_andThen)
    let ?Q = "\<lambda>s. ?S s \<and> (0 \<le> n \<and> otherBytes (asFiles s) \<le> n) \<and> F (asTx s) (asFiles s)"
    show "triple (\<lambda>s. ?S s \<and> 0 \<le> n \<and> otherBytes (asFiles s) \<le> n) (reconcileAll W) (\<lambda>_. ?Q) ?T"
      by (rule triple_conseq [OF reconcileAll_triple [where E = "\<lambda>fs. 0 \<le> n \<and> otherBytes fs \<le> n"]])
        (auto simp: F_def intro: sound_settled)
    have "triple ?Q (exec W (\<lambda>db. db\<lparr>dbUntracked := n\<rparr>))
        (\<lambda>_ s. ?S s \<and> otherBytes (asFiles s) \<le> dbUntracked (asTx s) \<and> F (asTx s) (asFiles s)) ?T"
    proof (rule triple_exec)
      fix s :: art_store
      assume "?Q s"
      moreover have "covered busy (db\<lparr>dbUntracked := n\<rparr>) fs = covered busy db fs" for db fs
        by (simp add: covered_def answers_for_def)
      ultimately show "?S (s\<lparr>asTx := (asTx s)\<lparr>dbUntracked := n\<rparr>\<rparr>) \<and>
          otherBytes (asFiles (s\<lparr>asTx := (asTx s)\<lparr>dbUntracked := n\<rparr>\<rparr>)) \<le> dbUntracked (asTx (s\<lparr>asTx := (asTx s)\<lparr>dbUntracked := n\<rparr>\<rparr>)) \<and>
          F (asTx (s\<lparr>asTx := (asTx s)\<lparr>dbUntracked := n\<rparr>\<rparr>)) (asFiles (s\<lparr>asTx := (asTx s)\<lparr>dbUntracked := n\<rparr>\<rparr>))"
        by (auto simp: sound_def settled_def consistent_def rows_ok_def managedBytes_def payloadBytes_def reservedBytes_def F_def)
    qed (auto simp: stepless_def sound_def settled_def)
    then show "triple ?Q (andThen (exec W (\<lambda>db. db\<lparr>dbUntracked := n\<rparr>)) (\<lambda>_. andThen (commitTx W) (\<lambda>_. setReady True)))
        (\<lambda>_ s. settled sha busy c True s \<and> F (asDb s) (asFiles s)) ?T"
      by (rule triple_andThen) (rule commit_full)
  qed
  show ?thesis unfolding recoverStore_def
    by (rule triple_andThen [OF ready], rule triple_andThen [OF triple_locked], rule triple_andThen [OF keeps_lift [OF keeps_cleanExpired]],
        rule triple_andThen [OF keeps_lift [OF expire]], rule triple_andThen [OF keeps_lift [OF keeps_removeUnreferenced]],
        rule triple_andThen [OF keeps_lift [OF keeps_query [OF stepless_sound(1)]]], rule triple_andThen [OF walk])
      (use rest in \<open>simp add: F_def\<close>)
qed

lemma triple_eq:
  assumes "triple P m' Q R" "\<And>s. P s \<Longrightarrow> m s = m' s"
  shows "triple P m Q R"
  unfolding triple_def
proof (intro allI impI)
  fix s
  assume "P s"
  with assms(1) have "case snd (m' s) of Done x \<Rightarrow> Q x (fst (m' s)) | _ \<Rightarrow> R (fst (m' s))" by (simp add: triple_def)
  then show "case snd (m s) of Done x \<Rightarrow> Q x (fst (m s)) | _ \<Rightarrow> R (fst (m s))" unfolding assms(2) [OF \<open>P s\<close>] .
qed

lemma ensure_triple:
  "triple (settled sha busy c rd) (ensure W now) (\<lambda>_. settled sha busy c True) (settled sha busy c False)"
proof (cases rd)
  case True
  then have "triple (settled sha busy c rd) (ok ()) (\<lambda>_. settled sha busy c True) (settled sha busy c False)" by (simp add: triple_ok)
  then show ?thesis by (rule triple_eq) (use True in \<open>simp add: ensure_def settled_def\<close>)
next
  case False
  have "triple (settled sha busy c rd) (recoverStore W now) (\<lambda>_. settled sha busy c True) (settled sha busy c False)"
    by (rule triple_conseq [OF recoverStore_triple]) auto
  then show ?thesis by (rule triple_eq) (use False in \<open>simp add: ensure_def settled_def\<close>)
qed

text \<open>After a failure the store is consistent, recovered or not.\<close>

definition intact :: "(string \<Rightarrow> string) \<Rightarrow> string set \<Rightarrow> int \<Rightarrow> art_store \<Rightarrow> bool" where
  "intact sha busy c s \<longleftrightarrow> settled sha busy c (asReady s) s"

lemma settled_intact: "settled sha busy c rd s \<Longrightarrow> intact sha busy c s"
  by (auto simp: intact_def settled_def)

lemma sound_intact: "sound sha busy c rd s \<Longrightarrow> intact sha busy c s"
  using settled_intact sound_settled by blast

lemma ensured:
  assumes "triple (settled sha busy c True) m Q (intact sha busy' c)" "\<And>s. intact sha busy c s \<Longrightarrow> intact sha busy' c s"
  shows "triple (settled sha busy c rd) (andThen (ensure W now) (\<lambda>_. m)) Q (intact sha busy' c)"
  by (rule triple_andThen [OF _ assms(1)], rule triple_weaken [OF ensure_triple]) (rule assms(2), erule settled_intact)

lemma triple_started:
  assumes "triple (sound sha busy c rd) m Q (intact sha busy' c)" "\<And>s. intact sha busy c s \<Longrightarrow> intact sha busy' c s"
  shows "triple (settled sha busy c rd) (andThen (lock W) (\<lambda>_. m)) Q (intact sha busy' c)"
  by (rule triple_andThen [OF _ assms(1)], rule triple_weaken [OF triple_locked]) (rule assms(2), erule settled_intact)

lemma keeps_intact: "keeps (sound sha busy c rd) m \<Longrightarrow> triple (sound sha busy c rd) m (\<lambda>_. sound sha busy c rd) (intact sha busy c)"
  by (erule triple_weaken) (rule sound_intact)

lemma started_keeps:
  "keeps (sound sha busy c rd) m \<Longrightarrow>
    triple (settled sha busy c rd) (andThen (lock W) (\<lambda>_. m)) (\<lambda>_. settled sha busy c rd) (intact sha busy c)"
  by (rule triple_started) (auto elim!: triple_conseq intro: sound_settled sound_intact)

lemma ensured_keeps:
  assumes "triple (settled sha busy c True) m (\<lambda>_. settled sha busy c True) (intact sha busy c)"
  shows "triple (settled sha busy c rd) (andThen (ensure W now) (\<lambda>_. m)) (\<lambda>_. intact sha busy c) (intact sha busy c)"
  by (rule ensured) (auto intro: triple_conseq [OF assms] settled_intact)

lemma keeps_readBlob: "stepless P \<Longrightarrow> keeps P (readBlob W d)"
  by (rule triple_conseq [OF triple_readBlob [of P P]]) auto

lemma readVariant_triple:
  "triple (settled sha busy c rd) (readVariant W sha now clock key) (\<lambda>_. settled sha busy c rd) (intact sha busy c)"
proof -
  have touch: "keeps (sound sha busy c rd) (exec W (touchVariant key now))" by (rule keeps_exec) (auto intro: sound_delete)
  show ?thesis unfolding readVariant_def
    by (rule started_keeps, intro keeps_andThen keeps_query stepless_sound)
      (auto intro!: keeps_rules keeps_readBlob touch split: option.split)
qed

lemma GetContext_triple:
  "triple (settled sha busy c rd) (GetContext W sha now clock key) (\<lambda>_. intact sha busy c) (intact sha busy c)"
  unfolding GetContext_def
  by (rule triple_if [OF triple_fail [OF settled_intact]]) (auto intro: ensured_keeps readVariant_triple)

text \<open>A reservation is admitted only if it fits below the limit; its transfer is then under way.\<close>

lemma intact_busy:
  assumes "intact sha busy c s" "\<And>i. i \<in> busy' \<Longrightarrow> i \<in> busy"
  shows "intact sha busy' c s"
  using assms consistent_busy [of sha busy "asDb s" "asFiles s" "asReady s" busy'] by (auto simp: intact_def settled_def)

lemma admit_triple:
  assumes "c = aoMaxBytes opts"
  shows "triple (sound sha busy c rd) (admit W opts now key p) (\<lambda>h. intact sha (insert (ahID h) busy) c) (intact sha busy c)"
proof -
  let ?S = "sound sha busy c rd" and ?R = "intact sha busy c"
  let ?fits = "\<lambda>s. ?S s \<and> totalBytes (asTx s) + reservationBytes \<le> aoMaxBytes opts"
  have st: "stepless ?fits" by (intro stepless_conj stepless_sound) simp
  have room: "triple ?S (catch (makeRoom W opts now p reservationBytes n)
      (\<lambda>e. if e = ErrCapacity then andThen (commitTx W) (\<lambda>_. fail ErrCapacity) else fail e)) (\<lambda>_. ?fits) ?R" for n
  proof (rule triple_catch [OF makeRoom_fits])
    fix e
    have "triple ?S (andThen (commitTx W) (\<lambda>_. fail ErrCapacity)) (\<lambda>_. ?fits) ?R"
      by (rule triple_andThen [OF keeps_intact [OF keeps_commit]]) (rule triple_fail, rule sound_intact)
    then show "triple ?S (if e = ErrCapacity then andThen (commitTx W) (\<lambda>_. fail ErrCapacity) else fail e) (\<lambda>_. ?fits) ?R"
      by (auto intro: triple_fail sound_intact)
  qed (rule sound_intact)
  have add: "triple ?fits (andThen (addReservation W i p now) (\<lambda>_. andThen (commitTx W) (\<lambda>_. ok \<lparr>ahID = i, ahKey = key, ahPriority = p, ahClosed = False\<rparr>)))
      (\<lambda>h. intact sha (insert (ahID h) busy) c) ?R" for i
  proof (rule triple_andThen)
    let ?new = "\<lambda>s. ?S s \<and> (\<forall>r. map_of (dbReservations (asTx s)) i = Some r \<longrightarrow> arCandidate r = None)"
    show "triple ?fits (addReservation W i p now) (\<lambda>_. ?new) ?R"
      unfolding addReservation_def
    proof (rule triple_andThen [OF triple_query [OF st]])
      fix taken
      let ?Q = "\<lambda>s. ?fits s \<and> taken = (map_of (dbReservations (asTx s)) i \<noteq> None)"
      have stq: "stepless ?Q" using st by (intro stepless_conj) simp_all
      have "triple ?Q (exec W (insertReservation i p now)) (\<lambda>_. ?new) ?R" if "\<not> taken"
      proof (rule triple_exec [OF stq])
        fix s
        assume Q: "?Q s"
        then have rows: "rows_ok sha (asTx s)" "map_of (dbReservations (asTx s)) i = None" using that sound_rows by auto
        moreover have "0 \<le> dbUntracked (asTx s)" using rows(1) by (simp add: rows_ok_def)
        ultimately have "managedBytes (insertReservation i p now (asTx s)) \<le> c"
          using Q assms by (simp add: managed_insertReservation totalBytes_managed)
        with Q rows(2) have "?S (s\<lparr>asTx := insertReservation i p now (asTx s)\<rparr>)"
          by (auto simp: sound_def settled_def consistent_insertReservation)
        moreover have "arCandidate r = None" if "map_of (dbReservations (insertReservation i p now (asTx s))) i = Some r" for r
          using that by (auto simp: insertReservation_def map_of_update)
        ultimately show "?new (s\<lparr>asTx := insertReservation i p now (asTx s)\<rparr>)" by simp
      qed (auto intro: sound_intact)
      then show "triple ?Q (if taken then fail ErrOther else exec W (insertReservation i p now)) (\<lambda>_. ?new) ?R"
        by (auto intro: triple_fail sound_intact)
    qed (auto intro: sound_intact)
    show "triple ?new (andThen (commitTx W) (\<lambda>_. ok \<lparr>ahID = i, ahKey = key, ahPriority = p, ahClosed = False\<rparr>)) (\<lambda>h. intact sha (insert (ahID h) busy) c) ?R"
    proof (rule triple_andThen)
      show "triple ?new (commitTx W) (\<lambda>_. intact sha (insert i busy) c) ?R"
        by (rule triple_commitTx)
          (auto simp: stepless_def sound_def settled_def intact_def elim!: consistent_busy intro: intact_busy [unfolded intact_def settled_def])
    qed (auto intro: triple_ok)
  qed
  have "triple ?fits (\<lambda>s. (s, Done (awRandom W (asStep s)))) (\<lambda>_. ?fits) ?R" by (simp add: triple_def)
  then show ?thesis unfolding admit_def
    by (intro triple_andThen [OF room], rule triple_andThen) (auto intro!: add triple_fail sound_intact split: option.split)
qed

lemma Reserve_triple:
  assumes "c = aoMaxBytes opts"
  shows "triple (settled sha busy c rd) (Reserve W opts now0 now key p) (\<lambda>h. intact sha (insert (ahID h) busy) c) (intact sha busy c)"
proof -
  let ?S = "sound sha busy c True" and ?R = "intact sha busy c"
  have "triple ?S (if tsReservations st \<ge> aoMaxReservations opts then fail ErrCapacity else admit W opts now key p)
      (\<lambda>h. intact sha (insert (ahID h) busy) c) ?R" for st
    by (auto intro: triple_fail sound_intact admit_triple [OF assms])
  then have "triple ?S (andThen (cleanExpired W now) (\<lambda>_. andThen (pruneExpiredBatch W now) (\<lambda>pending.
      andThen (setPending pending) (\<lambda>_. andThen (storeStats W opts now) (\<lambda>st.
      if tsReservations st \<ge> aoMaxReservations opts then fail ErrCapacity else admit W opts now key p)))))
      (\<lambda>h. intact sha (insert (ahID h) busy) c) ?R"
    by (intro triple_andThen [OF keeps_intact [OF keeps_cleanExpired]] triple_andThen [OF keeps_intact [OF keeps_pruneExpiredBatch]]
        triple_andThen [OF keeps_intact [OF keeps_setPending(1)]] triple_andThen [OF keeps_intact [OF keeps_storeStats [OF stepless_sound(1)]]])
  then have "triple (settled sha busy c True) (reserveLocked W opts now key p) (\<lambda>h. intact sha (insert (ahID h) busy) c) ?R"
    unfolding reserveLocked_def by (rule triple_started)
  then show ?thesis unfolding Reserve_def
    by (intro triple_if [OF triple_fail [OF settled_intact]]) (auto intro: ensured)
qed

lemma cancelLocked_triple:
  "triple (settled sha busy c rd) (cancelLocked W i) (\<lambda>_. settled sha busy c rd) (intact sha busy c)"
  unfolding cancelLocked_def by (rule started_keeps) (intro keeps_rules)

lemma stage_triple:
  assumes "i \<in> busy"
  shows "triple (settled sha busy c rd) (stage W now i d) (\<lambda>_. settled sha busy c rd) (intact sha busy c)"
proof -
  have "keeps (sound sha busy c rd) (exec W (setCandidate i d))"
    by (rule keeps_exec) (auto intro!: sound_exec consistent_setCandidate [OF _ assms] managed_steps(5) intro: sound_tx sound_rows)
  then show ?thesis unfolding stage_def by (intro started_keeps keeps_rules)
qed

lemma sweep_triple:
  "triple (settled sha busy c rd) (sweep W opts now0 now) (\<lambda>_. intact sha busy c) (intact sha busy c)"
proof -
  have room: "keeps (sound sha busy c True) (sweepRoom W opts now st)" for st
    unfolding sweepRoom_def by (intro keeps_rules keeps_makeRoom)
  have "triple (settled sha busy c True) (sweepLocked W opts now) (\<lambda>_. settled sha busy c True) (intact sha busy c)"
    unfolding sweepLocked_def
    by (intro started_keeps keeps_rules keeps_cleanExpired keeps_pruneExpiredBatch keeps_removeUnreferenced room keeps_setPending)
  then have "triple (settled sha busy c rd) (andThen (ensure W now0) (\<lambda>_. sweepLocked W opts now)) (\<lambda>_. intact sha busy c) (intact sha busy c)"
    by (rule ensured_keeps)
  then show ?thesis unfolding sweep_def by (rule triple_catch) (auto intro: triple_ok)
qed

lemma EvictLowPriority_triple:
  "triple (settled sha busy c rd) (EvictLowPriority W opts now0 now) (\<lambda>_. intact sha busy c) (intact sha busy c)"
  unfolding EvictLowPriority_def evictLocked_def by (rule ensured_keeps, rule started_keeps) (intro keeps_rules)

lemma recover_intact: "triple (settled sha busy c rd) (recoverStore W now) (\<lambda>_. intact sha busy c) (intact sha busy c)"
  by (rule triple_conseq [OF recoverStore_triple]) (auto intro: settled_intact)

end
