(* ===== verification/Artwork_Publish.thy ===== *)
theory Artwork_Publish
  imports Artwork_Safety
begin

text \<open>
  The publishing transaction of a commit: the temporary file becomes the body file before the rows are committed, and the
  reservation answers for it in between.
\<close>

section \<open>Writing the temporary file\<close>

lemma sound_busy: "sound sha busy c rd s \<Longrightarrow> busy' \<subseteq> busy \<Longrightarrow> sound sha busy' c rd s"
  using consistent_busy [of sha busy _ "asFiles s" rd busy'] by (auto simp: sound_def settled_def)

definition announced :: "(string \<Rightarrow> string) \<Rightarrow> string set \<Rightarrow> int \<Rightarrow> bool \<Rightarrow> string \<Rightarrow> string \<Rightarrow> art_store \<Rightarrow> bool" where
  "announced sha busy c rd i d s \<longleftrightarrow> sound sha busy c rd s \<and> asTx s = asDb s \<and>
     (\<exists>r. map_of (dbReservations (asTx s)) i = Some r \<and> arCandidate r = Some d)"

definition written :: "(string \<Rightarrow> string) \<Rightarrow> string set \<Rightarrow> int \<Rightarrow> bool \<Rightarrow> string \<Rightarrow> string \<Rightarrow> string \<Rightarrow> art_store \<Rightarrow> bool" where
  "written sha busy c rd i d body s \<longleftrightarrow> announced sha busy c rd i d s \<and> map_of (flTmp (asFiles s)) i = Some body"

definition placed :: "(string \<Rightarrow> string) \<Rightarrow> string set \<Rightarrow> int \<Rightarrow> bool \<Rightarrow> string \<Rightarrow> string \<Rightarrow> string \<Rightarrow> art_store \<Rightarrow> bool" where
  "placed sha busy c rd i d body s \<longleftrightarrow> sound sha busy c rd s \<and>
     (\<exists>r. map_of (dbReservations (asTx s)) i = Some r \<and> arCandidate r = Some d) \<and>
     (\<exists>b. map_of (flBlobs (asFiles s)) d = Some b \<and> sha b = sha body)"

lemma stepless_publish [simp]:
  "stepless (announced sha busy c rd i d)" "stepless (written sha busy c rd i d body)" "stepless (placed sha busy c rd i d body)"
  by (auto simp: stepless_def announced_def written_def placed_def sound_def settled_def)

lemma writeReservedTemp_triple:
  assumes "i \<in> busy" "int (length body) \<le> MaxBodyBytes"
  shows "triple (announced sha busy c rd i d) (writeReservedTemp W i body) (\<lambda>_. written sha busy c rd i d body) (sound sha busy c rd)"
proof -
  have wrote: "sound sha busy c rd (s\<lparr>asStep := n, asFiles := (asFiles s)\<lparr>flTmp := AList.update i b (flTmp (asFiles s))\<rparr>\<rparr>)"
    if "sound sha busy c rd s" "length b \<le> length body" for s b n
    using that consistent_write [OF _ assms(1), of sha _ "asFiles s" rd b] assms(2) by (auto simp: sound_def settled_def)
  have tick: "sound sha busy c rd (s\<lparr>asStep := n\<rparr>)" if "sound sha busy c rd s" for s n
    using that by (simp add: sound_def settled_def)
  show ?thesis unfolding triple_def
  proof (intro allI impI)
    fix s
    assume s: "announced sha busy c rd i d s"
    then have S: "sound sha busy c rd s" by (simp add: announced_def)
    show "case snd (writeReservedTemp W i body s) of Done x \<Rightarrow> written sha busy c rd i d body (fst (writeReservedTemp W i body s))
      | _ \<Rightarrow> sound sha busy c rd (fst (writeReservedTemp W i body s))"
    proof (cases "map_of (flTmp (asFiles s)) i = None")
      case True
      then show ?thesis
        using s S wrote [OF S, of body] wrote [OF S, of "take _ body"] tick [OF S]
        by (auto simp: writeReservedTemp_def attempt_def Let_def written_def announced_def map_of_update split: step_outcome.splits)
    next
      case False
      then show ?thesis using S by (auto simp: writeReservedTemp_def fail_def)
    qed
  qed
qed

section \<open>Placing the body\<close>

lemma written_remove: "written sha busy c rd i d body s \<Longrightarrow> written sha busy c rd i d body (s\<lparr>asFiles := removeBlobFile d' (asFiles s)\<rparr>)"
  using sound_remove(1) by (auto simp: written_def announced_def)

lemma written_rename:
  assumes "written sha busy c rd i d body s" "hex_encode (sha body) = d"
  shows "placed sha (busy - {i}) c rd i d body (s\<lparr>asFiles := renameTmp i d (asFiles s)\<rparr>)"
proof -
  let ?busy = "busy - {i}"
  from assms(1) obtain r where S: "sound sha ?busy c rd s" and tx: "asTx s = asDb s"
    and r: "map_of (dbReservations (asTx s)) i = Some r" "arCandidate r = Some d" and tmp: "map_of (flTmp (asFiles s)) i = Some body"
    using sound_busy [of sha busy c rd s ?busy] by (auto simp: written_def announced_def)
  have "consistent sha ?busy (asTx s) (renameTmp i d (asFiles s)) rd"
    by (rule consistent_rename [OF sound_tx [OF S] _ r tmp assms(2)]) simp
  with S tx have "sound sha ?busy c rd (s\<lparr>asFiles := renameTmp i d (asFiles s)\<rparr>)" by (simp add: sound_def settled_def)
  with r tmp show ?thesis by (auto simp: placed_def renameTmp_def map_of_update)
qed

lemma written_intact: "written sha busy c rd i d body s \<Longrightarrow> intact sha (busy - {i}) c s"
  by (rule intact_busy [of sha busy]) (auto simp: written_def announced_def intro: sound_intact)

lemma placed_intact: "placed sha busy c rd i d body s \<Longrightarrow> intact sha busy c s"
  by (auto simp: placed_def intro: sound_intact)

lemma placeBlob_triple:
  assumes "hex_encode (sha body) = d"
  shows "triple (written sha busy c rd i d body) (placeBlob W sha i d body)
    (\<lambda>_. placed sha (busy - {i}) c rd i d body) (intact sha (busy - {i}) c)"
  unfolding placeBlob_def
proof (rule triple_andThen)
  let ?P = "written sha busy c rd i d body" and ?Q = "placed sha (busy - {i}) c rd i d body" and ?R = "intact sha (busy - {i}) c"
  let ?read = "\<lambda>x s. ?P s \<and> (x \<noteq> None \<longrightarrow> map_of (flBlobs (asFiles s)) d = x)"
  have "triple ?P (andThen (readBlob W d) (\<lambda>b. ok (Some b))) ?read ?P"
    by (rule triple_andThen [OF triple_readBlob [of ?P ?P]]) (auto intro: triple_ok)
  then show "triple ?P (catch (andThen (readBlob W d) (\<lambda>b. ok (Some b))) (\<lambda>_. ok None)) ?read ?R"
    by (rule triple_catch) (auto intro: triple_ok written_intact)
  fix existing
  show "triple (?read existing) (if existing \<noteq> None \<and> sha (the existing) = sha body then ok ()
      else andThen (fileOp W (removeBlobFile d)) (\<lambda>_. fileOp W (renameTmp i d))) (\<lambda>_. ?Q) ?R"
  proof (rule triple_if)
    assume ex: "existing \<noteq> None \<and> sha (the existing) = sha body"
    show "triple (?read existing) (ok ()) (\<lambda>_. ?Q) ?R"
    proof (rule triple_ok)
      fix s
      assume s: "?read existing s"
      then have "sound sha (busy - {i}) c rd s" using sound_busy [of sha busy c rd s] by (auto simp: written_def announced_def)
      with s ex show "?Q s" by (auto simp: placed_def written_def announced_def)
    qed
  next
    have "triple ?P (fileOp W (removeBlobFile d)) (\<lambda>_. ?P) ?R"
      by (rule triple_fileOp) (auto intro: written_remove written_intact)
    moreover have "triple ?P (fileOp W (renameTmp i d)) (\<lambda>_. ?Q) ?R"
      by (rule triple_fileOp) (auto intro: written_rename assms written_intact placed_intact)
    ultimately have "triple ?P (andThen (fileOp W (removeBlobFile d)) (\<lambda>_. fileOp W (renameTmp i d))) (\<lambda>_. ?Q) ?R"
      by (rule triple_andThen)
    then show "triple (?read existing) (andThen (fileOp W (removeBlobFile d)) (\<lambda>_. fileOp W (renameTmp i d))) (\<lambda>_. ?Q) ?R"
      by (rule triple_pre) simp
  qed
qed

section \<open>Publishing the rows\<close>

text \<open>The variant refers to the body, with its file in place.\<close>

definition served :: "(string \<Rightarrow> string) \<Rightarrow> string \<Rightarrow> string \<Rightarrow> gotime \<Rightarrow> string \<Rightarrow> art_db \<Rightarrow> art_files \<Rightarrow> bool" where
  "served sha key ct expires body db fs \<longleftrightarrow>
     (\<exists>v. map_of (dbVariants db) key = Some v \<and> avDigest v = hex_encode (sha body) \<and> avType v = ct \<and> avExpires v = expires) \<and>
     map_of (dbBlobs db) (hex_encode (sha body)) = Some (int (length body)) \<and>
     (\<exists>b. map_of (flBlobs fs) (hex_encode (sha body)) = Some b \<and> sha b = sha body)"

lemma map_of_filter_val: "wf_map m \<Longrightarrow> map_of m k = Some v \<Longrightarrow> P v \<Longrightarrow> map_of (filter (\<lambda>(_, v). P v) m) k = Some v"
  by (induction m) (auto simp: wf_map_def)

lemma served_remove:
  assumes "served sha key ct expires body db fs" "d \<noteq> hex_encode (sha body)" "rows_ok sha db"
  shows "served sha key ct expires body (deleteBlob d db) fs" "served sha key ct expires body db (removeBlobFile d fs)"
proof -
  from assms(1) obtain v where v: "map_of (dbVariants db) key = Some v" "avDigest v = hex_encode (sha body)" "avType v = ct" "avExpires v = expires"
    by (auto simp: served_def)
  have "map_of (dbVariants (deleteBlob d db)) key = Some v"
    unfolding deleteBlob_def using map_of_filter_val [OF _ v(1), of "\<lambda>v. avDigest v \<noteq> d"] assms(2,3) v(2) by (simp add: rows_ok_def)
  with assms(1,2) v show "served sha key ct expires body (deleteBlob d db) fs"
    unfolding served_def by (simp add: map_of_delete)
  show "served sha key ct expires body db (removeBlobFile d fs)" using assms(1,2) by (simp add: served_def)
qed

lemma retirePrevious_keeps:
  "keeps (\<lambda>s. sound sha busy c rd s \<and> served sha key ct expires body (asTx s) (asFiles s)) (retirePrevious W previous (hex_encode (sha body)))"
proof -
  let ?S = "sound sha busy c rd"
  let ?P = "\<lambda>s. ?S s \<and> served sha key ct expires body (asTx s) (asFiles s)"
  have st: "stepless ?P" by (intro stepless_conj) simp_all
  have "keeps ?P (removeBlob W p)" if "p \<noteq> hex_encode (sha body)" for p
  proof -
    let ?gone = "\<lambda>s. ?P s \<and> map_of (flBlobs (asFiles s)) p = None"
    have "triple ?P (fileOp W (removeBlobFile p)) (\<lambda>_. ?gone) ?P"
      by (rule triple_fileOp [OF st]) (use that in \<open>auto intro: sound_remove served_remove sound_rows\<close>)
    moreover have "stepless ?gone" by (rule stepless_conj [OF st]) simp
    then have "triple ?gone (exec W (deleteBlob p)) (\<lambda>_. ?P) ?P"
      by (rule triple_exec) (use that in \<open>auto intro: sound_delete served_remove sound_rows\<close>)
    ultimately show ?thesis unfolding removeBlob_def by (auto intro: triple_andThen triple_fail)
  qed
  then show ?thesis unfolding retirePrevious_def
    by (cases previous) (auto intro!: keeps_ok keeps_andThen keeps_query [OF st])
qed

lemma served_publish:
  assumes "n = int (length body)" "d = hex_encode (sha body)" "map_of (flBlobs fs) d = Some b" "sha b = sha body"
  shows "served sha key ct (now + artworkTTL) body (deleteReservation i (upsertVariant key d ct p now (insertBlob d n db))) fs"
  using assms by (simp add: served_def deleteReservation_def upsertVariant_def insertBlob_def map_of_update)

lemma publishRows_triple:
  assumes "int (length body) \<le> MaxBodyBytes"
  shows "triple (placed sha busy c rd (ahID h) (hex_encode (sha body)) body)
    (publishRows W now h ct (hex_encode (sha body)) (int (length body)) previous)
    (\<lambda>_ s. sound sha busy c rd s \<and> served sha (ahKey h) ct (now + artworkTTL) body (asDb s) (asFiles s)) (intact sha busy c)"
proof -
  let ?d = "hex_encode (sha body)" and ?n = "int (length body)" and ?S = "sound sha busy c rd" and ?R = "intact sha busy c"
  let ?up = "upsertVariant (ahKey h) ?d ct (ahPriority h) now"
  define mid :: "(art_db \<Rightarrow> art_db) \<Rightarrow> art_store \<Rightarrow> bool" where
    "mid f s \<longleftrightarrow> settled sha busy c rd s \<and> (\<exists>db. asTx s = f db \<and> placed sha busy c rd (ahID h) ?d body (s\<lparr>asTx := db\<rparr>))" for f s
  let ?served = "\<lambda>s. ?S s \<and> served sha (ahKey h) ct (now + artworkTTL) body (asTx s) (asFiles s)"
  have st: "stepless (mid f)" for f
    unfolding mid_def by (auto simp: stepless_def placed_def sound_def settled_def)
  have R: "mid f s \<Longrightarrow> ?R s" for f s by (auto simp: mid_def intro: settled_intact)
  have 1: "triple (placed sha busy c rd (ahID h) ?d body) (exec W (insertBlob ?d ?n)) (\<lambda>_. mid (insertBlob ?d ?n)) ?R"
  proof (rule triple_exec)
    show "placed sha busy c rd (ahID h) ?d body s \<Longrightarrow> ?R s" for s by (rule placed_intact)
  qed (auto simp: mid_def placed_def sound_def settled_def)
  have 2: "triple (mid (insertBlob ?d ?n)) (exec W ?up) (\<lambda>_. mid (\<lambda>db. ?up (insertBlob ?d ?n db))) ?R"
    by (rule triple_exec [OF st _ R]) (auto simp: mid_def settled_def)
  have fin: "?served (s\<lparr>asTx := deleteReservation (ahID h) (asTx s)\<rparr>)" if "mid (\<lambda>db. ?up (insertBlob ?d ?n db)) s" for s
  proof -
    from that obtain db r b where tx: "asTx s = ?up (insertBlob ?d ?n db)" and S: "settled sha busy c rd s"
      and db: "consistent sha busy db (asFiles s) rd" "managedBytes db \<le> c" "map_of (dbReservations db) (ahID h) = Some r" "arCandidate r = Some ?d"
      and b: "map_of (flBlobs (asFiles s)) ?d = Some b" "sha b = sha body"
      by (auto simp: mid_def placed_def sound_def)
    have ins: "consistent sha busy (insertBlob ?d ?n db) (asFiles s) rd"
      by (rule consistent_insertBlob [OF db(1)]) (use assms in auto)
    have con: "consistent sha busy (deleteReservation (ahID h) (asTx s)) (asFiles s) rd"
      unfolding tx by (rule consistent_deleteReservation [OF consistent_variants(3) [OF ins]])
        (use db(3,4) in \<open>simp add: upsertVariant_def insertBlob_def map_of_update\<close>)
    have "managedBytes (deleteReservation (ahID h) (asTx s)) \<le> c"
      using managed_publish [OF consistent_ok [OF db(1)] db(3) assms] db(2) unfolding tx by (rule order_trans)
    with con S served_publish [OF refl refl b] show ?thesis by (simp add: sound_def settled_def tx)
  qed
  have 3: "triple (mid (\<lambda>db. ?up (insertBlob ?d ?n db))) (exec W (deleteReservation (ahID h))) (\<lambda>_. ?served) ?R"
    by (rule triple_exec) (erule st fin R | rule st)+
  have 4: "triple ?served (retirePrevious W previous ?d) (\<lambda>_. ?served) ?R"
    by (rule triple_conseq [OF retirePrevious_keeps]) (auto intro: sound_intact)
  have 5: "triple ?served (commitTx W) (\<lambda>_ s. ?S s \<and> served sha (ahKey h) ct (now + artworkTTL) body (asDb s) (asFiles s)) ?R"
  proof (rule triple_commitTx)
    show "stepless ?served" by (rule stepless_conj) simp_all
    show "?served s \<Longrightarrow> ?R s" for s by (rule sound_intact) blast
    show "?S s \<and> served sha (ahKey h) ct (now + artworkTTL) body (asDb s) (asFiles s) \<Longrightarrow> ?R s" for s by (rule sound_intact) blast
  qed (auto simp: sound_def settled_def)
  show ?thesis unfolding publishRows_def
    by (intro triple_andThen [OF 1] triple_andThen [OF 2] triple_andThen [OF 3] triple_andThen [OF 4] 5)
qed

section \<open>The transaction\<close>

lemma publish_triple:
  assumes "ahID h \<in> busy" "int (length body) \<le> MaxBodyBytes"
  shows "triple (settled sha busy c rd) (publish W sha opts now h ct body)
    (\<lambda>_ s. intact sha (busy - {ahID h}) c s \<and> served sha (ahKey h) ct (now + artworkTTL) body (asDb s) (asFiles s))
    (intact sha (busy - {ahID h}) c)"
proof -
  let ?i = "ahID h" and ?d = "hex_encode (sha body)"
  let ?S = "sound sha busy c rd" and ?R = "intact sha (busy - {ahID h}) c"
  let ?A = "announced sha busy c rd ?i ?d" and ?B = "written sha busy c rd ?i ?d body"
  let ?locked = "\<lambda>s. ?S s \<and> asTx s = asDb s"
  let ?served = "\<lambda>s. sound sha (busy - {?i}) c rd s \<and> served sha (ahKey h) ct (now + artworkTTL) body (asDb s) (asFiles s)"
  have R: "?S s \<Longrightarrow> ?R s" "settled sha busy c rd s \<Longrightarrow> ?R s" "?A s \<Longrightarrow> ?R s" for s
    by (auto simp: announced_def intro: intact_busy [of sha busy c] sound_intact settled_intact)
  have lock: "triple (settled sha busy c rd) (lock W) (\<lambda>_. ?locked) ?R"
    by (rule triple_lock) (auto intro: R simp: sound_def settled_def)
  have st: "stepless ?locked" by (rule stepless_conj) simp_all
  have temp: "triple ?A (writeReservedTemp W ?i body) (\<lambda>_. ?B) ?R"
    by (rule triple_weaken [OF writeReservedTemp_triple [OF assms]]) (rule R)
  have prev: "triple ?B (query W q) (\<lambda>_. ?B) ?R" for q :: "art_db \<Rightarrow> string option"
    by (rule triple_conseq [OF triple_query [of ?B ?R]]) (auto intro: written_intact)
  have clear: "triple ?R (fileOp W (removeTmp ?i)) (\<lambda>_. ?R) ?R"
    by (rule keeps_fileOp) (auto simp: intact_def stepless_def settled_def intro: consistent_removeTmp)
  have clean: "triple ?served (fileOp W (removeTmp ?i)) (\<lambda>_. ?served) ?served"
    by (rule keeps_fileOp) (auto intro!: stepless_conj sound_remove simp: served_def)
  have body: "triple ?B (deferred (andThen (query W q) (\<lambda>previous. andThen (placeBlob W sha ?i ?d body)
      (\<lambda>_. publishRows W now h ct ?d (int (length body)) previous))) (fileOp W (removeTmp ?i))) (\<lambda>_. ?served) ?R" for q
    by (rule triple_deferred [where Q = "\<lambda>_. ?served", OF _ clear _ clean])
      (auto intro!: triple_andThen [OF prev] triple_andThen [OF placeBlob_triple [OF refl]] publishRows_triple [OF assms(2)]
        intro: sound_intact)
  have "triple (settled sha busy c rd) (publish W sha opts now h ct body) (\<lambda>_. ?served) ?R"
    unfolding publish_def Let_def
  proof (rule triple_andThen [OF lock], rule triple_andThen [OF triple_query [OF st]], simp add: R, rule triple_if)
    fix live :: bool
    assume live: "\<not> \<not> live"
    let ?q = "\<lambda>db. liveReservation now ?i db \<and> (case map_of (dbReservations db) ?i of None \<Rightarrow> False | Some r \<Rightarrow> arCandidate r = Some ?d)"
    have "triple ?A (probe W) (\<lambda>_. ?A) ?R" by (rule triple_probe) (auto intro: R)
    then have "triple ?A (andThen (probe W) (\<lambda>free. if free < aoMinFreeBytes opts + int (length body) then fail ErrCapacity
        else andThen (writeReservedTemp W ?i body) (\<lambda>_. deferred (andThen (query W (\<lambda>db. map_option avDigest (map_of (dbVariants db) (ahKey h))))
          (\<lambda>previous. andThen (placeBlob W sha ?i ?d body) (\<lambda>_. publishRows W now h ct ?d (int (length body)) previous)))
          (fileOp W (removeTmp ?i))))) (\<lambda>_. ?served) ?R"
      by (rule triple_andThen) (auto intro!: triple_if triple_fail triple_andThen [OF temp] body intro: R)
    then show "triple (\<lambda>s. ?locked s \<and> live = ?q (asTx s)) (andThen (probe W) (\<lambda>free. if free < aoMinFreeBytes opts + int (length body) then fail ErrCapacity
        else andThen (writeReservedTemp W ?i body) (\<lambda>_. deferred (andThen (query W (\<lambda>db. map_option avDigest (map_of (dbVariants db) (ahKey h))))
          (\<lambda>previous. andThen (placeBlob W sha ?i ?d body) (\<lambda>_. publishRows W now h ct ?d (int (length body)) previous)))
          (fileOp W (removeTmp ?i))))) (\<lambda>_. ?served) ?R"
      by (rule triple_pre) (use live in \<open>auto simp: announced_def split: option.splits\<close>)
  qed (auto intro!: triple_fail R(1))
  then show ?thesis by (rule triple_conseq) (auto intro: sound_intact)
qed

end
