(* ===== verification/Artwork_Budget.thy ===== *)
theory Artwork_Budget
  imports Artwork_Publish
begin

text \<open>
  Histories of the artwork store: any sequence of its operations, each in its own world, with the end of the process
  at any step of any of them. The byte budget holds in all of them, for the rows and for the files.
\<close>

section \<open>Histories\<close>

text \<open>
  The two transactions of a commit and its cancellation are separate elements, since other callers' operations may come
  in between. A history also remembers the open handles of the running process.
\<close>

datatype art_op =
    DoReserve gotime gotime string int
  | DoStage gotime art_handle string
  | DoPublish gotime art_handle string string
  | DoCancel art_handle
  | DoGet gotime gotime string
  | DoEvict gotime gotime
  | DoRecover gotime
  | DoRun gotime gotime run_event

definition restart :: "art_store \<Rightarrow> art_store" where
  "restart s = s\<lparr>asReady := False, asPending := False\<rparr>"

text \<open>What is left of an operation: the handles still open if it returns, a restarted process if it died.\<close>

definition afterOp :: "string set \<Rightarrow> art_store \<times> 'a result \<Rightarrow> art_store \<times> string set" where
  "afterOp busy r = (case snd r of Died \<Rightarrow> (restart (fst r), {}) | _ \<Rightarrow> (fst r, busy))"

definition afterReserve :: "string set \<Rightarrow> art_store \<times> art_handle result \<Rightarrow> art_store \<times> string set" where
  "afterReserve busy r = (case snd r of Done h \<Rightarrow> (fst r, insert (ahID h) busy) | _ \<Rightarrow> afterOp busy r)"

fun perform :: "(string \<Rightarrow> string) \<Rightarrow> art_options \<Rightarrow> art_world \<times> art_op \<Rightarrow> art_store \<times> string set \<Rightarrow> art_store \<times> string set" where
  "perform sha opts (W, DoReserve now0 now key p) (s, busy) = afterReserve busy (Reserve W opts now0 now key p s)"
| "perform sha opts (W, DoStage now h d) (s, busy) = (if ahID h \<in> busy then afterOp busy (stage W now (ahID h) d s) else (s, busy))"
| "perform sha opts (W, DoPublish now h ct body) (s, busy) =
    (if ahID h \<in> busy \<and> int (length body) \<le> MaxBodyBytes then afterOp (busy - {ahID h}) (publish W sha opts now h ct body s) else (s, busy))"
| "perform sha opts (W, DoCancel h) (s, busy) = afterOp (busy - {ahID h}) (Cancel W h s)"
| "perform sha opts (W, DoGet now clock key) (s, busy) = afterOp busy (GetContext W sha now clock key s)"
| "perform sha opts (W, DoEvict now0 now) (s, busy) = afterOp busy (EvictLowPriority W opts now0 now s)"
| "perform sha opts (W, DoRecover now) (s, busy) = afterOp busy (recoverStore W now s)"
| "perform sha opts (W, DoRun now0 now ev) (s, busy) = afterOp busy (runStep W opts now0 now ev s)"

definition artHistory :: "(string \<Rightarrow> string) \<Rightarrow> art_options \<Rightarrow> (art_world \<times> art_op) list \<Rightarrow> art_store \<Rightarrow> art_store \<times> string set" where
  "artHistory sha opts ops s = fold (perform sha opts) ops (s, {})"

text \<open>A new namespace: no rows, no files of its own, whatever older files there are below the base directory.\<close>

definition newStore :: "(string \<times> other_file) list \<Rightarrow> art_store" where
  "newStore others =
    (let db = \<lparr>dbUntracked = 0, dbBlobs = [], dbVariants = [], dbReservations = []\<rparr>
     in \<lparr>asDb = db, asTx = db, asFiles = \<lparr>flTmp = [], flBlobs = [], flOther = others\<rparr>,
         asStep = 0, asReady = False, asPending = False\<rparr>)"

definition files_plain :: "(string \<times> other_file) list \<Rightarrow> bool" where
  "files_plain others \<longleftrightarrow> distinct (map fst others) \<and> list_all (\<lambda>(_, f). 0 \<le> ofSize f) others"

section \<open>The invariant of histories\<close>

lemma newStore_intact:
  assumes "files_plain others" "0 \<le> c"
  shows "intact sha {} c (newStore others)"
  using assms
  by (auto simp: intact_def settled_def consistent_def rows_ok_def files_ok_def covered_def newStore_def Let_def
      managedBytes_def payloadBytes_def reservedBytes_def wf_map_def files_plain_def list_all_iff)

lemma restart_intact: "intact sha busy c s \<Longrightarrow> intact sha {} c (restart s)"
proof -
  assume "intact sha busy c s"
  then have "intact sha {} c s" by (rule intact_busy) simp
  then show ?thesis by (auto simp: intact_def settled_def restart_def consistent_def)
qed

lemma afterOp_intact:
  assumes "triple (settled sha busy c (asReady s)) m (\<lambda>_. intact sha busy' c) (intact sha busy' c)" "intact sha busy c s"
    and "afterOp busy' (m s) = (s2, busy2)"
  shows "intact sha busy2 c s2"
proof -
  obtain s1 r where m: "m s = (s1, r)" by fastforce
  from tripleD [OF assms(1) _ m] assms(2) have "intact sha busy' c s1" by (cases r) (auto simp: intact_def)
  with assms(3) show ?thesis by (cases r) (auto simp: afterOp_def m intro: restart_intact)
qed

lemma runStep_intact: "triple (settled sha busy c rd) (runStep W opts now0 now ev) (\<lambda>_. intact sha busy c) (intact sha busy c)"
proof -
  let ?I = "intact sha busy c"
  have any: "triple ?I m (\<lambda>_. ?I) ?I" if "\<And>rd. triple (settled sha busy c rd) m (\<lambda>_. ?I) ?I" for m :: "'a act"
    using that by (auto simp: triple_def intact_def)
  have rec: "triple ?I (catch (andThen (recoverStore W now0) (\<lambda>_. ok True)) (\<lambda>_. ok False)) (\<lambda>_. ?I) ?I"
    by (rule triple_catch [where ?R1.0 = ?I]) (auto intro!: triple_andThen any recover_intact triple_ok)
  have head: "triple ?I (\<lambda>s. if ev = MaintenanceWake \<or> asReady s then ok True s
      else catch (andThen (recoverStore W now0) (\<lambda>_. ok True)) (\<lambda>_. ok False) s) (\<lambda>_. ?I) ?I"
    using rec by (auto simp: triple_def ok_def)
  have swept: "triple ?I (sweep W opts now0 now) (\<lambda>_. ?I) ?I" by (rule any) (rule sweep_triple)
  have tail: "triple ?I (\<lambda>s. ok (if asPending s then Some second else None) s) (\<lambda>_. ?I) ?I" by (simp add: triple_def ok_def)
  have "triple ?I (runStep W opts now0 now ev) (\<lambda>_. ?I) ?I" unfolding runStep_def
    by (rule triple_andThen [OF head], rule triple_if) (auto intro!: triple_ok triple_andThen [OF swept tail])
  then show ?thesis by (rule triple_pre) (rule settled_intact)
qed

lemma Cancel_intact: "triple (settled sha busy c rd) (Cancel W h) (\<lambda>_. intact sha (busy - {ahID h}) c) (intact sha (busy - {ahID h}) c)"
proof -
  have less: "intact sha busy c s \<Longrightarrow> intact sha (busy - {ahID h}) c s" for s by (erule intact_busy) simp
  have "triple (settled sha busy c rd) (catch (cancelLocked W (ahID h)) (\<lambda>_. ok ())) (\<lambda>_. intact sha busy c) (intact sha busy c)"
    by (rule triple_catch [OF triple_conseq [OF cancelLocked_triple]]) (auto intro: triple_ok settled_intact)
  then show ?thesis unfolding Cancel_def
    by (intro triple_if triple_ok) (auto intro: less settled_intact elim!: triple_conseq)
qed

lemma perform_intact:
  assumes "intact sha busy c s" "c = aoMaxBytes opts" and out: "perform sha opts (W, op) (s, busy) = (s2, busy2)"
  shows "intact sha busy2 c s2"
proof (cases op)
  case (DoReserve now0 now key p)
  obtain s1 r where m: "Reserve W opts now0 now key p s = (s1, r)" by fastforce
  have "case r of Done h \<Rightarrow> intact sha (insert (ahID h) busy) c s1 | _ \<Rightarrow> intact sha busy c s1"
    using tripleD [OF Reserve_triple [OF assms(2)] _ m] assms(1) by (simp add: intact_def)
  with DoReserve out m show ?thesis by (cases r) (auto simp: afterReserve_def afterOp_def intro: restart_intact)
next
  case (DoStage now h d)
  have "triple (settled sha busy c rd) (stage W now (ahID h) d) (\<lambda>_. intact sha busy c) (intact sha busy c)" if "ahID h \<in> busy" for rd
    by (rule triple_conseq [OF stage_triple [OF that]]) (auto intro: settled_intact)
  with DoStage assms(1) out show ?thesis by (auto split: if_splits intro: afterOp_intact)
next
  case (DoPublish now h ct body)
  have "triple (settled sha busy c rd) (publish W sha opts now h ct body) (\<lambda>_. intact sha (busy - {ahID h}) c) (intact sha (busy - {ahID h}) c)"
    if "ahID h \<in> busy" "int (length body) \<le> MaxBodyBytes" for rd
    by (rule triple_conseq [OF publish_triple [OF that]]) auto
  with DoPublish assms(1) out show ?thesis by (auto split: if_splits intro: afterOp_intact)
qed (use assms(1) out in \<open>auto intro: afterOp_intact [OF Cancel_intact] afterOp_intact [OF GetContext_triple]
    afterOp_intact [OF EvictLowPriority_triple] afterOp_intact [OF recover_intact] afterOp_intact [OF runStep_intact]\<close>)

lemma artHistory_intact:
  assumes "files_plain others" "0 \<le> aoMaxBytes opts" "artHistory sha opts ops (newStore others) = (s, busy)"
  shows "intact sha busy (aoMaxBytes opts) s"
proof -
  have "intact sha busy2 (aoMaxBytes opts) s2"
    if "intact sha busy1 (aoMaxBytes opts) s1" "fold (perform sha opts) ops (s1, busy1) = (s2, busy2)" for s1 busy1 s2 busy2
    using that
  proof (induction ops arbitrary: s1 busy1)
    case (Cons op ops)
    obtain W o' s' busy' where "op = (W, o')" "perform sha opts (W, o') (s1, busy1) = (s', busy')" by fastforce
    with Cons.IH [of busy' s'] Cons.prems perform_intact show ?case by simp
  qed simp
  from this [OF newStore_intact [OF assms(1,2)]] assms(3) show ?thesis by (simp add: artHistory_def)
qed

section \<open>Files within the rows\<close>

definition bodyBytes :: "art_files \<Rightarrow> int" where
  "bodyBytes fs = sum_list (map (int \<circ> length \<circ> snd) (flBlobs fs))"

definition transferBytes :: "art_db \<Rightarrow> art_files \<Rightarrow> int" where
  "transferBytes db fs =
    sum_list (map (int \<circ> length \<circ> snd) (filter (\<lambda>(i, _). map_of (dbReservations db) i \<noteq> None) (flTmp fs)))"

text \<open>Bodies with the same digest have the same length.\<close>

definition digest_lengths :: "(string \<Rightarrow> string) \<Rightarrow> bool" where
  "digest_lengths sha \<longleftrightarrow> (\<forall>a b. int (length a) \<le> MaxBodyBytes \<longrightarrow> int (length b) \<le> MaxBodyBytes \<longrightarrow> sha a = sha b \<longrightarrow> length a = length b)"

lemma sum_keys:
  assumes "wf_map m"
  shows "sum_list (map f m) = (\<Sum>k \<in> dom (map_of m). f (k, the (map_of m k)) :: int)"
proof -
  have d: "distinct m" "inj_on fst (set m)" using assms by (simp_all add: wf_map_def distinct_map)
  have "sum_list (map f m) = (\<Sum>e \<in> set m. f e)" by (rule sum_list_distinct_conv_sum_set [OF d(1)])
  also have "\<dots> = (\<Sum>e \<in> set m. f (fst e, the (map_of m (fst e))))"
    using assms by (intro sum.cong) (auto simp: wf_map_def)
  also have "\<dots> = (\<Sum>k \<in> dom (map_of m). f (k, the (map_of m k)))"
    by (simp add: sum.reindex [OF d(2)] dom_map_of_conv_image_fst)
  finally show ?thesis .
qed

lemma sum_bounded_int: "(\<And>x. x \<in> A \<Longrightarrow> f x \<le> (b :: int)) \<Longrightarrow> sum f A \<le> int (card A) * b"
  using sum_bounded_above [of A f b] by simp

lemma committed_files:
  assumes "rows_ok sha db" "files_ok sha fs" "digest_lengths sha" "map_of (flBlobs fs) d = Some b" "map_of (dbBlobs db) d = Some n"
  shows "int (length b) = n"
proof -
  have "hex_encode (sha b) = d" "int (length b) \<le> MaxBodyBytes"
    using assms(2) map_of_SomeD [OF assms(4)] by (auto simp: files_ok_def)
  moreover obtain b' where "hex_encode (sha b') = d" "int (length b') = n" "n \<le> MaxBodyBytes"
    using assms(1) map_of_SomeD [OF assms(5)] by (auto simp: rows_ok_def)
  ultimately show ?thesis using assms(3) unfolding digest_lengths_def by (metis hex_encode_inject)
qed

text \<open>A file without a row and a transfer under way need a reservation each, and never the same.\<close>

lemma reservations_suffice:
  assumes "rows_ok sha db" "finite A" "finite T" "\<And>i. i \<in> T \<Longrightarrow> map_of (dbReservations db) i \<noteq> None \<and> map_of (flTmp fs) i \<noteq> None"
    and "\<And>d. d \<in> A \<Longrightarrow> answers_for busy db fs d"
  shows "(int (card A) + int (card T)) * MaxBodyBytes \<le> reservedBytes db"
proof -
  let ?R = "dom (map_of (dbReservations db))"
  have "\<exists>i. \<exists>r. map_of (dbReservations db) i = Some r \<and> arCandidate r = Some d \<and> map_of (flTmp fs) i = None" if "d \<in> A" for d
    using assms(5) [OF that] by (auto simp: answers_for_def)
  then obtain g where g: "d \<in> A \<Longrightarrow> \<exists>r. map_of (dbReservations db) (g d) = Some r \<and> arCandidate r = Some d \<and> map_of (flTmp fs) (g d) = None" for d
    by metis
  have inj: "inj_on g A"
  proof (rule inj_onI)
    fix d d'
    assume "d \<in> A" "d' \<in> A" "g d = g d'"
    with g [of d] g [of d'] show "d = d'" by auto
  qed
  have disj: "g ` A \<inter> T = {}" using g assms(4) by fastforce
  have "g ` A \<union> T \<subseteq> ?R" using g assms(4) by blast
  then have "card (g ` A \<union> T) \<le> card ?R" by (rule card_mono [OF finite_dom_map_of])
  then have "card A + card T \<le> card ?R"
    using card_Un_disjoint [OF finite_imageI [OF assms(2)] assms(3) disj] by (simp add: card_image [OF inj])
  then have "(int (card A) + int (card T)) * MaxBodyBytes \<le> int (card ?R) * reservationBytes"
    by (intro mult_mono) (simp_all add: reservationBytes_def MaxBodyBytes_def variantOverhead_def blobOverhead_def)
  also have "\<dots> = (\<Sum>i \<in> ?R. arBytes (the (map_of (dbReservations db) i)))"
  proof -
    have "arBytes (the (map_of (dbReservations db) i)) = reservationBytes" if "i \<in> ?R" for i
      using that assms(1) by (fastforce simp: rows_ok_def dest: map_of_SomeD)
    then show ?thesis by simp
  qed
  also have "\<dots> = reservedBytes db"
    using assms(1) by (simp add: reservedBytes_def sum_keys rows_ok_def)
  finally show ?thesis .
qed

lemma files_within_rows:
  assumes "consistent sha busy db fs rd" "digest_lengths sha"
  shows "bodyBytes fs + transferBytes db fs \<le> payloadBytes db + reservedBytes db"
proof -
  let ?tmp = "filter (\<lambda>(i, _). map_of (dbReservations db) i \<noteq> None) (flTmp fs)"
  let ?len = "\<lambda>d. int (length (the (map_of (flBlobs fs) d)))" and ?size = "\<lambda>d. the (map_of (dbBlobs db) d)"
  have rows: "rows_ok sha db" and files: "files_ok sha fs" and cov: "covered busy db fs"
    using assms(1) by (simp_all add: consistent_def)
  have wf: "wf_map (flBlobs fs)" "wf_map (dbBlobs db)" "wf_map ?tmp" using rows files by (auto simp: rows_ok_def files_ok_def)
  let ?A = "dom (map_of (flBlobs fs))" and ?B = "dom (map_of (dbBlobs db))" and ?T = "dom (map_of ?tmp)"
  have fin: "finite ?A" "finite ?B" "finite ?T" by (simp_all add: finite_dom_map_of)
  have body: "bodyBytes fs = sum ?len (?A \<inter> ?B) + sum ?len (?A - ?B)"
    using sum.Int_Diff [OF fin(1), of ?len ?B] by (simp add: bodyBytes_def sum_keys [OF wf(1)])
  have "sum ?len (?A \<inter> ?B) = sum ?size (?A \<inter> ?B)"
    by (rule sum.cong [OF refl]) (auto intro: committed_files [OF rows files assms(2)])
  also have "\<dots> \<le> sum ?size ?B"
    by (rule sum_mono2 [OF fin(2)]) (use blob_nonneg [OF rows] in \<open>fastforce dest: map_of_SomeD\<close>)+
  also have "\<dots> = payloadBytes db" by (simp add: payloadBytes_def sum_keys [OF wf(2)])
  finally have payload: "sum ?len (?A \<inter> ?B) \<le> payloadBytes db" .
  have "sum ?len (?A - ?B) \<le> int (card (?A - ?B)) * MaxBodyBytes"
    by (rule sum_bounded_int) (use files in \<open>fastforce simp: files_ok_def dest: map_of_SomeD\<close>)
  moreover have "transferBytes db fs \<le> int (card ?T) * MaxBodyBytes"
    unfolding transferBytes_def sum_keys [OF wf(3)]
    by (rule sum_bounded_int) (use files in \<open>fastforce simp: files_ok_def map_of_filter_key dest: map_of_SomeD split: if_splits\<close>)
  moreover have "(int (card (?A - ?B)) + int (card ?T)) * MaxBodyBytes \<le> reservedBytes db"
  proof (rule reservations_suffice [OF rows _ fin(3)])
    show "answers_for busy db fs d" if "d \<in> ?A - ?B" for d using that cov by (auto simp: covered_def)
    show "map_of (dbReservations db) i \<noteq> None \<and> map_of (flTmp fs) i \<noteq> None" if "i \<in> ?T" for i
      using that by (auto simp: map_of_filter_key split: if_splits)
  qed (use fin in simp)
  ultimately show ?thesis using body payload by (simp add: algebra_simps)
qed

section \<open>The byte budget\<close>

lemma sharedOptions_max: "sharedOptions o1 = Some opts \<Longrightarrow> 0 < aoMaxBytes opts"
  by (auto simp: sharedOptions_def Let_def split: if_splits)


definition lengthDigest :: "string \<Rightarrow> string" where
  "lengthDigest b = map (\<lambda>k. char_of (length b div 256 ^ k)) [0 ..< 3] @ replicate 29 (CHR ''0'')"

lemma lengthDigest_lengths: "digest_lengths lengthDigest"
  unfolding digest_lengths_def
proof (intro allI impI)
  fix a b :: string
  assume len: "int (length a) \<le> MaxBodyBytes" "int (length b) \<le> MaxBodyBytes" and "lengthDigest a = lengthDigest b"
  then have digit: "length a div 256 ^ k mod 256 = length b div 256 ^ k mod 256" if "k < 3" for k
    using that by (auto simp: lengthDigest_def char_of_eq_iff take_bit_eq_mod)
  have split: "n = n div 1 mod 256 + 256 * (n div 256 mod 256) + 65536 * (n div 65536 mod 256)" if "n < 16777216" for n :: nat
  proof -
    have "n div 65536 = n div 256 div 256" using div_mult2_eq [of n 256 256] by simp
    moreover have "n div 65536 mod 256 = n div 65536" using that by simp
    ultimately show ?thesis using mult_div_mod_eq [of 256 n] mult_div_mod_eq [of 256 "n div 256"] unfolding div_by_1 by linarith
  qed
  have "length a < 16777216" "length b < 16777216" using len by (simp_all add: MaxBodyBytes_def)
  from split [OF this(1)] split [OF this(2)] digit [of 0] digit [of 1] digit [of 2] show "length a = length b" by simp
qed

text \<open>Evaluation works on binary numbers and on the bits of a character.\<close>

lemma char_of_int: "char_of (int n) = char_of n"
proof -
  have "bit (int n) i = bit n i" for i by (simp add: bit_of_nat_iff)
  then show ?thesis by (simp only: char_of_def)
qed

lemma lengthDigest_code [code]:
  "lengthDigest b = map (\<lambda>k. char_of (int (length b) div 256 ^ k)) [0 ..< 3] @ replicate 29 (CHR ''0'')"
proof -
  have "int (length b) div 256 ^ k = int (length b div 256 ^ k)" for k by (simp add: zdiv_int)
  then show ?thesis by (simp only: lengthDigest_def char_of_int)
qed

definition nibble :: "bool \<Rightarrow> bool \<Rightarrow> bool \<Rightarrow> bool \<Rightarrow> char" where
  "nibble b3 b2 b1 b0 =
    (if b3 then if b2 then if b1 then if b0 then CHR ''f'' else CHR ''e'' else if b0 then CHR ''d'' else CHR ''c''
       else if b1 then if b0 then CHR ''b'' else CHR ''a'' else if b0 then CHR ''9'' else CHR ''8''
     else if b2 then if b1 then if b0 then CHR ''7'' else CHR ''6'' else if b0 then CHR ''5'' else CHR ''4''
       else if b1 then if b0 then CHR ''3'' else CHR ''2'' else if b0 then CHR ''1'' else CHR ''0'')"

fun nibbles :: "char \<Rightarrow> string" where
  "nibbles (Char b0 b1 b2 b3 b4 b5 b6 b7) = [nibble b7 b6 b5 b4, nibble b3 b2 b1 b0]"

lemma nibbles_hex: "[hex_lower ((of_char c :: nat) div 16), hex_lower ((of_char c :: nat) mod 16)] = nibbles c"
proof (cases c)
  case (Char b0 b1 b2 b3 b4 b5 b6 b7)
  show ?thesis unfolding Char
    by (cases b0; cases b1; cases b2; cases b3; cases b4; cases b5; cases b6; cases b7; simp add: hex_lower_def nibble_def char_of_def of_char_def bit_0)
qed

lemma hex_encode_code [code]: "hex_encode s = concat (map nibbles s)"
  by (simp only: hex_encode_def nibbles_hex)

lemma digestKey_code [code]: "digestKey key \<longleftrightarrow> int (length key) = 64 \<and> list_all (\<lambda>c. c \<in> set ''0123456789abcdef'') key"
proof -
  have "(48 \<le> (of_char c :: nat) \<and> (of_char c :: nat) \<le> 57 \<or> 97 \<le> (of_char c :: nat) \<and> (of_char c :: nat) \<le> 102) \<longleftrightarrow> c \<in> set ''0123456789abcdef''" for c
  proof (cases c)
    case (Char b0 b1 b2 b3 b4 b5 b6 b7)
    show ?thesis unfolding Char
      by (cases b0; cases b1; cases b2; cases b3; cases b4; cases b5; cases b6; cases b7; simp add: of_char_def)
  qed
  then show ?thesis by (simp add: digestKey_def)
qed

definition calmWorld :: art_world where
  "calmWorld = \<lparr>awOutcome = (\<lambda>_. Good), awFree = (\<lambda>_. Some (2 ^ 40)), awRandom = (\<lambda>_. Some (replicate 16 (CHR ''r'')))\<rparr>"

definition smallStore :: art_options where
  "smallStore = \<lparr>aoMaxBytes = 2 ^ 30, aoMinFreeBytes = 0, aoLowWatermarkBytes = 0, aoProtectedBytes = 0, aoMaxReservations = 0\<rparr>"

definition pictureKey :: string where
  "pictureKey = replicate 64 (CHR ''a'')"

definition pictureHandle :: art_handle where
  "pictureHandle = \<lparr>ahID = hex_encode (replicate 16 (CHR ''r'')), ahKey = pictureKey, ahPriority = 1, ahClosed = False\<rparr>"

definition pictureHistory :: "(art_world \<times> art_op) list" where
  "pictureHistory =
    [(calmWorld, DoReserve 0 0 pictureKey 1), (calmWorld, DoStage 0 pictureHandle (hex_encode (lengthDigest ''PNG''))),
     (calmWorld, DoPublish 0 pictureHandle ''image/png'' ''PNG'')]"

definition pictureRun :: "art_store \<times> string set" where
  "pictureRun = artHistory lengthDigest (the (sharedOptions smallStore)) pictureHistory (newStore [])"

lemma pictureRun_stored:
  "bodyBytes (asFiles (fst pictureRun)) = 3" "snd pictureRun = {}" "asReady (fst pictureRun)"
  by code_simp+


end
