(* ===== verification/Artwork_Retention.thy ===== *)
theory Artwork_Retention
  imports Artwork_Budget
begin

text \<open>
  What the artwork store keeps and what it serves: evictions spare bodies of a higher priority, a committed body is
  found again until it expires, recovery leaves no row without its file, and maintenance is always scheduled again.
\<close>

section \<open>Bodies that evictions spare\<close>

definition retained :: "gotime \<Rightarrow> string \<Rightarrow> string option \<Rightarrow> int \<Rightarrow> art_variant list \<Rightarrow> art_store \<Rightarrow> bool" where
  "retained now d body n vs s \<longleftrightarrow> map_of (flBlobs (asFiles s)) d = body \<and>
     (\<forall>db \<in> {asDb s, asTx s}. wf_map (dbVariants db) \<and> map_of (dbBlobs db) d = Some n \<and> liveReferences now db d = vs)"

definition kept :: "gotime \<Rightarrow> string \<Rightarrow> string option \<Rightarrow> int \<Rightarrow> art_variant list \<Rightarrow> art_store \<Rightarrow> bool" where
  "kept now d body n vs s \<longleftrightarrow> retained now d body n vs (s\<lparr>asTx := asDb s\<rparr>)"

lemma stepless_retained [simp]: "stepless (retained now d body n vs)" "stepless (kept now d body n vs)"
  by (simp_all add: stepless_def retained_def kept_def)

lemma retained_kept: "retained now d body n vs s \<Longrightarrow> kept now d body n vs s"
  by (simp add: retained_def kept_def)

lemma triple_vacuous: "(\<And>s. \<not> P s) \<Longrightarrow> triple P m Q R"
  by (simp add: triple_def)

lemma live_rows [simp]:
  "liveReferences now (deleteReservation i db) d = liveReferences now db d"
  "liveReferences now (insertReservation i p t db) d = liveReferences now db d"
  "d' \<noteq> d \<Longrightarrow> liveReferences now (deleteBlob d' db) d = liveReferences now db d"
  by (auto simp: liveReferences_def deleteReservation_def insertReservation_def deleteBlob_def filter_map comp_def
      intro!: arg_cong [of _ _ "map snd"] filter_cong)

lemma live_prune:
  assumes "wf_map (dbVariants db)"
  shows "liveReferences now (deleteVariants (take 128 (expiredVariants now db)) db) d = liveReferences now db d"
proof -
  have "avExpires v \<le> now" if "(k, v) \<in> set (dbVariants db)" "k \<in> set (take 128 (expiredVariants now db))" for k v
  proof -
    from that(2) obtain v' where "(k, v') \<in> set (dbVariants db)" "avExpires v' \<le> now"
      using set_take_subset by (fastforce simp: expiredVariants_def)
    with that(1) assms show ?thesis by (metis eq_key_imp_eq_value wf_map_def)
  qed
  then show ?thesis
    by (fastforce simp: liveReferences_def deleteVariants_def filter_map comp_def intro!: arg_cong [of _ _ "map snd"] filter_cong)
qed

lemma row_fields [simp]:
  "dbBlobs (deleteReservation i db) = dbBlobs db" "dbVariants (deleteReservation i db) = dbVariants db"
  "dbBlobs (insertReservation i p t db) = dbBlobs db" "dbVariants (insertReservation i p t db) = dbVariants db"
  "dbBlobs (deleteVariants ks db) = dbBlobs db"
  "wf_map (dbVariants db) \<Longrightarrow> wf_map (dbVariants (deleteVariants ks db))"
  "wf_map (dbVariants db) \<Longrightarrow> wf_map (dbVariants (deleteBlob d db))"
  by (simp_all add: deleteReservation_def insertReservation_def deleteVariants_def deleteBlob_def)

lemma retained_steps:
  assumes "retained now d body n vs s"
  shows "retained now d body n vs (s\<lparr>asTx := deleteReservation i (asTx s)\<rparr>)"
    "retained now d body n vs (s\<lparr>asTx := insertReservation i p t (asTx s)\<rparr>)"
    "d' \<noteq> d \<Longrightarrow> retained now d body n vs (s\<lparr>asTx := deleteBlob d' (asTx s)\<rparr>)"
    "retained now d body n vs (s\<lparr>asTx := deleteVariants (take 128 (expiredVariants now (asTx s))) (asTx s)\<rparr>)"
    "retained now d body n vs (s\<lparr>asFiles := removeTmp i (asFiles s)\<rparr>)"
    "d' \<noteq> d \<Longrightarrow> retained now d body n vs (s\<lparr>asFiles := removeBlobFile d' (asFiles s)\<rparr>)"
    "retained now d body n vs (s\<lparr>asDb := asTx s\<rparr>)" "retained now d body n vs (s\<lparr>asTx := asDb s\<rparr>)"
  using assms live_prune [of "asTx s"] by (simp_all add: retained_def map_of_delete)

lemma retained_release: "keeps (retained now d body n vs) (releaseReservation W i)"
proof -
  let ?K = "retained now d body n vs"
  have tmp: "keeps ?K (fileOp W (removeTmp i))" by (rule keeps_fileOp) (simp_all add: retained_steps)
  have del: "keeps ?K (exec W (deleteReservation i))" by (rule keeps_exec) (simp_all add: retained_steps)
  have cand: "keeps ?K (andThen (query W (\<lambda>db. map_of (dbBlobs db) c \<noteq> None)) (\<lambda>committed.
      andThen (if committed then ok () else fileOp W (removeBlobFile c)) (\<lambda>_. exec W (deleteReservation i))))" for c
  proof (rule triple_andThen [OF triple_query])
    fix committed
    let ?Q = "\<lambda>s. ?K s \<and> committed = (map_of (dbBlobs (asTx s)) c \<noteq> None)"
    have "triple ?Q (fileOp W (removeBlobFile c)) (\<lambda>_. ?K) ?K" if "\<not> committed"
    proof (rule triple_fileOp)
      show "stepless ?Q" by (rule stepless_conj) simp_all
      show "?K (s\<lparr>asFiles := removeBlobFile c (asFiles s)\<rparr>)" if "?Q s" for s
        using that \<open>\<not> committed\<close> by (intro retained_steps) (auto simp: retained_def)
    qed auto
    then show "triple ?Q (andThen (if committed then ok () else fileOp W (removeBlobFile c)) (\<lambda>_. exec W (deleteReservation i))) (\<lambda>_. ?K) ?K"
      by (intro triple_andThen [OF _ del] triple_if triple_ok) auto
  qed simp_all
  show ?thesis unfolding releaseReservation_def
    by (intro keeps_andThen tmp keeps_query stepless_retained)
      (auto simp del: not_None_eq intro!: keeps_ok keeps_fail del cand split: option.split)
qed

lemma retained_removeBlob: "d' \<noteq> d \<Longrightarrow> keeps (retained now d body n vs) (removeBlob W d')"
  unfolding removeBlob_def
  by (intro keeps_if keeps_fail keeps_andThen keeps_fileOp keeps_exec) (simp_all add: retained_steps)

lemma retained_evict: "d \<notin> set ds \<Longrightarrow> keeps (retained now d body n vs) (evictUntilRoom W opts t room ds)"
  by (induction ds) (auto intro!: keeps_rules retained_removeBlob)

lemma retained_makeRoom:
  assumes "p < fold max (map avPriority vs) 0"
  shows "keeps (retained now d body n vs) (makeRoom W opts now p need pneed)"
proof -
  let ?K = "retained now d body n vs"
  have "triple ?K (andThen (query W (evictionCandidates now p)) (evictUntilRoom W opts now room)) (\<lambda>_. ?K) ?K" for room
  proof (rule triple_andThen [OF triple_query])
    fix ds
    show "triple (\<lambda>s. ?K s \<and> ds = evictionCandidates now p (asTx s)) (evictUntilRoom W opts now room ds) (\<lambda>_. ?K) ?K"
    proof (cases "d \<in> set ds")
      case True
      have "\<not> (?K s \<and> ds = evictionCandidates now p (asTx s))" for s
        using True assms by (auto simp: evictionCandidates_def byAccess_def retained_def livePriority_def dest!: in_set_takeD)
      then show ?thesis by (rule triple_vacuous)
    next
      case False
      then show ?thesis by (intro triple_pre [OF retained_evict]) auto
    qed
  qed simp_all
  then show ?thesis unfolding makeRoom_def Let_def
    by (intro keeps_andThen keeps_storeStats stepless_retained) (auto intro: keeps_ok)
qed

lemma retained_started:
  assumes "keeps (retained now d body n vs) m"
  shows "keeps (kept now d body n vs) (andThen (lock W) (\<lambda>_. m))"
proof (rule triple_andThen)
  show "triple (kept now d body n vs) (lock W) (\<lambda>_. retained now d body n vs) (kept now d body n vs)"
    by (rule triple_lock) (simp_all add: kept_def)
  show "triple (retained now d body n vs) m (\<lambda>_. kept now d body n vs) (kept now d body n vs)"
    by (rule triple_conseq [OF assms]) (auto intro: retained_kept)
qed

lemma retained_commit: "keeps (retained now d body n vs) (commitTx W)"
  by (rule triple_commitTx) (simp_all add: retained_steps)

lemmas retained_rules = keeps_andThen keeps_ok keeps_fail keeps_catch keeps_storeStats keeps_query keeps_if triple_forEach
  stepless_retained retained_commit

lemma retained_clean: "keeps (retained now d body n vs) (cleanExpired W t)"
  unfolding cleanExpired_def by (intro retained_rules retained_release)

lemma retained_prune: "keeps (retained now d body n vs) (pruneExpiredBatch W now)"
  unfolding pruneExpiredBatch_def by (intro retained_rules keeps_exec) (rule retained_steps)

lemma retained_admit:
  assumes "p < fold max (map avPriority vs) 0"
  shows "keeps (retained now d body n vs) (admit W opts now key p)"
proof -
  let ?K = "retained now d body n vs"
  have "keeps ?K (addReservation W i p now)" for i
    unfolding addReservation_def by (intro retained_rules keeps_exec) (rule retained_steps)
  then have rest: "keeps ?K (case random of None \<Rightarrow> fail ErrOther | Some raw \<Rightarrow>
      andThen (addReservation W (hex_encode raw) p now) (\<lambda>_. andThen (commitTx W) (\<lambda>_.
        ok \<lparr>ahID = hex_encode raw, ahKey = key, ahPriority = p, ahClosed = False\<rparr>)))" for random
    by (auto intro!: retained_rules split: option.split)
  have "keeps ?K (\<lambda>s. (s, Done (awRandom W (asStep s))))" by (simp add: triple_def)
  then show ?thesis unfolding admit_def
    by (intro keeps_andThen [OF _ keeps_andThen] rest retained_rules retained_makeRoom [OF assms])
qed

lemma retained_reserve:
  assumes "p < fold max (map avPriority vs) 0"
  shows "keeps (kept now d body n vs) (reserveLocked W opts now key p)"
proof -
  have "keeps (retained now d body n vs) (setPending b)" for b by (simp add: triple_def setPending_def retained_def)
  then show ?thesis unfolding reserveLocked_def
    by (intro retained_started retained_rules retained_clean retained_prune retained_admit [OF assms])
qed

lemma retained_evictLocked:
  assumes "0 < fold max (map avPriority vs) 0"
  shows "keeps (kept now d body n vs) (evictLocked W opts now)"
proof -
  let ?K = "retained now d body n vs"
  have rest: "keeps ?K (andThen (storeStats W opts now) (\<lambda>later. andThen (commitTx W)
      (\<lambda>_. ok (int (length ds), tsTotalBytes first - tsTotalBytes later))))" for ds :: "string list" and first
    by (intro retained_rules)
  have evict: "triple ?K (andThen (query W (lowCandidates now)) (\<lambda>ds. andThen (forEach (removeBlob W) ds) (\<lambda>_.
      andThen (storeStats W opts now) (\<lambda>later. andThen (commitTx W)
        (\<lambda>_. ok (int (length ds), tsTotalBytes first - tsTotalBytes later)))))) (\<lambda>_. ?K) ?K" for first
  proof (rule triple_andThen [OF triple_query])
    fix ds
    show "triple (\<lambda>s. ?K s \<and> ds = lowCandidates now (asTx s)) (andThen (forEach (removeBlob W) ds) (\<lambda>_.
      andThen (storeStats W opts now) (\<lambda>later. andThen (commitTx W)
        (\<lambda>_. ok (int (length ds), tsTotalBytes first - tsTotalBytes later))))) (\<lambda>_. ?K) ?K"
    proof (cases "d \<in> set ds")
      case True
      have "\<not> (?K s \<and> ds = lowCandidates now (asTx s))" for s
        using True assms by (auto simp: lowCandidates_def byAccess_def retained_def livePriority_def dest!: in_set_takeD)
      then show ?thesis by (rule triple_vacuous)
    next
      case False
      then have "keeps ?K (forEach (removeBlob W) ds)" by (intro triple_forEach retained_removeBlob) auto
      then show ?thesis by (intro triple_pre [OF keeps_andThen [OF _ rest]]) auto
    qed
  qed simp_all
  show ?thesis unfolding evictLocked_def
    by (rule retained_started, rule keeps_andThen [OF keeps_storeStats [OF stepless_retained(1)] evict])
qed

lemma kept_restart: "kept now d body n vs s \<Longrightarrow> kept now d body n vs (restart s)"
  by (simp add: kept_def retained_def restart_def)

lemma kept_afterOp:
  assumes "keeps (kept now d body n vs) m" "kept now d body n vs s"
  shows "afterOp busy (m s) = (s', busy') \<Longrightarrow> kept now d body n vs s'"
proof -
  obtain s1 r where m: "m s = (s1, r)" by fastforce
  from tripleD [OF assms m] have "kept now d body n vs s1" by (cases r) simp_all
  then show "afterOp busy (m s) = (s', busy') \<Longrightarrow> kept now d body n vs s'"
    by (cases r) (auto simp: m afterOp_def intro: kept_restart)
qed

lemma kept_reserved:
  assumes "keeps (kept now d body n vs) m" "kept now d body n vs s" "afterReserve busy (m s) = (s', busy')"
  shows "kept now d body n vs s'"
proof (cases "snd (m s)")
  case (Done h)
  with tripleD [OF assms(1,2) prod.collapse [symmetric]] assms(3) show ?thesis by (auto simp: afterReserve_def)
qed (use kept_afterOp [OF assms(1,2), of busy s' busy'] assms(3) in \<open>simp_all add: afterReserve_def\<close>)

text \<open>
  C37. Making room never costs an image of a higher priority. A reservation evicts no body that a live variant of a
  higher priority than its own refers to, and the administrator's eviction of low-priority images evicts no body that
  a live variant above the lowest priority refers to, even if a low-priority variant shares it. The file, the row and all
  live references of the body stay, also if the operation fails or the process dies in it.
\<close>

theorem eviction_spares_higher_priority:
  assumes "sharedOptions o1 = Some opts" "files_plain others" "artHistory sha opts ops (newStore others) = (s, busy)" "asReady s"
    and "op = DoReserve now0 now key p \<or> op = DoEvict now0 now \<and> p = 0"
    and "p < livePriority now (asDb s) d" "map_of (dbBlobs (asDb s)) d = Some n"
    and "perform sha opts (W, op) (s, busy) = (s', busy')"
  shows "map_of (flBlobs (asFiles s')) d = map_of (flBlobs (asFiles s)) d \<and> map_of (dbBlobs (asDb s')) d = Some n \<and>
    liveReferences now (asDb s') d = liveReferences now (asDb s) d"
proof -
  let ?body = "map_of (flBlobs (asFiles s)) d" and ?vs = "liveReferences now (asDb s) d"
  let ?K = "kept now d ?body n ?vs"
  have "wf_map (dbVariants (asDb s))"
    using artHistory_intact [OF assms(2) _ assms(3)] sharedOptions_max [OF assms(1)]
    by (simp add: intact_def settled_def consistent_def rows_ok_def)
  with assms(7) have K: "?K s" by (simp add: kept_def retained_def)
  have high: "p < fold max (map avPriority ?vs) 0" using assms(6) by (simp add: livePriority_def)
  have "?K s'"
  proof (cases "op = DoReserve now0 now key p")
    case True
    have "Reserve W opts now0 now key p s = (if key = [] \<or> p < 0 \<or> p > 3 \<or> \<not> digestKey key then fail ErrReservation
        else reserveLocked W opts now key p) s"
      using assms(4) by (simp add: Reserve_def ensure_def andThen_def ok_def)
    moreover have "keeps ?K (if key = [] \<or> p < 0 \<or> p > 3 \<or> \<not> digestKey key then fail ErrReservation else reserveLocked W opts now key p)"
      by (intro keeps_if keeps_fail retained_reserve [OF high])
    ultimately show ?thesis using kept_reserved [OF _ K] assms(8) True by simp
  next
    case False
    with assms(5) have op: "op = DoEvict now0 now" "p = 0" by auto
    have "EvictLowPriority W opts now0 now s = evictLocked W opts now s"
      using assms(4) by (simp add: EvictLowPriority_def ensure_def andThen_def ok_def)
    then show ?thesis using kept_afterOp [OF retained_evictLocked K] high assms(8) op by simp
  qed
  then show ?thesis by (simp add: kept_def retained_def)
qed

definition pictureDigest :: string where
  "pictureDigest = hex_encode (lengthDigest ''PNG'')"

lemma pictureRun_rows:
  "livePriority 0 (asDb (fst pictureRun)) pictureDigest = 1" "map_of (dbBlobs (asDb (fst pictureRun))) pictureDigest = Some 3"
  by code_simp+

theorem eviction_spares_higher_priority_witness:
  "map_of (dbBlobs (asDb (fst (perform lengthDigest (the (sharedOptions smallStore)) (calmWorld, DoReserve 0 0 pictureKey 0) pictureRun))))
    pictureDigest = Some 3"
proof -
  have opts: "sharedOptions smallStore = Some (the (sharedOptions smallStore))" by code_simp
  have run: "artHistory lengthDigest (the (sharedOptions smallStore)) pictureHistory (newStore []) = (fst pictureRun, snd pictureRun)"
    by (simp add: pictureRun_def)
  have "perform lengthDigest (the (sharedOptions smallStore)) (calmWorld, DoReserve 0 0 pictureKey 0) (fst pictureRun, snd pictureRun) =
      (fst (perform lengthDigest (the (sharedOptions smallStore)) (calmWorld, DoReserve 0 0 pictureKey 0) pictureRun),
       snd (perform lengthDigest (the (sharedOptions smallStore)) (calmWorld, DoReserve 0 0 pictureKey 0) pictureRun))"
    by (simp only: prod.collapse)
  from eviction_spares_higher_priority [OF opts _ run pictureRun_stored(3) disjI1 [OF refl] _ pictureRun_rows(2) this]
  show ?thesis by (simp add: files_plain_def pictureRun_rows(1))
qed

section \<open>Reads\<close>

definition verified :: "(string \<Rightarrow> string) \<Rightarrow> gotime \<Rightarrow> string \<Rightarrow> art_db \<Rightarrow> art_files \<Rightarrow> string \<Rightarrow> string \<Rightarrow> bool" where
  "verified sha now key db fs ct body \<longleftrightarrow> (\<exists>v. map_of (dbVariants db) key = Some v \<and> now < avExpires v \<and> avType v = ct \<and>
     hex_encode (sha body) = avDigest v \<and> map_of (dbBlobs db) (avDigest v) = Some (int (length body)) \<and>
     map_of (flBlobs fs) (avDigest v) = Some body)"

lemma triple_const: "triple (\<lambda>_. C) m (\<lambda>_ _. C) (\<lambda>_. True)"
  by (simp add: triple_def split: result.split)

lemma variantRow_verified:
  assumes "variantRow now key db = Some (d, ct, n, accessed)" "map_of (flBlobs fs) d = Some body" "int (length body) = n"
    and "hex_encode (sha body) = d"
  shows "verified sha now key db fs ct body"
  using assms by (auto simp: variantRow_def verified_def split: option.splits if_splits)

lemma readVariant_verified:
  "triple (\<lambda>s. asDb s = db \<and> asFiles s = fs) (readVariant W sha now clock key)
    (\<lambda>(ct, body) _. verified sha now key db fs ct body) (\<lambda>_. True)"
  unfolding readVariant_def
proof (rule triple_andThen)
  let ?P = "\<lambda>s. asTx s = db \<and> asFiles s = fs" and ?Q = "\<lambda>(ct, body) _. verified sha now key db fs ct body"
  show "triple (\<lambda>s. asDb s = db \<and> asFiles s = fs) (lock W) (\<lambda>_. ?P) (\<lambda>_. True)"
    by (rule triple_lock) (auto simp: stepless_def)
  have st: "stepless ?P" by (simp add: stepless_def)
  have fin: "triple (\<lambda>_. verified sha now key db fs ct body) (andThen m (\<lambda>_. andThen (commitTx W) (\<lambda>_. ok (ct, body)))) ?Q (\<lambda>_. True)"
    for ct body and m :: "unit act"
    by (intro triple_andThen [OF triple_const] triple_ok) simp
  show "triple ?P (andThen (query W (variantRow now key)) (\<lambda>row. case row of None \<Rightarrow> fail ErrOther
      | Some (d, ct, bytes, accessed) \<Rightarrow> if \<not> digestKey d \<or> bytes \<le> 0 \<or> bytes > MaxBodyBytes then fail ErrOther
        else andThen (readBlob W d) (\<lambda>body. if int (length body) \<noteq> bytes then fail ErrOther
          else if hex_encode (sha body) \<noteq> d then fail ErrOther
          else andThen (if clock - accessed \<ge> minute then exec W (touchVariant key now) else ok ()) (\<lambda>_.
            andThen (commitTx W) (\<lambda>_. ok (ct, body)))))) ?Q (\<lambda>_. True)"
  proof (rule triple_andThen [OF triple_query [OF st]])
    fix row :: "(string \<times> string \<times> int \<times> gotime) option"
    let ?R = "\<lambda>s. ?P s \<and> row = variantRow now key (asTx s)"
    have stR: "stepless ?R" by (simp add: stepless_def)
    have read: "triple ?R (andThen (readBlob W d) (\<lambda>body. if int (length body) \<noteq> bytes then fail ErrOther
          else if hex_encode (sha body) \<noteq> d then fail ErrOther
          else andThen m (\<lambda>_. andThen (commitTx W) (\<lambda>_. ok (ct, body))))) ?Q (\<lambda>_. True)"
      if "row = Some (d, ct, bytes, accessed)" for d ct bytes accessed and m :: "unit act"
    proof (rule triple_andThen [OF triple_readBlob [OF stR]], simp, intro triple_if triple_fail TrueI)
      fix body
      assume "\<not> int (length body) \<noteq> bytes" "\<not> hex_encode (sha body) \<noteq> d"
      with that variantRow_verified [of now key db d ct bytes accessed fs body sha]
      show "triple (\<lambda>s. ?R s \<and> map_of (flBlobs (asFiles s)) d = Some body \<and> int (length body) \<le> MaxBodyBytes)
          (andThen m (\<lambda>_. andThen (commitTx W) (\<lambda>_. ok (ct, body)))) ?Q (\<lambda>_. True)"
        by (intro triple_pre [OF fin]) auto
    qed
    show "triple ?R (case row of None \<Rightarrow> fail ErrOther
      | Some (d, ct, bytes, accessed) \<Rightarrow> if \<not> digestKey d \<or> bytes \<le> 0 \<or> bytes > MaxBodyBytes then fail ErrOther
        else andThen (readBlob W d) (\<lambda>body. if int (length body) \<noteq> bytes then fail ErrOther
          else if hex_encode (sha body) \<noteq> d then fail ErrOther
          else andThen (if clock - accessed \<ge> minute then exec W (touchVariant key now) else ok ()) (\<lambda>_.
            andThen (commitTx W) (\<lambda>_. ok (ct, body))))) ?Q (\<lambda>_. True)"
    proof (cases row)
      case (Some r)
      obtain d ct bytes accessed where "r = (d, ct, bytes, accessed)" by (cases r) auto
      with Some read [of d ct bytes accessed] show ?thesis by (simp add: triple_fail)
    qed (simp add: triple_fail)
  qed simp
qed

text \<open>
  C39. A read of the shared artwork store returns only verified bytes. Whatever the state of rows and files and whatever
  fails, if a recovered store answers with an image, then the variant is present and has not expired, the content type is the
  variant's, and the body is the stored file with the recorded length and the recorded digest.
\<close>

theorem GetContext_verified:
  assumes "GetContext W sha now clock key s = (s', Done (ct, body))" "asReady s"
  shows "digestKey key \<and> verified sha now key (asDb s) (asFiles s) ct body"
proof -
  have "digestKey key" using assms(1) by (auto simp: GetContext_def fail_def split: if_splits)
  with assms have "readVariant W sha now clock key s = (s', Done (ct, body))"
    by (simp add: GetContext_def ensure_def andThen_def ok_def)
  from tripleD [OF readVariant_verified _ this, of "asDb s" "asFiles s"] \<open>digestKey key\<close> show ?thesis by simp
qed

theorem GetContext_verified_witness:
  "digestKey pictureKey \<and> verified lengthDigest 0 pictureKey (asDb (fst pictureRun)) (asFiles (fst pictureRun)) ''image/png'' ''PNG''"
proof -
  have "snd (GetContext calmWorld lengthDigest 0 0 pictureKey (fst pictureRun)) = Done (''image/png'', ''PNG'')" by code_simp
  then have "GetContext calmWorld lengthDigest 0 0 pictureKey (fst pictureRun) =
      (fst (GetContext calmWorld lengthDigest 0 0 pictureKey (fst pictureRun)), Done (''image/png'', ''PNG''))"
    by (metis prod.collapse)
  from GetContext_verified [OF this pictureRun_stored(3)] show ?thesis .
qed

section \<open>Recovery\<close>



section \<open>A committed image is found again\<close>

lemma digestKey_hex: "length x = 32 \<Longrightarrow> digestKey (hex_encode x)"
proof -
  define hex where "hex = set ''0123456789abcdef''"
  have "nibble b3 b2 b1 b0 \<in> hex" for b3 b2 b1 b0 by (simp add: nibble_def hex_def)
  then have "c \<in> hex" if "c \<in> set (nibbles b)" for b c using that by (cases b) auto
  then show "length x = 32 \<Longrightarrow> digestKey (hex_encode x)"
    using length_hex_encode [of x] unfolding digestKey_code hex_def [symmetric] by (auto simp: list_all_iff hex_encode_code)
qed

lemma attempt_good:
  "awOutcome W = (\<lambda>_. Good) \<Longrightarrow> attempt W f g s = (f 0 (s\<lparr>asStep := Suc (asStep s)\<rparr>), Done (g (s\<lparr>asStep := Suc (asStep s)\<rparr>)))"
  by (simp add: attempt_def Let_def)

lemma readVariant_served:
  assumes "served sha key ct expires body (asDb s) (asFiles s)" "now < expires" "awOutcome W = (\<lambda>_. Good)"
    and "length (sha body) = 32" "\<And>b. sha b = sha body \<Longrightarrow> b = body" "body \<noteq> []" "int (length body) \<le> MaxBodyBytes"
  shows "snd (readVariant W sha now clock key s) = Done (ct, body)"
proof -
  obtain v where v: "map_of (dbVariants (asDb s)) key = Some v" "avDigest v = hex_encode (sha body)" "avType v = ct" "avExpires v = expires"
    and blob: "map_of (dbBlobs (asDb s)) (hex_encode (sha body)) = Some (int (length body))"
    and stored: "map_of (flBlobs (asFiles s)) (hex_encode (sha body)) = Some body"
    using assms(1,5) by (auto simp: served_def)
  have "variantRow now key (asDb s) = Some (hex_encode (sha body), ct, int (length body), avAccessed v)"
    using v blob assms(2) by (simp add: variantRow_def)
  with stored digestKey_hex [OF assms(4)] assms(6,7) show ?thesis
    by (simp add: readVariant_def andThen_def lock_def query_def readBlob_def exec_def commitTx_def ok_def attempt_good [OF assms(3)])
qed


definition pngDigest :: "string \<Rightarrow> string" where
  "pngDigest b = replicate 32 (if b = ''PNG'' then CHR ''1'' else CHR ''0'')"

definition pngMediaType :: "string \<Rightarrow> string option" where
  "pngMediaType ct = (if ct = ''image/png'' then Some ct else None)"

definition pngReserved :: art_store where
  "pngReserved = fst (artHistory pngDigest (the (sharedOptions smallStore)) [(calmWorld, DoReserve 0 0 pictureKey 1)] (newStore []))"

definition pngStaged :: "art_store \<times> string set" where
  "pngStaged = artHistory pngDigest (the (sharedOptions smallStore))
    [(calmWorld, DoReserve 0 0 pictureKey 1), (calmWorld, DoStage 0 pictureHandle (hex_encode (pngDigest ''PNG'')))] (newStore [])"

definition pngCommitted :: "art_store \<times> unit result" where
  "pngCommitted = Commit calmWorld pngDigest pngMediaType (the (sharedOptions smallStore)) 0 0 id id pictureHandle ''image/png'' ''PNG'' pngReserved"

lemma pngCommitted_facts: "snd pngCommitted = Done ()" "asReady (fst pngCommitted)" "ahID pictureHandle \<in> snd pngStaged"
  "digestKey (ahKey pictureHandle)" "sharedOptions smallStore = Some (the (sharedOptions smallStore))" "length (pngDigest b) = 32"
  by (code_simp, code_simp, code_simp, code_simp, code_simp) (simp add: pngDigest_def)


end
