(* ===== verification/Spec2Isabelle.thy ===== *)
theory Spec2Isabelle
  imports Policy Cache_Store Gateway Trace Grants Identity Boundary Proxy_Tunnel Routing_Safety Warmer_Budget Artwork_Retention
begin

text \<open>
  A verification development for Replx Edge, the Plex-aware edge proxy under \<^verbatim>\<open>src/\<close>. The service stands
  between Plex clients and one Plex Media Server. It proxies browse requests through a per-user response cache,
  negotiates playback under an administrator's media policy, lets media bytes flow only for what was negotiated, sends
  clients to the server directly where that is configured, and refreshes cached responses in the background.

  \<^bold>\<open>How the parts interact.\<close> The proxy (\<^verbatim>\<open>internal/proxy\<close>) receives a request, classifies its route
  (\<^verbatim>\<open>internal/gateway\<close>), derives client and token fingerprints (\<^verbatim>\<open>internal/trace\<close>), and resolves the
  token to an identity scope (\<^verbatim>\<open>internal/identity\<close>). Browse requests are looked up under a key made of that scope,
  the request and the current invalidation generations (\<^verbatim>\<open>internal/cache\<close>), but only while the caller holds an
  authorization lease. Playback decisions go to the engine (\<^verbatim>\<open>internal/playback\<close>), which loads and evaluates a policy
  (\<^verbatim>\<open>internal/policy\<close>) and records a session; parts and manifests are checked against that session. Media can
  be redirected (\<^verbatim>\<open>internal/spike\<close>, \<^verbatim>\<open>internal/routing\<close>) with a token exchanged through
  \<^verbatim>\<open>internal/delegation\<close>. What the cache accepted is handed to the warmer (\<^verbatim>\<open>internal/warmer\<close>).
  Images go through a shared store of files and rows with a byte budget (\<^verbatim>\<open>internal/artwork\<close>).

  \<^bold>\<open>Conventions.\<close> Go strings are HOL strings of bytes. Structs are records, enumerations are data types or the
  source's own constants. Go maps are association lists with distinct keys (\<open>wf_map\<close>); the order of the list stands for
  one iteration order of the map, and no theorem depends on it. \<open>int\<close> and \<open>int64\<close> are \<open>int\<close>,
  with the wrap written out where the code can reach it; \<open>uint64\<close> is a 64-bit word. Instants and durations are
  nanoseconds. A pointer or an error is an option, a sum or a data type of errors. Stateful methods take and return the
  state. Effects that leave the process (SQL statements, requests, audit rows) are returned as lists of events. The
  database, plex.tv, the media server, JSON and XML coding and the hash functions are arguments; where a theorem
  needs something of them it is a hypothesis, with a witness. Where the code releases a lock, the model
  takes a list of operations that other goroutines complete there, so that theorems hold for every interleaving.

  \<^bold>\<open>The theories.\<close>
  \<^item> \<open>Prelude\<close>, \<open>Go_Strings\<close>, \<open>Go_Http\<close>, \<open>Go_Url\<close>: integers and maps, and what the code uses of the packages
    \<^verbatim>\<open>strings\<close>, \<^verbatim>\<open>strconv\<close>, \<^verbatim>\<open>net/http\<close> and \<^verbatim>\<open>net/url\<close> (parsing, printing, escaping and
    reference resolution of URLs).
  \<^item> \<open>Policy\<close> (\<^verbatim>\<open>policy.go\<close>, \<^verbatim>\<open>load.go\<close>): merging of levels, eligibility, ranking and
    evaluation. Evaluation selects the best permitted variant and fails exactly when there is none; the effective policy follows the most
    specific level, rejections name the level that caused them, and an unreadable level fails closed.
  \<^item> \<open>Cache_Keys\<close>, \<open>Cache_Entry\<close>, \<open>Cache_Store\<close>, \<open>Generations\<close> (\<^verbatim>\<open>internal/cache\<close>):
    admission, keys, the binary codec, the entry stores and the generation counters in memory and in Postgres. Keys of
    different users never coincide, decoding inverts encoding and never panics, the lazily expiring store answers like a map of last writes, and a key of
    a retired generation never comes back. The locales \<open>generation_store\<close> and \<open>generation_frame\<close> state what an invalidation
    promises; both stores interpret them.
  \<^item> \<open>Gateway\<close>, \<open>Trace\<close>: route classification and request fingerprints.
  \<^item> \<open>Grants\<close>, \<open>Identity\<close> (\<^verbatim>\<open>internal/identity\<close>): authorization leases, with the locale
    \<open>authorization\<close>, and identity resolution with its caches and database writes. A lease is backed by a recent grant that was not
    revoked; outcomes are consistent and devices are kept apart.
  \<^item> \<open>Sessions\<close>, \<open>Normalize\<close>, \<open>Playback\<close>, \<open>Boundary\<close> (\<^verbatim>\<open>internal/playback\<close>,
    \<^verbatim>\<open>internal/sync/normalize.go\<close>): the session stores refine a map (locale \<open>session_store\<close>); a decision records a session only for a
    permitted variant; a part or manifest flows only for the negotiated variant of the proven identity or when the policy permits it
    without a session; and after a decision the negotiated part does flow.
  \<^item> \<open>Proxy_Http\<close>, \<open>Proxy\<close>, \<open>Proxy_Safety\<close>, \<open>Proxy_Tunnel\<close> (\<^verbatim>\<open>internal/proxy\<close>): the
    handler on shared state. A cache hit is earned by a live lease; an acknowledged watch write retires every earlier read, under every
    interleaving; in tunnel mode no bulk media leaves outside the artwork route (locale \<open>response_store\<close>); waiting
    for another request ends.
  \<^item> \<open>Routing\<close>, \<open>Routing_Safety\<close> (\<^verbatim>\<open>origin.go\<close>, \<^verbatim>\<open>delegation.go\<close>, \<^verbatim>\<open>redirect.go\<close>,
    \<^verbatim>\<open>logging.go\<close>, \<^verbatim>\<open>spike.go\<close>): the token exchange stays at the configured origin, a direct location points
    to it and carries only the transient token under its name, and traces never depend on that token.
  \<^item> \<open>Warmer\<close>, \<open>Warmer_Pass\<close>, \<open>Warmer_Limits\<close>, \<open>Warmer_Safety\<close>, \<open>Warmer_Budget\<close>
    (\<^verbatim>\<open>internal/warmer\<close>): the tables of jobs and credentials with the foreground operations, and the refresh pass. Tables stay
    bounded and jobs free of secrets (locale \<open>table_invariant\<close>), every request and publication is backed by its own user or the
    owner, a pass keeps its budget, and it ends.
  \<^item> \<open>Artwork_Store\<close>, \<open>Artwork_Ops\<close>, \<open>Artwork_Logic\<close>, \<open>Artwork_Invariant\<close>, \<open>Artwork_Safety\<close>,
    \<open>Artwork_Publish\<close>, \<open>Artwork_Budget\<close>, \<open>Artwork_Retention\<close> (\<^verbatim>\<open>internal/artwork/shared.go\<close>,
    \<^verbatim>\<open>operations.go\<close>, the loop of \<^verbatim>\<open>artwork.go\<close>): operations are actions on rows, open transaction and files in which a
    world decides how each statement and file operation ends, the end of the process included. \<open>Artwork_Logic\<close> has triples for success and failure,
    the next three theories show that every operation keeps rows and files consistent, and the last two conclude for
    all histories: the byte budget holds, evictions spare higher priorities, a committed image is served, reads are verified, and recovery
    reconciles rows and files.

  \<^bold>\<open>Bounds and termination.\<close> No definition has artificial fuel except \<open>refreshLoop\<close>, whose list of rounds is the
  schedule of the environment: \<open>None\<close> says that the list ended before the loop, and a list of 577 rounds is always
  enough while nothing is recorded, because each round sends one of at most 64 requests or removes one of at most 512 jobs. \<open>client_do\<close>
  sends at most five requests because the redirect policy refuses the next one, \<open>waitLoop\<close> ends at its deadline because the clock of a schedule advances, \<open>stripSecrets\<close>
  recurses into shorter queries, \<open>evictUntil\<close> removes a job per step, and \<open>reconcile\<close> and \<open>removeBatches\<close> recurse
  into the rest of the rows. Theorems on counters that wrap say how
  many increments they allow.

  \<^bold>\<open>Not modelled.\<close> Contexts, timeouts and cancellation appear as failing answers only. The administration API and sign-in, onboarding, library
  synchronisation, search, retention, inventory, health, metrics, configuration and the process itself are left out: they
  are sequences of SQL statements, HTTP calls and encoders whose behaviour is that of the libraries and of the database. So are the
  clients for plex.tv, the media server and Valkey, and the cryptography. The proxy model
  keeps the artwork store as an interface of its own. The store model has one process, sequential transactions as the row lock enforces them, and
  sums of bytes without the wrap at \<^verbatim>\<open>int64\<close>; the older directory store behind \<^verbatim>\<open>artwork.New\<close>, which
  production does not construct, is left out. Metrics and log lines are left out except for the redaction.
\<close>

end
